(* ===== verification/Canboot_Prelude.thy ===== *)
theory Canboot_Prelude
  imports Main "HOL-Library.Word"
begin

unbundle bit_operations_syntax

text \<open>
  Shared vocabulary of the CanBoot development: the machine integer types, little-endian
  access to byte buffers (the C sources cast buffers to packed structs), and the effect type
  of code that talks to a device.

  A C function that can fail and that changes device state \<open>'s\<close> is a \<open>('s, 'a) prog\<close>: it maps a
  state to \<^term>\<open>None\<close> when it does not return (an unbounded loop, a divide fault, a call through
  a null function pointer), and otherwise to a return code with the state it leaves behind.
  \<open>Err\<close> is the C convention of returning \<open>-1\<close> (or \<open>false\<close>); the state it carries is the state
  after the part of the function that ran, since nothing is rolled back.
\<close>

section \<open>Machine integers\<close>

type_synonym u8 = "8 word"
type_synonym u16 = "16 word"
type_synonym u32 = "32 word"
type_synonym u64 = "64 word"

type_synonym bytes = "u8 list"

named_theorems byte_simps "access to little-endian fields of byte buffers"

lemma unat_u8_lt [simp]: "unat (x :: u8) < 256"
  using unsigned_less [of x, where ?'a = nat] by simp

lemma unat_u16_lt [simp]: "unat (x :: u16) < 65536"
  using unsigned_less [of x, where ?'a = nat] by simp

lemma unat_u32_lt [simp]: "unat (x :: u32) < 4294967296"
  using unsigned_less [of x, where ?'a = nat] by simp

lemma unat_ucast_up_32_64 [simp]: "unat (ucast (x :: u32) :: u64) = unat x"
  by (simp add: unsigned_ucast_eq take_bit_nat_eq_self_iff order_less_le_trans [OF unsigned_less])

lemma unat_ucast_up_16_32 [simp]: "unat (ucast (x :: u16) :: u32) = unat x"
  by (simp add: unsigned_ucast_eq take_bit_nat_eq_self_iff order_less_le_trans [OF unsigned_less])

lemma unat_ucast_up_8_32 [simp]: "unat (ucast (x :: u8) :: u32) = unat x"
  by (simp add: unsigned_ucast_eq take_bit_nat_eq_self_iff order_less_le_trans [OF unsigned_less])

lemma unat_add_no_wrap:
  fixes a b :: "'a::len word"
  assumes "unat a + unat b < 2 ^ LENGTH('a)"
  shows "unat (a + b) = unat a + unat b"
  using assms by (simp add: unat_word_ariths)

lemma unat_mult_no_wrap:
  fixes a b :: "'a::len word"
  assumes "unat a * unat b < 2 ^ LENGTH('a)"
  shows "unat (a * b) = unat a * unat b"
  using assms by (simp add: unat_word_ariths)

lemma unat_sub_no_wrap:
  fixes a b :: "'a::len word"
  assumes "b \<le> a"
  shows "unat (a - b) = unat a - unat b"
  using assms by (rule unat_sub)

section \<open>Byte buffers\<close>

text \<open>\<open>byte_at\<close> reads a buffer; past the end it gives 0. Every C access modelled with it is in
  range for the buffers the callers pass, which the length lemmas of each component show.\<close>

definition byte_at :: "bytes \<Rightarrow> nat \<Rightarrow> u8" where
  "byte_at xs i = (if i < length xs then xs ! i else 0)"

definition get_le16 :: "bytes \<Rightarrow> nat \<Rightarrow> u16" where
  "get_le16 xs i = ucast (byte_at xs i) OR push_bit 8 (ucast (byte_at xs (i + 1)))"

definition get_le32 :: "bytes \<Rightarrow> nat \<Rightarrow> u32" where
  "get_le32 xs i = ucast (byte_at xs i) OR push_bit 8 (ucast (byte_at xs (i + 1)))
     OR push_bit 16 (ucast (byte_at xs (i + 2))) OR push_bit 24 (ucast (byte_at xs (i + 3)))"

definition get_le64 :: "bytes \<Rightarrow> nat \<Rightarrow> u64" where
  "get_le64 xs i = ucast (get_le32 xs i) OR push_bit 32 (ucast (get_le32 xs (i + 4)))"

definition le16 :: "u16 \<Rightarrow> bytes" where
  "le16 v = [ucast v, ucast (drop_bit 8 v)]"

definition le32 :: "u32 \<Rightarrow> bytes" where
  "le32 v = [ucast v, ucast (drop_bit 8 v), ucast (drop_bit 16 v), ucast (drop_bit 24 v)]"

definition le64 :: "u64 \<Rightarrow> bytes" where
  "le64 v = le32 (ucast v) @ le32 (ucast (drop_bit 32 v))"

text \<open>\<open>memcpy (xs + i, ys, length ys)\<close>.\<close>

definition put_bytes :: "bytes \<Rightarrow> nat \<Rightarrow> bytes \<Rightarrow> bytes" where
  "put_bytes xs i ys = take i xs @ ys @ drop (i + length ys) xs"

lemma length_le16 [simp, byte_simps]: "length (le16 v) = 2"
  by (simp add: le16_def)

lemma length_le32 [simp, byte_simps]: "length (le32 v) = 4"
  by (simp add: le32_def)

lemma length_le64 [simp, byte_simps]: "length (le64 v) = 8"
  by (simp add: le64_def)

lemma length_put_bytes [simp, byte_simps]:
  "i + length ys \<le> length xs \<Longrightarrow> length (put_bytes xs i ys) = length xs"
  by (simp add: put_bytes_def)

lemma byte_at_put_inside [byte_simps]:
  "i + length ys \<le> length xs \<Longrightarrow> i \<le> j \<Longrightarrow> j < i + length ys \<Longrightarrow>
     byte_at (put_bytes xs i ys) j = ys ! (j - i)"
  by (auto simp: byte_at_def put_bytes_def nth_append)

lemma byte_at_put_outside [byte_simps]:
  assumes "i + length ys \<le> length xs" and "j < i \<or> i + length ys \<le> j"
  shows "byte_at (put_bytes xs i ys) j = byte_at xs j"
  using assms by (auto simp: byte_at_def put_bytes_def nth_append min_def)

lemma le16_join [byte_simps]:
  "ucast (ucast v :: u8) OR push_bit 8 (ucast (ucast (drop_bit 8 v) :: u8)) = (v :: u16)"
  by (rule bit_word_eqI) (auto simp: bit_simps)

lemma le32_join [byte_simps]:
  "ucast (ucast v :: u8) OR push_bit 8 (ucast (ucast (drop_bit 8 v) :: u8))
     OR push_bit 16 (ucast (ucast (drop_bit 16 v) :: u8))
     OR push_bit 24 (ucast (ucast (drop_bit 24 v) :: u8)) = (v :: u32)"
proof (rule bit_word_eqI)
  fix n assume "n < LENGTH(32)"
  then consider "n < 8" | "8 \<le> n" "n < 16" | "16 \<le> n" "n < 24" | "24 \<le> n" "n < 32"
    by fastforce
  then show "bit (ucast (ucast v :: u8) OR push_bit 8 (ucast (ucast (drop_bit 8 v) :: u8))
      OR push_bit 16 (ucast (ucast (drop_bit 16 v) :: u8))
      OR push_bit 24 (ucast (ucast (drop_bit 24 v) :: u8)) :: u32) n = bit v n"
    by cases (auto simp: bit_simps)
qed

lemma get_le16_le16 [byte_simps]:
  "i + 2 \<le> length xs \<Longrightarrow> get_le16 (put_bytes xs i (le16 v)) i = v"
  using le16_join [of v] by (simp add: get_le16_def byte_at_put_inside le16_def)

lemma get_le32_le32 [byte_simps]:
  "i + 4 \<le> length xs \<Longrightarrow> get_le32 (put_bytes xs i (le32 v)) i = v"
  using le32_join [of v]
  by (simp add: get_le32_def byte_at_put_inside le32_def numeral_eq_Suc)

lemma get_le16_put_other [byte_simps]:
  assumes "i + length ys \<le> length xs" and "j + 2 \<le> i \<or> i + length ys \<le> j"
  shows "get_le16 (put_bytes xs i ys) j = get_le16 xs j"
  using assms by (auto simp: get_le16_def byte_at_put_outside)

lemma get_le32_put_other [byte_simps]:
  assumes "i + length ys \<le> length xs" and "j + 4 \<le> i \<or> i + length ys \<le> j"
  shows "get_le32 (put_bytes xs i ys) j = get_le32 xs j"
  using assms by (auto simp: get_le32_def byte_at_put_outside)

lemma get_le64_put_other [byte_simps]:
  assumes "i + length ys \<le> length xs" and "j + 8 \<le> i \<or> i + length ys \<le> j"
  shows "get_le64 (put_bytes xs i ys) j = get_le64 xs j"
  using assms by (auto simp: get_le64_def get_le32_put_other)

lemma put_bytes_append:
  assumes "i + length xs + length ys \<le> length buf"
  shows "put_bytes (put_bytes buf i xs) (i + length xs) ys = put_bytes buf i (xs @ ys)"
proof -
  have "take (i + length xs) (put_bytes buf i xs) = take i buf @ xs"
    using assms by (simp add: put_bytes_def)
  moreover have "drop (i + length xs + length ys) (put_bytes buf i xs) = drop (i + length (xs @ ys)) buf"
    using assms by (simp add: put_bytes_def ac_simps)
  ultimately show ?thesis by (simp add: put_bytes_def [of _ "i + length xs"] put_bytes_def [of buf i "xs @ ys"])
qed

text \<open>Fields of a struct laid out as a concatenation: step over the fields before, then read.\<close>

named_theorems layout_simps "reading a field of a concatenation"

lemma byte_at_skip [layout_simps]: "length xs \<le> i \<Longrightarrow> byte_at (xs @ ys) i = byte_at ys (i - length xs)"
  by (auto simp: byte_at_def nth_append)

lemma get_le16_skip [layout_simps]: "length xs \<le> i \<Longrightarrow> get_le16 (xs @ ys) i = get_le16 ys (i - length xs)"
  by (simp add: get_le16_def byte_at_skip Suc_diff_le)

lemma get_le32_skip [layout_simps]: "length xs \<le> i \<Longrightarrow> get_le32 (xs @ ys) i = get_le32 ys (i - length xs)"
  by (simp add: get_le32_def byte_at_skip Suc_diff_le)

lemma get_le64_skip [layout_simps]: "length xs \<le> i \<Longrightarrow> get_le64 (xs @ ys) i = get_le64 ys (i - length xs)"
  by (simp add: get_le64_def get_le32_skip)

lemma get_le16_here [layout_simps]: "get_le16 (le16 v @ ys) 0 = v"
  using le16_join [of v] by (simp add: get_le16_def byte_at_def le16_def)

lemma get_le32_here [layout_simps]: "get_le32 (le32 v @ ys) 0 = v"
  using le32_join [of v] by (simp add: get_le32_def byte_at_def le32_def numeral_eq_Suc)

lemma le64_join: "ucast (ucast v :: u32) OR push_bit 32 (ucast (ucast (drop_bit 32 v) :: u32)) = (v :: u64)"
  by (rule bit_word_eqI) (auto simp: bit_simps)

lemma get_le64_here [layout_simps]: "get_le64 (le64 v @ ys) 0 = v"
  using le64_join [of v] by (simp add: get_le64_def le64_def get_le32_here get_le32_skip)

lemma get_le32_end [layout_simps]: "get_le32 (le32 v) 0 = v"
  using get_le32_here [of v "[]"] by simp

lemma map_byte_at_here [layout_simps]: "length xs = n \<Longrightarrow> map (byte_at (xs @ ys)) [0 ..< n] = xs"
  by (rule nth_equalityI) (simp_all add: byte_at_def nth_append)

lemma put_bytes_skip:
  "length xs \<le> i \<Longrightarrow> put_bytes (xs @ ys) i zs = xs @ put_bytes ys (i - length xs) zs"
  by (simp add: put_bytes_def)

text \<open>The bytes of a field determine its value and the other way round.\<close>

lemma byte_of_join [simp]:
  fixes a b c d :: u8
  defines "v \<equiv> (ucast a OR push_bit 8 (ucast b) OR push_bit 16 (ucast c) OR push_bit 24 (ucast d) :: u32)"
  shows "ucast v = a" "ucast (drop_bit 8 v) = b" "ucast (drop_bit 16 v) = c" "ucast (drop_bit 24 v) = d"
  unfolding v_def by (rule bit_word_eqI; auto simp: bit_simps dest: bit_imp_le_length)+

lemma le32_get_le32: "i + 4 \<le> length xs \<Longrightarrow> le32 (get_le32 xs i) = take 4 (drop i xs)"
  unfolding le32_def get_le32_def byte_of_join
  by (rule nth_equalityI) (auto simp: byte_at_def less_Suc_eq numeral_eq_Suc)

lemma le64_get_le64:
  assumes "i + 8 \<le> length xs"
  shows "le64 (get_le64 xs i) = take 8 (drop i xs)"
proof -
  have "le64 (get_le64 xs i) = le32 (get_le32 xs i) @ le32 (get_le32 xs (i + 4))"
  proof -
    have "ucast (get_le64 xs i) = get_le32 xs i"
      unfolding get_le64_def by (rule bit_word_eqI) (auto simp: bit_simps)
    moreover have "ucast (drop_bit 32 (get_le64 xs i)) = get_le32 xs (i + 4)"
      unfolding get_le64_def by (rule bit_word_eqI) (auto simp: bit_simps dest: bit_imp_le_length)
    ultimately show ?thesis by (simp add: le64_def)
  qed
  also have "\<dots> = take 4 (drop i xs) @ take 4 (drop (i + 4) xs)"
    using assms by (simp add: le32_get_le32)
  also have "\<dots> = take (4 + 4) (drop i xs)" by (simp only: take_add drop_drop add.commute)
  finally show ?thesis by simp
qed

lemma put_bytes_Nil [simp]: "put_bytes buf i [] = buf"
  by (simp add: put_bytes_def)

lemma take_put_bytes:
  "i + length xs \<le> length buf \<Longrightarrow> take (length xs) (drop i (put_bytes buf i xs)) = xs"
  by (simp add: put_bytes_def)

section \<open>Effects\<close>

datatype 'a rc = Ok 'a | Err

type_synonym ('s, 'a) prog = "'s \<Rightarrow> ('a rc \<times> 's) option"

definition ret :: "'a \<Rightarrow> ('s, 'a) prog" where
  "ret a = (\<lambda>s. Some (Ok a, s))"

definition err :: "('s, 'a) prog" where
  "err = (\<lambda>s. Some (Err, s))"

definition no_return :: "('s, 'a) prog" where
  "no_return = (\<lambda>s. None)"

text \<open>\<open>bnd m f\<close> is \<open>if (m(&a) != 0) return -1; f(a)\<close>.\<close>

definition bnd :: "('s, 'a) prog \<Rightarrow> ('a \<Rightarrow> ('s, 'b) prog) \<Rightarrow> ('s, 'b) prog" where
  "bnd m f = (\<lambda>s. case m s of
       None \<Rightarrow> None
     | Some (r, s') \<Rightarrow> (case r of Ok a \<Rightarrow> f a s' | Err \<Rightarrow> Some (Err, s')))"

text \<open>\<open>attempt m\<close> hands the return code itself to the caller, for code that branches on it.\<close>

definition attempt :: "('s, 'a) prog \<Rightarrow> ('s, 'a rc) prog" where
  "attempt m = (\<lambda>s. case m s of None \<Rightarrow> None | Some (r, s') \<Rightarrow> Some (Ok r, s'))"

text \<open>Access to variables of the driver.\<close>

definition gets :: "('s \<Rightarrow> 'a) \<Rightarrow> ('s, 'a) prog" where
  "gets f = (\<lambda>s. Some (Ok (f s), s))"

definition modify :: "('s \<Rightarrow> 's) \<Rightarrow> ('s, unit) prog" where
  "modify f = (\<lambda>s. Some (Ok (), f s))"

text \<open>\<open>each f xs\<close> is a counted loop that returns \<open>-1\<close> from its first failing pass.\<close>

primrec each :: "('a \<Rightarrow> ('s, unit) prog) \<Rightarrow> 'a list \<Rightarrow> ('s, unit) prog" where
  "each f [] = ret ()"
| "each f (x # xs) = bnd (f x) (\<lambda>_. each f xs)"

text \<open>String literals of the C sources.\<close>

definition ascii :: "string \<Rightarrow> bytes" where
  "ascii = map of_char"

text \<open>What \<open>strlen\<close> and the string functions see of the bytes at a pointer.\<close>

definition cstr :: "bytes \<Rightarrow> bytes" where
  "cstr p = takeWhile (\<lambda>b. b \<noteq> 0) p"

lemma cstr_nonzero: "0 \<notin> set xs \<Longrightarrow> cstr xs = xs"
  by (simp add: cstr_def takeWhile_eq_all_conv) blast

text \<open>Results of \<open>int32_t\<close> arithmetic: two's complement.\<close>

definition s32 :: "int \<Rightarrow> int" where
  "s32 n = signed_take_bit 31 n"

lemma s32_id: "- 2147483648 \<le> n \<Longrightarrow> n < 2147483648 \<Longrightarrow> s32 n = n"
  by (simp add: s32_def signed_take_bit_int_eq_self_iff)

lemma s32_uint: "uint (x :: u32) < 2147483648 \<Longrightarrow> s32 (uint x) = uint x"
  by (rule s32_id) (use unsigned_greater_eq [of x, where ?'a = int] in linarith)+

lemma s32_range: "- 2147483648 \<le> s32 n \<and> s32 n < 2147483648"
  using signed_take_bit_int_less_exp [of 31 n] signed_take_bit_int_greater_eq_minus_exp [of 31 n]
  by (simp add: s32_def)

lemma s32_uint_cases:
  fixes x :: u32
  shows "s32 (uint x) = (if unat x < 2 ^ 31 then int (unat x) else int (unat x) - 2 ^ 32)"
proof (cases "unat x < 2147483648")
  case True
  then have "uint x < 2147483648" unfolding uint_nat by linarith
  from s32_uint [OF this] True show ?thesis by simp
next
  case False
  define n where "n = uint x"
  have n: "2147483648 \<le> n" "n < 4294967296"
    using False unat_u32_lt [of x] unfolding n_def uint_nat by linarith+
  have "(n + 2147483648) mod 4294967296 = (n - 2147483648 + 4294967296) mod 4294967296"
    by (rule arg_cong [where f = "\<lambda>k. k mod 4294967296"]) linarith
  also have "\<dots> = (n - 2147483648) mod 4294967296" by (rule mod_add_self2)
  also have "\<dots> = n - 2147483648" by (rule mod_pos_pos_trivial) (use n in linarith)+
  finally have m: "(n + 2147483648) mod 4294967296 = n - 2147483648" .
  have "s32 n = (n + 2 ^ 31) mod 2 ^ Suc 31 - 2 ^ 31"
    by (simp only: s32_def signed_take_bit_eq_take_bit_shift take_bit_eq_mod)
  also have "\<dots> = (n + 2147483648) mod 4294967296 - 2147483648" by simp
  finally have "s32 n = n - 4294967296" using m by linarith
  then show ?thesis using False unfolding n_def uint_nat by simp
qed

named_theorems prog_simps "evaluation of effectful code"

lemma ret_apply [prog_simps]: "ret a s = Some (Ok a, s)"
  by (simp add: ret_def)

lemma err_apply [prog_simps]: "err s = Some (Err, s)"
  by (simp add: err_def)

lemma no_return_apply [prog_simps]: "no_return s = None"
  by (simp add: no_return_def)

lemma gets_apply [prog_simps]: "gets f s = Some (Ok (f s), s)"
  by (simp add: gets_def)

lemma modify_apply [prog_simps]: "modify f s = Some (Ok (), f s)"
  by (simp add: modify_def)

lemma bnd_None [prog_simps]: "m s = None \<Longrightarrow> bnd m f s = None"
  by (simp add: bnd_def)

lemma bnd_Ok [prog_simps]: "m s = Some (Ok a, s') \<Longrightarrow> bnd m f s = f a s'"
  by (simp add: bnd_def)

lemma bnd_Err [prog_simps]: "m s = Some (Err, s') \<Longrightarrow> bnd m f s = Some (Err, s')"
  by (simp add: bnd_def)

lemma bnd_ret [simp]: "bnd (ret a) f = f a"
  by (simp add: bnd_def ret_def)

lemma bnd_err [simp]: "bnd err f = err"
  by (simp add: bnd_def err_def fun_eq_iff)

lemma bnd_assoc: "bnd (bnd m f) g = bnd m (\<lambda>a. bnd (f a) g)"
  by (simp add: bnd_def fun_eq_iff split: option.split rc.split)

lemma bnd_mono [partial_function_mono]:
  assumes "\<And>y t. mono_option (\<lambda>f. B f y t)"
  shows "mono_option (\<lambda>f. bnd m (B f) s)"
proof (cases "m s")
  case None
  then show ?thesis by (simp add: bnd_def option.const_mono)
next
  case (Some p)
  then show ?thesis
    using assms by (cases p; cases "fst p") (simp_all add: bnd_def option.const_mono)
qed

lemma let_mono [partial_function_mono]:
  "(\<And>x. mono_option (\<lambda>f. B f x s)) \<Longrightarrow> mono_option (\<lambda>f. Let a (B f) s)"
  by (simp add: Let_def)

lemma if_apply_mono [partial_function_mono]:
  "mono_option (\<lambda>f. A f s) \<Longrightarrow> mono_option (\<lambda>f. B f s) \<Longrightarrow>
     mono_option (\<lambda>f. (if b then A f else B f) s)"
  by (cases b) simp_all

lemma case_option_apply_mono [partial_function_mono]:
  "mono_option (\<lambda>f. A f s) \<Longrightarrow> (\<And>x. mono_option (\<lambda>f. B f x s)) \<Longrightarrow>
     mono_option (\<lambda>f. (case v of None \<Rightarrow> A f | Some x \<Rightarrow> B f x) s)"
  by (cases v) simp_all

lemma case_rc_apply_mono [partial_function_mono]:
  "(\<And>x. mono_option (\<lambda>f. A f x s)) \<Longrightarrow> mono_option (\<lambda>f. B f s) \<Longrightarrow>
     mono_option (\<lambda>f. (case v of Ok x \<Rightarrow> A f x | Err \<Rightarrow> B f) s)"
  by (cases v) simp_all

lemma case_sum_apply_mono [partial_function_mono]:
  "(\<And>x. mono_option (\<lambda>f. A f x s)) \<Longrightarrow> (\<And>x. mono_option (\<lambda>f. B f x s)) \<Longrightarrow>
     mono_option (\<lambda>f. (case v of Inl x \<Rightarrow> A f x | Inr x \<Rightarrow> B f x) s)"
  by (cases v) simp_all

lemma case_prod_apply_mono [partial_function_mono]:
  "(\<And>x y. mono_option (\<lambda>f. A f x y s)) \<Longrightarrow>
     mono_option (\<lambda>f. (case v of (x, y) \<Rightarrow> A f x y) s)"
  by (cases v) simp

section \<open>Forward execution\<close>

text \<open>
  \<open>runs P m v Q\<close>: started in a state satisfying \<open>P\<close>, \<open>m\<close> returns, succeeds with the value \<open>v\<close>
  and leaves a state satisfying \<open>Q\<close>. \<open>fails P m Q\<close>: it returns the error code and leaves \<open>Q\<close>.
  Both are total: not returning satisfies neither.
\<close>

definition runs :: "('s \<Rightarrow> bool) \<Rightarrow> ('s, 'a) prog \<Rightarrow> 'a \<Rightarrow> ('s \<Rightarrow> bool) \<Rightarrow> bool" where
  "runs P m v Q \<longleftrightarrow> (\<forall>s. P s \<longrightarrow> (\<exists>s'. m s = Some (Ok v, s') \<and> Q s'))"

definition fails :: "('s \<Rightarrow> bool) \<Rightarrow> ('s, 'a) prog \<Rightarrow> ('s \<Rightarrow> bool) \<Rightarrow> bool" where
  "fails P m Q \<longleftrightarrow> (\<forall>s. P s \<longrightarrow> (\<exists>s'. m s = Some (Err, s') \<and> Q s'))"

named_theorems run_intros "one rule per step of effectful code"

lemma runsI: "(\<And>s. P s \<Longrightarrow> \<exists>s'. m s = Some (Ok v, s') \<and> Q s') \<Longrightarrow> runs P m v Q"
  by (simp add: runs_def)

lemma runsE:
  assumes "runs P m v Q" and "P s"
  obtains s' where "m s = Some (Ok v, s')" and "Q s'"
  using assms by (auto simp: runs_def)

lemma failsE:
  assumes "fails P m Q" and "P s"
  obtains s' where "m s = Some (Err, s')" and "Q s'"
  using assms by (auto simp: fails_def)

lemma runs_ret [run_intros]: "runs P (ret v) v P"
  by (simp add: runs_def ret_def)

lemma fails_err [run_intros]: "fails P err P"
  by (simp add: fails_def err_def)

lemma runs_bnd [run_intros]:
  "runs P m v Q \<Longrightarrow> runs Q (f v) w R \<Longrightarrow> runs P (bnd m f) w R"
  by (fastforce simp: runs_def bnd_def)

lemma fails_bnd: "runs P m v Q \<Longrightarrow> fails Q (f v) R \<Longrightarrow> fails P (bnd m f) R"
  by (fastforce simp: runs_def fails_def bnd_def)

lemma fails_bnd_first: "fails P m R \<Longrightarrow> fails P (bnd m f) R"
  by (fastforce simp: fails_def bnd_def)

lemma runs_attempt: "runs P m v Q \<Longrightarrow> runs P (attempt m) (Ok v) Q"
  by (fastforce simp: runs_def attempt_def)

lemma runs_attempt_Err: "fails P m Q \<Longrightarrow> runs P (attempt m) Err Q"
  by (fastforce simp: runs_def fails_def attempt_def)

lemma runs_conseq:
  "runs P m v Q \<Longrightarrow> (\<And>s. P' s \<Longrightarrow> P s) \<Longrightarrow> (\<And>s. Q s \<Longrightarrow> Q' s) \<Longrightarrow> runs P' m v Q'"
  by (fastforce simp: runs_def)

end
