(* ===== verification/Disk.thy ===== *)
theory Disk
  imports Canboot_Prelude
begin

text \<open>
  The HAL block-device surface (\<open>hal/include/hal/disk.h\<close>, \<open>hal/disk/disk.c\<close>): the
  \<open>struct canboot_disk\<close> that a driver fills in, with its function pointers, and the registry
  that higher layers walk. The locale \<open>block_device\<close> is the contract the filesystems rely on.
\<close>

section \<open>struct canboot_disk\<close>

datatype canboot_disk_kind =
    CANBOOT_DISK_KIND_UNKNOWN
  | CANBOOT_DISK_KIND_VIRTIO_BLK
  | CANBOOT_DISK_KIND_AHCI
  | CANBOOT_DISK_KIND_CDROM

text \<open>\<open>driver_priv\<close> and everything it points to is the state \<open>'s\<close> the function pointers act on. A
  read returns the \<open>n_blocks * block_size\<close> bytes it stores into the caller's buffer.\<close>

record 's canboot_disk =
  dk_name :: bytes
  dk_kind :: canboot_disk_kind
  block_size :: u32
  block_count :: u64
  writable :: bool
  read_fn :: "(u64 \<Rightarrow> u32 \<Rightarrow> ('s, bytes) prog) option"
  write_fn :: "(u64 \<Rightarrow> u32 \<Rightarrow> bytes \<Rightarrow> ('s, unit) prog) option"

text \<open>\<open>d->read(d, lba, n, buf)\<close> and \<open>d->write(d, lba, n, buf)\<close>: a call through a null pointer does
  not return.\<close>

definition dread :: "'s canboot_disk \<Rightarrow> u64 \<Rightarrow> u32 \<Rightarrow> ('s, bytes) prog" where
  "dread d lba n = (case read_fn d of None \<Rightarrow> no_return | Some f \<Rightarrow> f lba n)"

definition dwrite :: "'s canboot_disk \<Rightarrow> u64 \<Rightarrow> u32 \<Rightarrow> bytes \<Rightarrow> ('s, unit) prog" where
  "dwrite d lba n buf = (case write_fn d of None \<Rightarrow> no_return | Some f \<Rightarrow> f lba n buf)"

section \<open>The registry\<close>

definition CANBOOT_DISK_MAX :: nat where
  "CANBOOT_DISK_MAX = 8"

text \<open>\<open>g_disks\<close> holds the first \<open>g_disk_count\<close> slots of the C array.\<close>

type_synonym 's disk_registry = "'s canboot_disk list"

definition canboot_disk_register ::
    "'s canboot_disk option \<Rightarrow> 's disk_registry \<Rightarrow> bool \<times> 's disk_registry" where
  "canboot_disk_register d reg =
     (case d of None \<Rightarrow> (False, reg)
      | Some d \<Rightarrow> if CANBOOT_DISK_MAX \<le> length reg then (False, reg) else (True, reg @ [d]))"

definition hal_disk_count :: "'s disk_registry \<Rightarrow> u32" where
  "hal_disk_count reg = of_nat (length reg)"

definition hal_disk_get :: "u32 \<Rightarrow> 's disk_registry \<Rightarrow> 's canboot_disk option" where
  "hal_disk_get idx reg = (if hal_disk_count reg \<le> idx then None else Some (reg ! unat idx))"

definition hal_disk_read :: "'s canboot_disk option \<Rightarrow> u64 \<Rightarrow> u32 \<Rightarrow> ('s, bytes) prog" where
  "hal_disk_read d lba n =
     (case d of None \<Rightarrow> err
      | Some d \<Rightarrow> (case read_fn d of None \<Rightarrow> err | Some f \<Rightarrow> f lba n))"

definition hal_disk_write ::
    "'s canboot_disk option \<Rightarrow> u64 \<Rightarrow> u32 \<Rightarrow> bytes \<Rightarrow> ('s, unit) prog" where
  "hal_disk_write d lba n buf =
     (case d of None \<Rightarrow> err
      | Some d \<Rightarrow> (case write_fn d of None \<Rightarrow> err
         | Some f \<Rightarrow> if \<not> writable d then err else f lba n buf))"

definition registry_ok :: "'s disk_registry \<Rightarrow> bool" where
  "registry_ok reg \<longleftrightarrow> length reg \<le> CANBOOT_DISK_MAX"

lemma register_keeps_registry_ok:
  "registry_ok reg \<Longrightarrow> registry_ok (snd (canboot_disk_register d reg))"
  by (auto simp: registry_ok_def canboot_disk_register_def split: option.split)

lemma unat_disk_count: "registry_ok reg \<Longrightarrow> unat (hal_disk_count reg) = length reg"
  by (simp add: registry_ok_def CANBOOT_DISK_MAX_def hal_disk_count_def unat_of_nat)

lemma hal_disk_get_nth:
  assumes "registry_ok reg" and "i < length reg"
  shows "hal_disk_get (of_nat i) reg = Some (reg ! i)"
proof -
  have i: "unat (of_nat i :: u32) = i"
    using assms by (simp add: registry_ok_def CANBOOT_DISK_MAX_def unat_of_nat)
  then have "\<not> hal_disk_count reg \<le> (of_nat i :: u32)"
    using assms unat_disk_count [OF assms(1)] by (simp add: word_le_nat_alt)
  with i show ?thesis by (simp add: hal_disk_get_def)
qed

text \<open>A registered disk is found at the index that was the count, and earlier indices keep
  their disks: drivers may hold indices across later registrations.\<close>

lemma register_get_new:
  assumes "registry_ok reg" and "canboot_disk_register (Some d) reg = (True, reg')"
  shows "hal_disk_get (hal_disk_count reg) reg' = Some d"
proof -
  from assms(2) have reg': "reg' = reg @ [d]" "\<not> CANBOOT_DISK_MAX \<le> length reg"
    by (auto simp: canboot_disk_register_def split: if_splits)
  then have "registry_ok reg'" by (simp add: registry_ok_def)
  from hal_disk_get_nth [OF this, of "length reg"] reg'(1) show ?thesis
    by (simp add: hal_disk_count_def)
qed

lemma register_get_old:
  assumes "registry_ok reg" and "canboot_disk_register x reg = (b, reg')"
    and "hal_disk_get i reg = Some d"
  shows "hal_disk_get i reg' = Some d"
proof -
  from assms(3) have i: "unat i < length reg" and d: "d = reg ! unat i"
    using unat_disk_count [OF assms(1)]
    by (auto simp: hal_disk_get_def word_le_nat_alt split: if_splits)
  have ok: "registry_ok reg'"
    using register_keeps_registry_ok [OF assms(1), of x] assms(2) by simp
  from assms(2) i have "unat i < length reg'" and "reg' ! unat i = reg ! unat i"
    by (auto simp: canboot_disk_register_def nth_append split: if_splits option.splits)
  with hal_disk_get_nth [OF ok, of "unat i"] d show ?thesis by simp
qed

section \<open>The contract of a block device\<close>

text \<open>
  \<open>blk s i\<close> is block \<open>i\<close> of the medium in driver state \<open>s\<close> and \<open>ok\<close> the driver's own invariant.
  A request of between 1 and \<open>max_req\<close> blocks that lies inside the medium succeeds: a read
  returns the blocks and leaves the medium alone, a write replaces exactly the blocks it names.
  Nothing is promised for other requests.
\<close>

definition blocks :: "(nat \<Rightarrow> bytes) \<Rightarrow> nat \<Rightarrow> nat \<Rightarrow> bytes" where
  "blocks B lba n = concat (map B [lba ..< lba + n])"

definition put_blocks :: "nat \<Rightarrow> (nat \<Rightarrow> bytes) \<Rightarrow> nat \<Rightarrow> nat \<Rightarrow> bytes \<Rightarrow> nat \<Rightarrow> bytes" where
  "put_blocks bs B lba n buf =
     (\<lambda>i. if lba \<le> i \<and> i < lba + n then take bs (drop ((i - lba) * bs) buf) else B i)"

locale block_device =
  fixes d :: "'s canboot_disk"
    and blk :: "'s \<Rightarrow> nat \<Rightarrow> bytes"
    and ok :: "'s \<Rightarrow> bool"
    and max_req :: nat
  assumes block_size_pos: "0 < unat (block_size d)"
    and max_req_pos: "0 < max_req"
    and length_blk: "ok s \<Longrightarrow> i < unat (block_count d) \<Longrightarrow> length (blk s i) = unat (block_size d)"
    and read_law: "0 < unat n \<Longrightarrow> unat n \<le> max_req \<Longrightarrow> unat lba + unat n \<le> unat (block_count d) \<Longrightarrow>
        runs (\<lambda>s. ok s \<and> blk s = B) (dread d lba n) (blocks B (unat lba) (unat n))
             (\<lambda>s. ok s \<and> blk s = B)"
    and write_law: "writable d \<Longrightarrow> 0 < unat n \<Longrightarrow> unat n \<le> max_req \<Longrightarrow>
        unat lba + unat n \<le> unat (block_count d) \<Longrightarrow>
        length buf = unat n * unat (block_size d) \<Longrightarrow>
        runs (\<lambda>s. ok s \<and> blk s = B) (dwrite d lba n buf) ()
             (\<lambda>s. ok s \<and> blk s = put_blocks (unat (block_size d)) B (unat lba) (unat n) buf)"

lemma length_blocks:
  "(\<And>i. lba \<le> i \<Longrightarrow> i < lba + n \<Longrightarrow> length (B i) = bs) \<Longrightarrow> length (blocks B lba n) = n * bs"
  by (induction n) (simp_all add: blocks_def)

lemma blocks_1 [simp]: "blocks B lba (Suc 0) = B lba"
  by (simp add: blocks_def)

lemma blocks_cong:
  "(\<And>i. lba \<le> i \<Longrightarrow> i < lba + n \<Longrightarrow> B i = B' i) \<Longrightarrow> blocks B lba n = blocks B' lba n"
  by (simp add: blocks_def) (metis (no_types, lifting) atLeastLessThan_iff map_cong set_upt)

lemma put_blocks_1 [simp]:
  "length buf = bs \<Longrightarrow> put_blocks bs B lba (Suc 0) buf = B(lba := buf)"
  by (auto simp: put_blocks_def fun_eq_iff)

lemma put_blocks_outside:
  "i < lba \<or> lba + n \<le> i \<Longrightarrow> put_blocks bs B lba n buf i = B i"
  by (auto simp: put_blocks_def)

text \<open>What was written is what is read back.\<close>

lemma concat_chunks:
  assumes "length buf = n * bs"
  shows "concat (map (\<lambda>i. take bs (drop (i * bs) buf)) [0 ..< n]) = buf"
  using assms
proof (induction n arbitrary: buf)
  case 0
  then show ?case by simp
next
  case (Suc n)
  let ?rest = "drop bs buf"
  have "concat (map (\<lambda>i. take bs (drop (i * bs) buf)) [0 ..< Suc n])
      = take bs buf @ concat (map (\<lambda>i. take bs (drop (i * bs) ?rest)) [0 ..< n])"
    by (simp add: upt_conv_Cons map_Suc_upt [symmetric] comp_def add.commute del: upt_Suc)
  also have "\<dots> = take bs buf @ ?rest"
    using Suc.IH [of ?rest] Suc.prems by (simp del: drop_drop)
  finally show ?case by simp
qed

lemma blocks_put_blocks:
  assumes "length buf = n * bs"
  shows "blocks (put_blocks bs B lba n buf) lba n = buf"
proof -
  have "map (put_blocks bs B lba n buf) [lba ..< lba + n]
      = map (\<lambda>i. take bs (drop (i * bs) buf)) [0 ..< n]"
    by (rule nth_equalityI) (simp_all add: put_blocks_def)
  then show ?thesis
    using concat_chunks [OF assms] by (simp add: blocks_def)
qed

lemma length_put_blocks:
  assumes "length buf = n * bs" and "length (B i) = bs"
  shows "length (put_blocks bs B lba n buf i) = bs"
proof (cases "lba \<le> i \<and> i < lba + n")
  case True
  then obtain k where k: "i = lba + k" "k < n" using le_Suc_ex by auto
  then have "Suc k * bs \<le> n * bs" by (intro mult_le_mono1) simp
  with assms(1) True k show ?thesis by (simp add: put_blocks_def)
next
  case False
  with assms(2) show ?thesis by (auto simp: put_blocks_def)
qed

lemma blocks_add: "blocks B lba (m + n) = blocks B lba m @ blocks B (lba + m) n"
  using upt_add_eq_append [of lba "lba + m" n] by (simp add: blocks_def add.assoc)

text \<open>A write done in two pieces.\<close>

lemma put_blocks_add:
  assumes "length buf = (m + n) * bs"
  shows "put_blocks bs (put_blocks bs B lba m (take (m * bs) buf)) (lba + m) n (drop (m * bs) buf)
    = put_blocks bs B lba (m + n) buf"
proof
  fix i
  consider "i < lba" | "lba \<le> i" "i < lba + m" | "lba + m \<le> i" "i < lba + m + n" | "lba + m + n \<le> i"
    by linarith
  then show "put_blocks bs (put_blocks bs B lba m (take (m * bs) buf)) (lba + m) n (drop (m * bs) buf) i
    = put_blocks bs B lba (m + n) buf i"
  proof cases
    case 2
    then have "Suc (i - lba) * bs \<le> m * bs" by (intro mult_le_mono1) linarith
    with 2 show ?thesis by (simp add: put_blocks_def drop_take min_def)
  next
    case 3
    then obtain k where "i = lba + m + k" using le_Suc_ex by blast
    with 3 show ?thesis by (simp add: put_blocks_def add_mult_distrib add.commute)
  qed (simp_all add: put_blocks_def)
qed

end
