(* ===== verification/Fat32.thy ===== *)
theory Fat32
  imports Disk
begin

text \<open>
  FAT32 (\<open>fs/fat32.c\<close>), function by function: the mounted volume, FAT entries, clusters, 8.3
  names, directory scans, the root-directory helpers, the path engine and mkfs.

  Loops over cluster chains are bounded only by the on-disk FAT, so they are partial functions:
  a chain that loops makes them not return. The static scratch buffers of the C file hold nothing
  across calls that a caller relies on; a read gives exactly the bytes the device delivers. C
  output parameters are part of the result. Where \<open>bytes_per_sector\<close> exceeds the device's block
  size the C code looks past the one block it read; the model reads zeros there, and the theorems
  are about volumes where the two sizes agree.
\<close>

section \<open>On-disk structures\<close>

definition DIR_ENTRY_SIZE :: nat where "DIR_ENTRY_SIZE = 32"
definition ATTR_LFN :: u8 where "ATTR_LFN = 0x0F"
definition ATTR_DIRECTORY :: u8 where "ATTR_DIRECTORY = 0x10"
definition ATTR_VOLUME_ID :: u8 where "ATTR_VOLUME_ID = 0x08"
definition EOC :: u32 where "EOC = 0x0FFFFFF8"
definition FAT32_MAX_CHAIN :: u32 where "FAT32_MAX_CHAIN = 256"

record fat_bpb =
  bpb_bytes_per_sector :: u16
  bpb_sectors_per_cluster :: u8
  bpb_reserved_sectors :: u16
  bpb_num_fats :: u8
  bpb_root_entries :: u16
  bpb_total_sectors_16 :: u16
  bpb_fat_sz_16 :: u16
  bpb_total_sectors_32 :: u32
  bpb_fat_sz_32 :: u32
  bpb_root_cluster :: u32

text \<open>The cast \<open>(struct fat_bpb *)buf\<close>, for the fields the code reads.\<close>

definition bpb_of :: "bytes \<Rightarrow> fat_bpb" where
  "bpb_of buf = \<lparr>
     bpb_bytes_per_sector = get_le16 buf 11,
     bpb_sectors_per_cluster = byte_at buf 13,
     bpb_reserved_sectors = get_le16 buf 14,
     bpb_num_fats = byte_at buf 16,
     bpb_root_entries = get_le16 buf 17,
     bpb_total_sectors_16 = get_le16 buf 19,
     bpb_fat_sz_16 = get_le16 buf 22,
     bpb_total_sectors_32 = get_le32 buf 32,
     bpb_fat_sz_32 = get_le32 buf 36,
     bpb_root_cluster = get_le32 buf 44 \<rparr>"

record fat_dir =
  de_name :: bytes
  de_attr :: u8
  de_nt_reserved :: u8
  de_ctime_tenth :: u8
  de_ctime :: u16
  de_cdate :: u16
  de_adate :: u16
  de_cluster_hi :: u16
  de_mtime :: u16
  de_mdate :: u16
  de_cluster_lo :: u16
  de_size :: u32

text \<open>\<open>(struct fat_dir *)(buf + i * DIR_ENTRY_SIZE)\<close>, and the 32 bytes an entry occupies.\<close>

definition dirent_at :: "bytes \<Rightarrow> nat \<Rightarrow> fat_dir" where
  "dirent_at buf i = (let o0 = i * DIR_ENTRY_SIZE in \<lparr>
     de_name = map (\<lambda>k. byte_at buf (o0 + k)) [0 ..< 11],
     de_attr = byte_at buf (o0 + 11),
     de_nt_reserved = byte_at buf (o0 + 12),
     de_ctime_tenth = byte_at buf (o0 + 13),
     de_ctime = get_le16 buf (o0 + 14),
     de_cdate = get_le16 buf (o0 + 16),
     de_adate = get_le16 buf (o0 + 18),
     de_cluster_hi = get_le16 buf (o0 + 20),
     de_mtime = get_le16 buf (o0 + 22),
     de_mdate = get_le16 buf (o0 + 24),
     de_cluster_lo = get_le16 buf (o0 + 26),
     de_size = get_le32 buf (o0 + 28) \<rparr>)"

definition dirent_bytes :: "fat_dir \<Rightarrow> bytes" where
  "dirent_bytes e = de_name e @ [de_attr e, de_nt_reserved e, de_ctime_tenth e]
     @ le16 (de_ctime e) @ le16 (de_cdate e) @ le16 (de_adate e) @ le16 (de_cluster_hi e)
     @ le16 (de_mtime e) @ le16 (de_mdate e) @ le16 (de_cluster_lo e) @ le32 (de_size e)"

definition name0 :: "fat_dir \<Rightarrow> u8" where
  "name0 e = byte_at (de_name e) 0"

section \<open>The mounted volume\<close>

record 's canboot_fat32 =
  disk :: "'s canboot_disk"
  bytes_per_sector :: u32
  sectors_per_cluster :: u32
  bytes_per_cluster :: u32
  reserved_sectors :: u32
  num_fats :: u32
  sectors_per_fat :: u32
  root_cluster :: u32
  fat_start_lba :: u64
  data_start_lba :: u64
  total_clusters :: u32

definition disk_read_sector :: "'s canboot_disk \<Rightarrow> u64 \<Rightarrow> ('s, bytes) prog" where
  "disk_read_sector d lba = dread d lba 1"

definition disk_write_sector :: "'s canboot_disk \<Rightarrow> u64 \<Rightarrow> bytes \<Rightarrow> ('s, unit) prog" where
  "disk_write_sector d lba buf = dwrite d lba 1 buf"

text \<open>A zero divisor (\<open>d->block_size\<close>, or the \<open>sectors_per_cluster\<close> byte read from the medium)
  is a divide fault.\<close>

definition canboot_fat32_open ::
    "'s canboot_disk option \<Rightarrow> ('s, 's canboot_fat32) prog" where
  "canboot_fat32_open dp = (case dp of None \<Rightarrow> err | Some d \<Rightarrow>
     if 4096 < block_size d then err else
     bnd (disk_read_sector d 0) (\<lambda>buf.
     let b = bpb_of buf in
     if bpb_bytes_per_sector b = 0 then err else
     if bpb_fat_sz_16 b \<noteq> 0 then err else
     if bpb_root_entries b \<noteq> 0 then err else
     if block_size d = 0 then no_return else
     let bps = ucast (bpb_bytes_per_sector b) :: u32;
         spc = ucast (bpb_sectors_per_cluster b) :: u32;
         rsv = ucast (bpb_reserved_sectors b) :: u32;
         nf = ucast (bpb_num_fats b) :: u32;
         spf = bpb_fat_sz_32 b;
         spb0 = bps div block_size d;
         spb = (if spb0 = 0 then 1 else spb0);
         fat_start = (ucast rsv :: u64) * ucast spb;
         data_start = fat_start + (ucast nf :: u64) * ucast spf * ucast spb;
         total = (if bpb_total_sectors_32 b \<noteq> 0 then bpb_total_sectors_32 b
                  else ucast (bpb_total_sectors_16 b));
         data_sectors = total - (rsv + nf * spf) in
     if spc = 0 then no_return else
     ret \<lparr> disk = d, bytes_per_sector = bps, sectors_per_cluster = spc,
           bytes_per_cluster = bps * spc, reserved_sectors = rsv, num_fats = nf,
           sectors_per_fat = spf, root_cluster = bpb_root_cluster b,
           fat_start_lba = fat_start, data_start_lba = data_start,
           total_clusters = data_sectors div spc \<rparr>))"

text \<open>\<open>spb\<close>: device blocks per volume sector, computed anew in each function.\<close>

definition fs_spb :: "'s canboot_fat32 \<Rightarrow> u32" where
  "fs_spb fs = (let spb = bytes_per_sector fs div block_size (disk fs) in
     if spb = 0 then 1 else spb)"

definition cluster_lba :: "'s canboot_fat32 \<Rightarrow> u32 \<Rightarrow> u64" where
  "cluster_lba fs cluster = data_start_lba fs
     + ucast (cluster - 2) * ucast (sectors_per_cluster fs) * ucast (fs_spb fs)"

definition read_fat_entry :: "'s canboot_fat32 \<Rightarrow> u32 \<Rightarrow> ('s, u32) prog" where
  "read_fat_entry fs cluster =
    (let fat_offset = cluster * 4;
         lba = fat_start_lba fs + ucast ((fat_offset div bytes_per_sector fs) * fs_spb fs) in
     bnd (disk_read_sector (disk fs) lba) (\<lambda>sect.
     ret (get_le32 sect (unat (fat_offset mod bytes_per_sector fs)) AND 0x0FFFFFFF)))"

text \<open>The loop over the copies of the FAT, from copy \<open>fat\<close> on.\<close>

partial_function (option) write_fat_copies ::
    "'s canboot_fat32 \<Rightarrow> u32 \<Rightarrow> u32 \<Rightarrow> u32 \<Rightarrow> ('s, unit) prog" where
  "write_fat_copies fs cluster v fat s =
    (if fat < num_fats fs then
      (let fat_offset = cluster * 4;
           lba = fat_start_lba fs + ucast fat * ucast (sectors_per_fat fs) * ucast (fs_spb fs)
                 + ucast ((fat_offset div bytes_per_sector fs) * fs_spb fs);
           o0 = unat (fat_offset mod bytes_per_sector fs) in
       bnd (disk_read_sector (disk fs) lba) (\<lambda>sect.
       let e = (get_le32 sect o0 AND 0xF0000000) OR (v AND 0x0FFFFFFF) in
       bnd (disk_write_sector (disk fs) lba (put_bytes sect o0 (le32 e))) (\<lambda>_.
       write_fat_copies fs cluster v (fat + 1))) s)
     else ret () s)"

definition write_fat_entry :: "'s canboot_fat32 \<Rightarrow> u32 \<Rightarrow> u32 \<Rightarrow> ('s, unit) prog" where
  "write_fat_entry fs cluster v = write_fat_copies fs cluster v 0"

definition read_cluster :: "'s canboot_fat32 \<Rightarrow> u32 \<Rightarrow> ('s, bytes) prog" where
  "read_cluster fs cluster =
     dread (disk fs) (cluster_lba fs cluster) (sectors_per_cluster fs * fs_spb fs)"

definition write_cluster :: "'s canboot_fat32 \<Rightarrow> u32 \<Rightarrow> bytes \<Rightarrow> ('s, unit) prog" where
  "write_cluster fs cluster buf =
     dwrite (disk fs) (cluster_lba fs cluster) (sectors_per_cluster fs * fs_spb fs) buf"

text \<open>\<open>fs->bytes_per_cluster / DIR_ENTRY_SIZE\<close>, and the test against the 8 KiB buffers.\<close>

definition dir_entries :: "'s canboot_fat32 \<Rightarrow> nat" where
  "dir_entries fs = unat (bytes_per_cluster fs) div DIR_ENTRY_SIZE"

definition cluster_too_big :: "'s canboot_fat32 \<Rightarrow> bool" where
  "cluster_too_big fs \<longleftrightarrow> 8192 < bytes_per_cluster fs"

section \<open>8.3 names\<close>

definition upcase :: "u8 \<Rightarrow> u8" where
  "upcase c = (if 0x61 \<le> c \<and> c \<le> 0x7A then c - 32 else c)"

definition pad :: "nat \<Rightarrow> bytes \<Rightarrow> bytes" where
  "pad n xs = xs @ replicate (n - length xs) 0x20"

text \<open>The first dot splits the name; each half is cut to its field, upper-cased and padded.\<close>

definition to_83 :: "bytes \<Rightarrow> bytes" where
  "to_83 name =
    (let base = takeWhile (\<lambda>c. c \<noteq> 0x2E) name;
         ext = drop (length base + 1) name in
     pad 8 (map upcase (take 8 base)) @ pad 3 (map upcase (take 3 ext)))"

definition name_from_83 :: "bytes \<Rightarrow> bytes" where
  "name_from_83 raw =
    (let base = takeWhile (\<lambda>c. c \<noteq> 0x20) (take 8 raw);
         ext = take 3 (drop 8 raw) in
     if list_ex (\<lambda>c. c \<noteq> 0x20) ext then base @ [0x2E] @ takeWhile (\<lambda>c. c \<noteq> 0x20) ext
     else base)"

definition entry_first_cluster :: "fat_dir \<Rightarrow> u32" where
  "entry_first_cluster e = push_bit 16 (ucast (de_cluster_hi e)) OR ucast (de_cluster_lo e)"

definition make_entry :: "bytes \<Rightarrow> u8 \<Rightarrow> u32 \<Rightarrow> u32 \<Rightarrow> fat_dir" where
  "make_entry name83 attr first_cluster sz = \<lparr>
     de_name = name83, de_attr = attr, de_nt_reserved = 0, de_ctime_tenth = 0,
     de_ctime = 0, de_cdate = 0, de_adate = 0,
     de_cluster_hi = ucast (drop_bit 16 first_cluster),
     de_mtime = 0, de_mdate = 0,
     de_cluster_lo = ucast (first_cluster AND 0xFFFF),
     de_size = sz \<rparr>"

text \<open>\<open>"."\<close> and \<open>".."\<close>.\<close>

definition is_dot_entry :: "fat_dir \<Rightarrow> bool" where
  "is_dot_entry e \<longleftrightarrow> byte_at (de_name e) 0 = 0x2E \<and>
     (byte_at (de_name e) 1 = 0x20 \<or>
      (byte_at (de_name e) 1 = 0x2E \<and> byte_at (de_name e) 2 = 0x20))"

section \<open>Directory scans\<close>

text \<open>The outcome of the loop over the entries of one cluster: a return from inside it with an
  index, the end-of-directory marker, or the end of the cluster.\<close>

datatype scan = Hit nat | End_Of_Dir | Next_Cluster

lemma case_scan_apply_mono [partial_function_mono]:
  "(\<And>i. mono_option (\<lambda>f. A f i s)) \<Longrightarrow> mono_option (\<lambda>f. B f s) \<Longrightarrow> mono_option (\<lambda>f. C f s) \<Longrightarrow>
     mono_option (\<lambda>f. (case v of Hit i \<Rightarrow> A f i | End_Of_Dir \<Rightarrow> B f | Next_Cluster \<Rightarrow> C f) s)"
  by (cases v) simp_all

text \<open>\<open>find_root_entry\<close>: files only.\<close>

primrec root_scan :: "bytes \<Rightarrow> bytes \<Rightarrow> nat list \<Rightarrow> scan" where
  "root_scan buf target [] = Next_Cluster"
| "root_scan buf target (i # is) =
    (let e = dirent_at buf i in
     if name0 e = 0 then End_Of_Dir
     else if name0 e = 0xE5 then root_scan buf target is
     else if de_attr e = ATTR_LFN then root_scan buf target is
     else if de_attr e AND (ATTR_VOLUME_ID OR ATTR_DIRECTORY) \<noteq> 0 then root_scan buf target is
     else if de_name e = target then Hit i
     else root_scan buf target is)"

text \<open>\<open>dir_find\<close>: files and directories.\<close>

primrec find_scan :: "bytes \<Rightarrow> bytes \<Rightarrow> nat list \<Rightarrow> scan" where
  "find_scan buf target [] = Next_Cluster"
| "find_scan buf target (i # is) =
    (let e = dirent_at buf i in
     if name0 e = 0 then End_Of_Dir
     else if name0 e = 0xE5 then find_scan buf target is
     else if de_attr e = ATTR_LFN then find_scan buf target is
     else if de_attr e AND ATTR_VOLUME_ID \<noteq> 0 then find_scan buf target is
     else if de_name e = target then Hit i
     else find_scan buf target is)"

text \<open>\<open>dir_alloc_slot\<close>: a never used or deleted entry.\<close>

primrec slot_scan :: "bytes \<Rightarrow> nat list \<Rightarrow> nat option" where
  "slot_scan buf [] = None"
| "slot_scan buf (i # is) =
    (let e = dirent_at buf i in
     if name0 e = 0 \<or> name0 e = 0xE5 then Some i else slot_scan buf is)"

text \<open>\<open>canboot_fat32_write_root_file\<close>: a free slot or an entry of the same name, whichever is
  first.\<close>

primrec root_slot_scan :: "bytes \<Rightarrow> bytes \<Rightarrow> nat list \<Rightarrow> nat option" where
  "root_slot_scan buf target [] = None"
| "root_slot_scan buf target (i # is) =
    (let e = dirent_at buf i in
     if name0 e = 0 \<or> name0 e = 0xE5 then Some i
     else if de_attr e = ATTR_LFN then root_slot_scan buf target is
     else if de_name e = target then Some i
     else root_slot_scan buf target is)"

text \<open>\<open>dir_is_empty\<close>: \<open>Hit\<close> is an entry other than the dot entries.\<close>

primrec empty_scan :: "bytes \<Rightarrow> nat list \<Rightarrow> scan" where
  "empty_scan buf [] = Next_Cluster"
| "empty_scan buf (i # is) =
    (let e = dirent_at buf i in
     if name0 e = 0 then End_Of_Dir
     else if name0 e = 0xE5 then empty_scan buf is
     else if de_attr e = ATTR_LFN then empty_scan buf is
     else if is_dot_entry e then empty_scan buf is
     else Hit i)"

section \<open>Root directory: lookup and read\<close>

partial_function (option) find_root_loop ::
    "'s canboot_fat32 \<Rightarrow> bytes \<Rightarrow> u32 \<Rightarrow> ('s, (fat_dir \<times> u64 \<times> u32) option) prog" where
  "find_root_loop fs target cluster s =
    (if cluster < 0x0FFFFFF8 then
       bnd (read_cluster fs cluster) (\<lambda>buf.
       case root_scan buf target [0 ..< dir_entries fs] of
         End_Of_Dir \<Rightarrow> ret None
       | Hit i \<Rightarrow>
           (let o0 = of_nat (i * DIR_ENTRY_SIZE) :: u32 in
            ret (Some (dirent_at buf i,
                   cluster_lba fs cluster + ucast ((o0 div bytes_per_sector fs) * fs_spb fs),
                   o0 mod bytes_per_sector fs)))
       | Next_Cluster \<Rightarrow>
           bnd (read_fat_entry fs cluster) (\<lambda>next. find_root_loop fs target next)) s
     else ret None s)"

definition find_root_entry ::
    "'s canboot_fat32 \<Rightarrow> bytes \<Rightarrow> ('s, (fat_dir \<times> u64 \<times> u32) option) prog" where
  "find_root_entry fs name =
     (if cluster_too_big fs then err else find_root_loop fs (to_83 name) (root_cluster fs))"

text \<open>The copy loop shared by \<open>canboot_fat32_read_root_file\<close> and \<open>canboot_fat32_read_path\<close>: the
  bytes copied so far and the caller's buffer.\<close>

partial_function (option) copy_chain ::
    "'s canboot_fat32 \<Rightarrow> u32 \<Rightarrow> u32 \<Rightarrow> u32 \<Rightarrow> bytes \<Rightarrow> ('s, u32 \<times> bytes) prog" where
  "copy_chain fs to_read cluster copied buf s =
    (if copied < to_read \<and> 2 \<le> cluster \<and> cluster < EOC then
       bnd (read_cluster fs cluster) (\<lambda>tmp.
       let chunk = (if to_read < copied + bytes_per_cluster fs then to_read - copied
                    else bytes_per_cluster fs);
           buf' = put_bytes buf (unat copied) (take (unat chunk) tmp) in
       bnd (read_fat_entry fs cluster) (\<lambda>next.
       copy_chain fs to_read next (copied + chunk) buf')) s
     else ret (copied, buf) s)"

definition canboot_fat32_read_root_file ::
    "'s canboot_fat32 \<Rightarrow> bytes \<Rightarrow> bytes \<Rightarrow> u32 \<Rightarrow> ('s, u32 \<times> u32 \<times> bytes) prog" where
  "canboot_fat32_read_root_file fs name buf buf_size =
     bnd (find_root_entry fs name) (\<lambda>r.
     case r of None \<Rightarrow> err | Some (entry, _, _) \<Rightarrow>
     let to_read = (if de_size entry < buf_size then de_size entry else buf_size) in
     if cluster_too_big fs then err else
     bnd (copy_chain fs to_read (entry_first_cluster entry) 0 buf) (\<lambda>(copied, buf').
     ret (copied, de_size entry, buf')))"

section \<open>Allocation\<close>

partial_function (option) find_free_loop :: "'s canboot_fat32 \<Rightarrow> u32 \<Rightarrow> ('s, u32) prog" where
  "find_free_loop fs c s =
    (if c < 2 + total_clusters fs then
       bnd (read_fat_entry fs c) (\<lambda>entry.
       if entry = 0 then ret c else find_free_loop fs (c + 1)) s
     else err s)"

definition find_free_cluster :: "'s canboot_fat32 \<Rightarrow> ('s, u32) prog" where
  "find_free_cluster fs = find_free_loop fs 2"

text \<open>The two loops of \<open>alloc_chain\<close> (and of \<open>canboot_fat32_write_root_file\<close>, whose end-of-chain
  mark \<open>0x0FFFFFFF\<close> is the same \<open>EOC | 0x07\<close>): reserve, then link in order.\<close>

primrec reserve_chain :: "'s canboot_fat32 \<Rightarrow> nat \<Rightarrow> u32 list \<Rightarrow> ('s, u32 list) prog" where
  "reserve_chain fs 0 chn = ret chn"
| "reserve_chain fs (Suc k) chn =
     bnd (find_free_cluster fs) (\<lambda>c.
     bnd (write_fat_entry fs c (EOC OR 0x07)) (\<lambda>_.
     reserve_chain fs k (chn @ [c])))"

primrec link_chain :: "'s canboot_fat32 \<Rightarrow> u32 list \<Rightarrow> ('s, unit) prog" where
  "link_chain fs [] = ret ()"
| "link_chain fs (c # cs) =
     bnd (write_fat_entry fs c (case cs of [] \<Rightarrow> EOC OR 0x07 | c' # _ \<Rightarrow> c')) (\<lambda>_.
     link_chain fs cs)"

definition alloc_chain :: "'s canboot_fat32 \<Rightarrow> u32 \<Rightarrow> ('s, u32 list) prog" where
  "alloc_chain fs n =
    (if n = 0 \<or> FAT32_MAX_CHAIN < n then err else
     bnd (reserve_chain fs (unat n) []) (\<lambda>chn.
     bnd (link_chain fs chn) (\<lambda>_. ret chn)))"

partial_function (option) free_chain :: "'s canboot_fat32 \<Rightarrow> u32 \<Rightarrow> ('s, unit) prog" where
  "free_chain fs cur s =
    (if 2 \<le> cur \<and> cur < EOC then
       bnd (read_fat_entry fs cur) (\<lambda>next.
       bnd (write_fat_entry fs cur 0) (\<lambda>_. free_chain fs next)) s
     else ret () s)"

text \<open>The loop that writes \<open>data\<close> into the clusters of the chain, the last one zero-padded.\<close>

primrec write_data :: "'s canboot_fat32 \<Rightarrow> u32 list \<Rightarrow> bytes \<Rightarrow> u32 \<Rightarrow> ('s, unit) prog" where
  "write_data fs [] src remaining = ret ()"
| "write_data fs (c # cs) src remaining =
    (let chunk = (if remaining < bytes_per_cluster fs then remaining else bytes_per_cluster fs);
         tmp = put_bytes (replicate (unat (bytes_per_cluster fs)) 0) 0 (take (unat chunk) src) in
     bnd (write_cluster fs c tmp) (\<lambda>_.
     write_data fs cs (drop (unat chunk) src) (remaining - chunk)))"

section \<open>Root directory: write, list, delete\<close>

partial_function (option) write_root_loop ::
    "'s canboot_fat32 \<Rightarrow> bytes \<Rightarrow> u32 \<Rightarrow> u32 \<Rightarrow> u32 \<Rightarrow> ('s, unit) prog" where
  "write_root_loop fs target first len cluster s =
    (if cluster < 0x0FFFFFF8 then
       bnd (read_cluster fs cluster) (\<lambda>dir_buf.
       case root_slot_scan dir_buf target [0 ..< dir_entries fs] of
         Some slot \<Rightarrow>
           write_cluster fs cluster (put_bytes dir_buf (slot * DIR_ENTRY_SIZE)
             (dirent_bytes (make_entry target 0x20 first len)))
       | None \<Rightarrow> bnd (read_fat_entry fs cluster) (\<lambda>next.
           write_root_loop fs target first len next)) s
     else err s)"

definition canboot_fat32_write_root_file ::
    "'s canboot_fat32 option \<Rightarrow> bytes \<Rightarrow> bytes \<Rightarrow> u32 \<Rightarrow> ('s, unit) prog" where
  "canboot_fat32_write_root_file fsp name data len = (case fsp of None \<Rightarrow> err | Some fs \<Rightarrow>
     if \<not> writable (disk fs) then err else
     let target = to_83 name;
         needed0 = (len + bytes_per_cluster fs - 1) div bytes_per_cluster fs;
         needed = (if needed0 = 0 then 1 else needed0) in
     if 8 < needed then err else
     bnd (reserve_chain fs (unat needed) []) (\<lambda>chn.
     bnd (link_chain fs chn) (\<lambda>_.
     if cluster_too_big fs then err else
     bnd (write_data fs chn data len) (\<lambda>_.
     write_root_loop fs target (hd chn) len (root_cluster fs)))))"

text \<open>A listing callback receives a name and a size (and, for \<open>list_path\<close>, whether it is a
  directory) with the caller's \<open>user\<close> data, and says whether to go on. \<open>Inl\<close> is a return from
  inside the loop with the number reported, \<open>Inr\<close> the number so far at the end of the cluster.\<close>

primrec list_root_scan ::
    "(bytes \<Rightarrow> u32 \<Rightarrow> 'u \<Rightarrow> bool \<times> 'u) \<Rightarrow> bytes \<Rightarrow> nat list \<Rightarrow> int \<Rightarrow> 'u \<Rightarrow> (int + int) \<times> 'u" where
  "list_root_scan cb buf [] reported user = (Inr reported, user)"
| "list_root_scan cb buf (i # is) reported user =
    (let e = dirent_at buf i in
     if name0 e = 0 then (Inl reported, user)
     else if name0 e = 0xE5 then list_root_scan cb buf is reported user
     else if de_attr e = ATTR_LFN then list_root_scan cb buf is reported user
     else if de_attr e AND (ATTR_VOLUME_ID OR ATTR_DIRECTORY) \<noteq> 0
       then list_root_scan cb buf is reported user
     else (case cb (name_from_83 (de_name e)) (de_size e) user of (go, user') \<Rightarrow>
       if \<not> go then (Inl (reported + 1), user')
       else list_root_scan cb buf is (reported + 1) user'))"

partial_function (option) list_root_loop ::
    "'s canboot_fat32 \<Rightarrow> (bytes \<Rightarrow> u32 \<Rightarrow> 'u \<Rightarrow> bool \<times> 'u) \<Rightarrow> u32 \<Rightarrow> int \<Rightarrow> 'u
       \<Rightarrow> ('s, int rc \<times> 'u) prog" where
  "list_root_loop fs cb cluster reported user s =
    (if cluster < 0x0FFFFFF8 then
       bnd (attempt (read_cluster fs cluster)) (\<lambda>r.
       case r of Err \<Rightarrow> ret (Err, user) | Ok buf \<Rightarrow>
       (case list_root_scan cb buf [0 ..< dir_entries fs] reported user of
          (Inl n, user') \<Rightarrow> ret (Ok n, user')
        | (Inr n, user') \<Rightarrow>
            bnd (attempt (read_fat_entry fs cluster)) (\<lambda>r2.
            case r2 of Err \<Rightarrow> ret (Err, user') | Ok next \<Rightarrow>
            list_root_loop fs cb next n user'))) s
     else ret (Ok reported, user) s)"

definition canboot_fat32_list_root ::
    "'s canboot_fat32 option \<Rightarrow> (bytes \<Rightarrow> u32 \<Rightarrow> 'u \<Rightarrow> bool \<times> 'u) option \<Rightarrow> 'u
       \<Rightarrow> ('s, int rc \<times> 'u) prog" where
  "canboot_fat32_list_root fsp cbp user = (case (fsp, cbp) of
       (Some fs, Some cb) \<Rightarrow>
         if cluster_too_big fs then ret (Err, user)
         else list_root_loop fs cb (root_cluster fs) 0 user
     | _ \<Rightarrow> ret (Err, user))"

partial_function (option) delete_root_loop ::
    "'s canboot_fat32 \<Rightarrow> bytes \<Rightarrow> u32 \<Rightarrow> ('s, unit) prog" where
  "delete_root_loop fs target cluster s =
    (if cluster < 0x0FFFFFF8 then
       bnd (read_cluster fs cluster) (\<lambda>buf.
       case root_scan buf target [0 ..< dir_entries fs] of
         End_Of_Dir \<Rightarrow> err
       | Hit i \<Rightarrow>
           bnd (free_chain fs (entry_first_cluster (dirent_at buf i))) (\<lambda>_.
           write_cluster fs cluster (buf[i * DIR_ENTRY_SIZE := 0xE5]))
       | Next_Cluster \<Rightarrow> bnd (read_fat_entry fs cluster) (\<lambda>next.
           delete_root_loop fs target next)) s
     else err s)"

definition canboot_fat32_delete_root_file ::
    "'s canboot_fat32 option \<Rightarrow> bytes option \<Rightarrow> ('s, unit) prog" where
  "canboot_fat32_delete_root_file fsp namep = (case (fsp, namep) of
       (Some fs, Some name) \<Rightarrow>
         if cluster_too_big fs then err
         else delete_root_loop fs (to_83 name) (root_cluster fs)
     | _ \<Rightarrow> err)"

end
