(* ===== verification/Fat32_Path.thy ===== *)
theory Fat32_Path
  imports Fat32
begin

text \<open>
  The subdirectory-aware path engine of \<open>fs/fat32.c\<close> and its mkfs. A directory is identified by its
  first cluster. \<open>dir_find\<close> returns \<open>1\<close>, \<open>0\<close> or \<open>-1\<close>: \<open>Ok (Some \<dots>)\<close>, \<open>Ok None\<close> and \<open>Err\<close> here.
  Callers that test only for \<open>1\<close>, and so treat a disk error like a miss, use \<open>attempt\<close>.
\<close>

section \<open>Directory primitives\<close>

partial_function (option) dir_find_loop ::
    "'s canboot_fat32 \<Rightarrow> bytes \<Rightarrow> u32 \<Rightarrow> ('s, (fat_dir \<times> u32 \<times> nat) option) prog" where
  "dir_find_loop fs target cluster s =
    (if 2 \<le> cluster \<and> cluster < EOC then
       bnd (read_cluster fs cluster) (\<lambda>buf.
       case find_scan buf target [0 ..< dir_entries fs] of
         End_Of_Dir \<Rightarrow> ret None
       | Hit i \<Rightarrow> ret (Some (dirent_at buf i, cluster, i))
       | Next_Cluster \<Rightarrow>
           bnd (read_fat_entry fs cluster) (\<lambda>next. dir_find_loop fs target next)) s
     else ret None s)"

definition dir_find ::
    "'s canboot_fat32 \<Rightarrow> u32 \<Rightarrow> bytes \<Rightarrow> ('s, (fat_dir \<times> u32 \<times> nat) option) prog" where
  "dir_find fs dir_cluster target =
     (if cluster_too_big fs then err else dir_find_loop fs target dir_cluster)"

text \<open>The walk of \<open>dir_alloc_slot\<close>: a free slot, or the last cluster of the directory.\<close>

partial_function (option) slot_loop ::
    "'s canboot_fat32 \<Rightarrow> u32 \<Rightarrow> u32 \<Rightarrow> ('s, (u32 \<times> nat) + u32) prog" where
  "slot_loop fs cluster lst s =
    (if 2 \<le> cluster \<and> cluster < EOC then
       bnd (read_cluster fs cluster) (\<lambda>buf.
       case slot_scan buf [0 ..< dir_entries fs] of
         Some i \<Rightarrow> ret (Inl (cluster, i))
       | None \<Rightarrow> bnd (read_fat_entry fs cluster) (\<lambda>next. slot_loop fs next cluster)) s
     else ret (Inr lst) s)"

definition dir_alloc_slot :: "'s canboot_fat32 \<Rightarrow> u32 \<Rightarrow> ('s, u32 \<times> nat) prog" where
  "dir_alloc_slot fs dir_cluster =
    (if cluster_too_big fs then err else
     bnd (slot_loop fs dir_cluster dir_cluster) (\<lambda>r.
     case r of Inl slot \<Rightarrow> ret slot
     | Inr lst \<Rightarrow>
         bnd (find_free_cluster fs) (\<lambda>nc.
         bnd (write_fat_entry fs nc (EOC OR 0x07)) (\<lambda>_.
         bnd (write_fat_entry fs lst nc) (\<lambda>_.
         bnd (write_cluster fs nc (replicate (unat (bytes_per_cluster fs)) 0)) (\<lambda>_.
         ret (nc, 0)))))))"

definition dir_write_entry :: "'s canboot_fat32 \<Rightarrow> u32 \<Rightarrow> nat \<Rightarrow> fat_dir \<Rightarrow> ('s, unit) prog" where
  "dir_write_entry fs cluster index e =
    (if cluster_too_big fs then err else
     bnd (read_cluster fs cluster) (\<lambda>buf.
     write_cluster fs cluster (put_bytes buf (index * DIR_ENTRY_SIZE) (dirent_bytes e))))"

definition dir_mark_deleted :: "'s canboot_fat32 \<Rightarrow> u32 \<Rightarrow> nat \<Rightarrow> ('s, unit) prog" where
  "dir_mark_deleted fs cluster index =
    (if cluster_too_big fs then err else
     bnd (read_cluster fs cluster) (\<lambda>buf.
     write_cluster fs cluster (buf[index * DIR_ENTRY_SIZE := 0xE5])))"

partial_function (option) dir_empty_loop :: "'s canboot_fat32 \<Rightarrow> u32 \<Rightarrow> ('s, bool) prog" where
  "dir_empty_loop fs cluster s =
    (if 2 \<le> cluster \<and> cluster < EOC then
       bnd (read_cluster fs cluster) (\<lambda>buf.
       case empty_scan buf [0 ..< dir_entries fs] of
         End_Of_Dir \<Rightarrow> ret True
       | Hit i \<Rightarrow> ret False
       | Next_Cluster \<Rightarrow>
           bnd (read_fat_entry fs cluster) (\<lambda>next. dir_empty_loop fs next)) s
     else ret True s)"

definition dir_is_empty :: "'s canboot_fat32 \<Rightarrow> u32 \<Rightarrow> ('s, bool) prog" where
  "dir_is_empty fs dir_cluster =
     (if cluster_too_big fs then err else dir_empty_loop fs dir_cluster)"

section \<open>Paths\<close>

text \<open>\<open>while (len > 1 && path[len - 1] == '/') len--\<close>\<close>

fun trim_len :: "bytes \<Rightarrow> nat \<Rightarrow> nat" where
  "trim_len path len =
     (if 1 < len \<and> path ! (len - 1) = 0x2F then trim_len path (len - 1) else len)"

text \<open>The index of the last slash.\<close>

primrec last_slash :: "bytes \<Rightarrow> nat \<Rightarrow> nat option \<Rightarrow> nat option" where
  "last_slash [] i slash = slash"
| "last_slash (c # cs) i slash = last_slash cs (i + 1) (if c = 0x2F then Some i else slash)"

definition split_last :: "bytes \<Rightarrow> nat \<Rightarrow> nat \<Rightarrow> (bytes \<times> bytes) option" where
  "split_last path pcap lcap =
    (let len = trim_len path (length path) in
     case last_slash (take len path) 0 None of
       None \<Rightarrow>
         if pcap < 2 \<or> lcap < len + 1 \<or> len = 0 then None
         else Some ([0x2F], take len path)
     | Some slash \<Rightarrow>
         let llen = len - slash - 1;
             leaf = take llen (drop (slash + 1) path) in
         if llen = 0 \<or> lcap < llen + 1 then None
         else if slash = 0 then (if pcap < 2 then None else Some ([0x2F], leaf))
         else if pcap < slash + 1 then None
         else Some (take slash path, leaf))"

text \<open>The components \<open>resolve_dir\<close> walks: runs of at most 15 characters between slashes.\<close>

function path_comps :: "bytes \<Rightarrow> bytes list" where
  "path_comps p =
    (case dropWhile (\<lambda>c. c = 0x2F) p of
       [] \<Rightarrow> []
     | c # q \<Rightarrow>
         let cn = takeWhile (\<lambda>c. c \<noteq> 0x2F) (take 15 (c # q)) in
         cn # path_comps (drop (length cn) (c # q)))"
  by pat_completeness auto
termination
proof (relation "measure length")
  fix p c q cn
  assume q: "dropWhile (\<lambda>c. c = 0x2F) p = c # q"
    and cn: "cn = takeWhile (\<lambda>c. c \<noteq> 0x2F) (take 15 (c # q))"
  from q have "c \<noteq> 0x2F" by (metis (mono_tags) hd_dropWhile list.distinct(1) list.sel(1))
  then have "0 < length cn" using cn by simp
  then have "length (drop (length cn) (c # q)) < length (c # q)" by simp
  also have "length (c # q) \<le> length p" using q length_dropWhile_le by metis
  finally show "(drop (length cn) (c # q), p) \<in> measure length" by simp
qed simp

primrec resolve_comps :: "'s canboot_fat32 \<Rightarrow> u32 \<Rightarrow> bytes list \<Rightarrow> ('s, u32) prog" where
  "resolve_comps fs cluster [] = ret cluster"
| "resolve_comps fs cluster (cn # comps) =
     bnd (dir_find fs cluster (to_83 cn)) (\<lambda>r.
     case r of None \<Rightarrow> err
     | Some (e, _, _) \<Rightarrow>
         if de_attr e AND ATTR_DIRECTORY = 0 then err
         else (let fc = entry_first_cluster e in
               resolve_comps fs (if fc = 0 then root_cluster fs else fc) comps))"

definition resolve_dir :: "'s canboot_fat32 \<Rightarrow> bytes \<Rightarrow> ('s, u32) prog" where
  "resolve_dir fs path = resolve_comps fs (root_cluster fs) (path_comps path)"

definition resolve_entry ::
    "'s canboot_fat32 \<Rightarrow> bytes \<Rightarrow> ('s, (fat_dir \<times> u32 \<times> nat) option) prog" where
  "resolve_entry fs path = (case split_last path 256 16 of None \<Rightarrow> err
     | Some (parent, leaf) \<Rightarrow>
         bnd (resolve_dir fs parent) (\<lambda>pc. dir_find fs pc (to_83 leaf)))"

section \<open>The path API\<close>

text \<open>Returns the number of bytes copied, \<open>*out_size\<close> and the caller's buffer.\<close>

definition canboot_fat32_read_path ::
    "'s canboot_fat32 option \<Rightarrow> bytes option \<Rightarrow> bytes \<Rightarrow> u32 \<Rightarrow> ('s, u32 \<times> u32 \<times> bytes) prog" where
  "canboot_fat32_read_path fsp pathp buf buf_size = (case (fsp, pathp) of
       (Some fs, Some path) \<Rightarrow>
         bnd (resolve_entry fs path) (\<lambda>r.
         case r of None \<Rightarrow> err | Some (e, _, _) \<Rightarrow>
         if de_attr e AND ATTR_DIRECTORY \<noteq> 0 then err else
         let to_read = (if de_size e < buf_size then de_size e else buf_size) in
         if cluster_too_big fs then err else
         bnd (copy_chain fs to_read (entry_first_cluster e) 0 buf) (\<lambda>(copied, buf').
         ret (copied, de_size e, buf')))
     | _ \<Rightarrow> err)"

text \<open>The clusters of a file of \<open>len\<close> bytes: none when it is empty.\<close>

definition store_data :: "'s canboot_fat32 \<Rightarrow> bytes \<Rightarrow> u32 \<Rightarrow> ('s, u32) prog" where
  "store_data fs data len =
    (if 0 < len then
       let need = (len + bytes_per_cluster fs - 1) div bytes_per_cluster fs in
       bnd (alloc_chain fs need) (\<lambda>chn.
       if cluster_too_big fs then err else
       bnd (write_data fs chn data len) (\<lambda>_. ret (hd chn)))
     else ret 0)"

definition canboot_fat32_write_path ::
    "'s canboot_fat32 option \<Rightarrow> bytes option \<Rightarrow> bytes \<Rightarrow> u32 \<Rightarrow> ('s, unit) prog" where
  "canboot_fat32_write_path fsp pathp data len = (case (fsp, pathp) of
       (Some fs, Some path) \<Rightarrow>
         if \<not> writable (disk fs) then err else
         (case split_last path 256 16 of None \<Rightarrow> err
          | Some (parent, leaf) \<Rightarrow>
         bnd (resolve_dir fs parent) (\<lambda>pc.
         let t = to_83 leaf in
         bnd (dir_find fs pc t) (\<lambda>found.
         bnd (case found of
                Some (existing, ec, ei) \<Rightarrow>
                  if de_attr existing AND ATTR_DIRECTORY \<noteq> 0 then err
                  else bnd (free_chain fs (entry_first_cluster existing)) (\<lambda>_. ret (ec, ei))
              | None \<Rightarrow> dir_alloc_slot fs pc) (\<lambda>(ec, ei).
         bnd (store_data fs data len) (\<lambda>first.
         dir_write_entry fs ec ei (make_entry t 0x20 first len))))))
     | _ \<Rightarrow> err)"

definition canboot_fat32_unlink_path ::
    "'s canboot_fat32 option \<Rightarrow> bytes option \<Rightarrow> ('s, unit) prog" where
  "canboot_fat32_unlink_path fsp pathp = (case (fsp, pathp) of
       (Some fs, Some path) \<Rightarrow>
         if \<not> writable (disk fs) then err else
         bnd (resolve_entry fs path) (\<lambda>r.
         case r of None \<Rightarrow> err | Some (e, ec, ei) \<Rightarrow>
         if de_attr e AND ATTR_DIRECTORY \<noteq> 0 then err else
         bnd (free_chain fs (entry_first_cluster e)) (\<lambda>_.
         dir_mark_deleted fs ec ei))
     | _ \<Rightarrow> err)"

definition dot_name :: bytes where
  "dot_name = 0x2E # replicate 10 0x20"

definition dotdot_name :: bytes where
  "dotdot_name = 0x2E # 0x2E # replicate 9 0x20"

text \<open>The first cluster of a fresh directory \<open>dc\<close> with parent \<open>pc\<close>.\<close>

definition new_dir_cluster :: "'s canboot_fat32 \<Rightarrow> u32 \<Rightarrow> u32 \<Rightarrow> bytes" where
  "new_dir_cluster fs dc pc =
     put_bytes
       (put_bytes (replicate (unat (bytes_per_cluster fs)) 0) 0
          (dirent_bytes (make_entry dot_name ATTR_DIRECTORY dc 0)))
       DIR_ENTRY_SIZE
       (dirent_bytes (make_entry dotdot_name ATTR_DIRECTORY
          (if pc = root_cluster fs then 0 else pc) 0))"

text \<open>\<open>dir_find(\<dots>) == 1\<close>\<close>

definition dir_has :: "'s canboot_fat32 \<Rightarrow> u32 \<Rightarrow> bytes \<Rightarrow> ('s, bool) prog" where
  "dir_has fs dir_cluster target =
     bnd (attempt (dir_find fs dir_cluster target)) (\<lambda>r.
     ret (case r of Ok (Some _) \<Rightarrow> True | _ \<Rightarrow> False))"

definition canboot_fat32_mkdir ::
    "'s canboot_fat32 option \<Rightarrow> bytes option \<Rightarrow> ('s, unit) prog" where
  "canboot_fat32_mkdir fsp pathp = (case (fsp, pathp) of
       (Some fs, Some path) \<Rightarrow>
         if \<not> writable (disk fs) then err else
         (case split_last path 256 16 of None \<Rightarrow> err
          | Some (parent, leaf) \<Rightarrow>
         bnd (resolve_dir fs parent) (\<lambda>pc.
         let t = to_83 leaf in
         bnd (dir_has fs pc t) (\<lambda>exists.
         if exists then err else
         bnd (find_free_cluster fs) (\<lambda>dc.
         bnd (write_fat_entry fs dc (EOC OR 0x07)) (\<lambda>_.
         if cluster_too_big fs then err else
         bnd (write_cluster fs dc (new_dir_cluster fs dc pc)) (\<lambda>_.
         bnd (dir_alloc_slot fs pc) (\<lambda>(ec, ei).
         dir_write_entry fs ec ei (make_entry t ATTR_DIRECTORY dc 0))))))))
     | _ \<Rightarrow> err)"

definition canboot_fat32_rmdir ::
    "'s canboot_fat32 option \<Rightarrow> bytes option \<Rightarrow> ('s, unit) prog" where
  "canboot_fat32_rmdir fsp pathp = (case (fsp, pathp) of
       (Some fs, Some path) \<Rightarrow>
         if \<not> writable (disk fs) then err else
         bnd (resolve_entry fs path) (\<lambda>r.
         case r of None \<Rightarrow> err | Some (e, ec, ei) \<Rightarrow>
         if de_attr e AND ATTR_DIRECTORY = 0 then err else
         let dc = entry_first_cluster e in
         bnd (dir_is_empty fs dc) (\<lambda>empty.
         if \<not> empty then err else
         bnd (free_chain fs dc) (\<lambda>_.
         dir_mark_deleted fs ec ei)))
     | _ \<Rightarrow> err)"

text \<open>Repointing the \<open>..\<close> entry of a moved directory \<open>dc\<close>.\<close>

definition repoint_dotdot :: "'s canboot_fat32 \<Rightarrow> u32 \<Rightarrow> u32 \<Rightarrow> ('s, unit) prog" where
  "repoint_dotdot fs dc npc =
     bnd (attempt (dir_find fs dc dotdot_name)) (\<lambda>r.
     case r of
       Ok (Some (dd, ddc, ddi)) \<Rightarrow>
         (let target = (if npc = root_cluster fs then 0 else npc) in
          dir_write_entry fs ddc ddi
            (dd\<lparr> de_cluster_hi := ucast (drop_bit 16 target),
                 de_cluster_lo := ucast (target AND 0xFFFF) \<rparr>))
     | _ \<Rightarrow> ret ())"

definition canboot_fat32_rename ::
    "'s canboot_fat32 option \<Rightarrow> bytes option \<Rightarrow> bytes option \<Rightarrow> ('s, unit) prog" where
  "canboot_fat32_rename fsp oldpp newpp = (case (fsp, oldpp, newpp) of
       (Some fs, Some oldp, Some newp) \<Rightarrow>
         if \<not> writable (disk fs) then err else
         bnd (resolve_entry fs oldp) (\<lambda>r.
         case r of None \<Rightarrow> err | Some (e, oc, oi) \<Rightarrow>
         (case split_last newp 256 16 of None \<Rightarrow> err
          | Some (parent, leaf) \<Rightarrow>
         bnd (resolve_dir fs parent) (\<lambda>npc.
         let nt = to_83 leaf in
         bnd (dir_has fs npc nt) (\<lambda>exists.
         if exists then err else
         bnd (dir_alloc_slot fs npc) (\<lambda>(ec, ei).
         bnd (dir_write_entry fs ec ei (e\<lparr> de_name := nt \<rparr>)) (\<lambda>_.
         bnd (if de_attr e AND ATTR_DIRECTORY \<noteq> 0 \<and> npc \<noteq> oc
              then repoint_dotdot fs (entry_first_cluster e) npc else ret ()) (\<lambda>_.
         dir_mark_deleted fs oc oi)))))))
     | _ \<Rightarrow> err)"

primrec list_scan ::
    "(bytes \<Rightarrow> u32 \<Rightarrow> bool \<Rightarrow> 'u \<Rightarrow> bool \<times> 'u) \<Rightarrow> bytes \<Rightarrow> nat list \<Rightarrow> int \<Rightarrow> 'u
       \<Rightarrow> (int + int) \<times> 'u" where
  "list_scan cb buf [] reported user = (Inr reported, user)"
| "list_scan cb buf (i # is) reported user =
    (let e = dirent_at buf i in
     if name0 e = 0 then (Inl reported, user)
     else if name0 e = 0xE5 then list_scan cb buf is reported user
     else if de_attr e = ATTR_LFN then list_scan cb buf is reported user
     else if de_attr e AND ATTR_VOLUME_ID \<noteq> 0 then list_scan cb buf is reported user
     else if is_dot_entry e then list_scan cb buf is reported user
     else (case cb (name_from_83 (de_name e)) (de_size e) (de_attr e AND ATTR_DIRECTORY \<noteq> 0) user
       of (go, user') \<Rightarrow>
         if \<not> go then (Inl (reported + 1), user')
         else list_scan cb buf is (reported + 1) user'))"

partial_function (option) list_loop ::
    "'s canboot_fat32 \<Rightarrow> (bytes \<Rightarrow> u32 \<Rightarrow> bool \<Rightarrow> 'u \<Rightarrow> bool \<times> 'u) \<Rightarrow> u32 \<Rightarrow> int \<Rightarrow> 'u
       \<Rightarrow> ('s, int rc \<times> 'u) prog" where
  "list_loop fs cb cluster reported user s =
    (if 2 \<le> cluster \<and> cluster < EOC then
       bnd (attempt (read_cluster fs cluster)) (\<lambda>r.
       case r of Err \<Rightarrow> ret (Err, user) | Ok buf \<Rightarrow>
       (case list_scan cb buf [0 ..< dir_entries fs] reported user of
          (Inl n, user') \<Rightarrow> ret (Ok n, user')
        | (Inr n, user') \<Rightarrow>
            bnd (attempt (read_fat_entry fs cluster)) (\<lambda>r2.
            case r2 of Err \<Rightarrow> ret (Err, user') | Ok next \<Rightarrow>
            list_loop fs cb next n user'))) s
     else ret (Ok reported, user) s)"

definition canboot_fat32_list_path ::
    "'s canboot_fat32 option \<Rightarrow> bytes option \<Rightarrow> (bytes \<Rightarrow> u32 \<Rightarrow> bool \<Rightarrow> 'u \<Rightarrow> bool \<times> 'u) option \<Rightarrow> 'u
       \<Rightarrow> ('s, int rc \<times> 'u) prog" where
  "canboot_fat32_list_path fsp pathp cbp user = (case (fsp, pathp, cbp) of
       (Some fs, Some path, Some cb) \<Rightarrow>
         bnd (attempt (resolve_dir fs path)) (\<lambda>r.
         case r of Err \<Rightarrow> ret (Err, user) | Ok cluster \<Rightarrow>
         if cluster_too_big fs then ret (Err, user)
         else list_loop fs cb cluster 0 user)
     | _ \<Rightarrow> ret (Err, user))"

section \<open>mkfs\<close>

definition pick_spc :: "u64 \<Rightarrow> u32" where
  "pick_spc size_lba =
    (if size_lba < 16384 then 0
     else if size_lba < 532480 then 1
     else if size_lba < 16777216 then 8
     else if size_lba < 33554432 then 16
     else if size_lba < 67108864 then 32
     else 64)"

text \<open>The loop that sizes the FAT, with \<open>iter\<close> passes left.\<close>

definition fat_need :: "u64 \<Rightarrow> u32 \<Rightarrow> u32 \<Rightarrow> u32" where
  "fat_need size_lba spc fat_sectors =
    (let avail = size_lba - 32 - ucast (2 * fat_sectors);
         clusters = avail div ucast spc in
     ucast ((clusters + 128 - 1) div 128))"

primrec size_fat :: "u64 \<Rightarrow> u32 \<Rightarrow> nat \<Rightarrow> u32 \<Rightarrow> u32" where
  "size_fat size_lba spc 0 fat_sectors = fat_sectors"
| "size_fat size_lba spc (Suc iter) fat_sectors =
    (let need = fat_need size_lba spc fat_sectors in
     if need \<le> fat_sectors then fat_sectors else size_fat size_lba spc iter need)"

definition label_pad :: "bytes option \<Rightarrow> bytes" where
  "label_pad label_or_null = (case label_or_null of
       Some l \<Rightarrow> pad 11 (map upcase (take 11 l))
     | None \<Rightarrow> ascii ''CANBOOT    '')"

definition format_bpb :: "u64 \<Rightarrow> u64 \<Rightarrow> u32 \<Rightarrow> u32 \<Rightarrow> bytes option \<Rightarrow> bytes" where
  "format_bpb start_lba size_lba spc fat_sectors label_or_null =
     [0xEB, 0x58, 0x90] @ ascii ''MSWIN4.1''
     @ le16 512 @ [ucast spc] @ le16 32 @ [2] @ le16 0 @ le16 0 @ [0xF8] @ le16 0
     @ le16 63 @ le16 255 @ le32 (ucast start_lba)
     @ le32 (if 0xFFFFFFFF < size_lba then 0 else ucast size_lba)
     @ le32 fat_sectors @ le16 0 @ le16 0 @ le32 2 @ le16 1 @ le16 6 @ replicate 12 0
     @ [0x80, 0, 0x29] @ le32 0xCA17B007 @ label_pad label_or_null @ ascii ''FAT32   ''
     @ replicate 420 0 @ [0x55, 0xAA]"

definition format_fsinfo :: "u32 \<Rightarrow> bytes" where
  "format_fsinfo clusters =
     le32 0x41615252 @ replicate 480 0 @ le32 0x61417272 @ le32 (clusters - 1) @ le32 3
     @ replicate 14 0 @ [0x55, 0xAA]"

definition format_fat0 :: bytes where
  "format_fat0 = le32 0x0FFFFFF8 @ le32 0x0FFFFFFF @ le32 0x0FFFFFF8 @ replicate 500 0"

definition canboot_fat32_format ::
    "'s canboot_disk option \<Rightarrow> u64 \<Rightarrow> u64 \<Rightarrow> bytes option \<Rightarrow> ('s, unit) prog" where
  "canboot_fat32_format dp start_lba size_lba label_or_null = (case dp of None \<Rightarrow> err | Some d \<Rightarrow>
     if \<not> writable d then err else
     if block_size d \<noteq> 512 then err else
     let spc = pick_spc size_lba in
     if spc = 0 then err else
     let fat_sectors = size_fat size_lba spc 32 32;
         avail = size_lba - 32 - ucast (2 * fat_sectors);
         clusters = ucast (avail div ucast spc) :: u32 in
     if clusters < 65525 then err else
     let bpb = format_bpb start_lba size_lba spc fat_sectors label_or_null;
         fsinfo = format_fsinfo clusters;
         zero = replicate 512 (0 :: u8);
         fat0 = start_lba + 32;
         root_lba = start_lba + 32 + ucast (2 * fat_sectors) in
     bnd (dwrite d (start_lba + 0) 1 bpb) (\<lambda>_.
     bnd (dwrite d (start_lba + 6) 1 bpb) (\<lambda>_.
     bnd (dwrite d (start_lba + 1) 1 fsinfo) (\<lambda>_.
     bnd (dwrite d (start_lba + 7) 1 fsinfo) (\<lambda>_.
     bnd (dwrite d fat0 1 format_fat0) (\<lambda>_.
     bnd (dwrite d (fat0 + ucast fat_sectors) 1 format_fat0) (\<lambda>_.
     bnd (each (\<lambda>off.
            bnd (dwrite d (fat0 + of_nat off) 1 zero) (\<lambda>_.
            dwrite d (fat0 + ucast fat_sectors + of_nat off) 1 zero))
          [1 ..< unat fat_sectors]) (\<lambda>_.
     each (\<lambda>s. dwrite d (root_lba + of_nat s) 1 zero) [0 ..< unat spc]))))))))"

end
