(* ===== verification/Fat32_Volume.thy ===== *)
theory Fat32_Volume
  imports Fat32_Path
begin

text \<open>
  A mounted FAT32 volume seen as a table of FAT entries and a table of clusters. The locale
  \<open>fat_volume\<close> is a block device that carries a volume of sound geometry; in it the four
  accessors of \<open>fs/fat32.c\<close> read and update the two tables, and nothing else.
\<close>

section \<open>Geometry\<close>

text \<open>The FAT copies lie in front of the data area, each has an entry for every cluster, and the
  data area lies inside the device.\<close>

definition fat_geometry :: "'s canboot_fat32 \<Rightarrow> nat \<Rightarrow> bool" where
  "fat_geometry fs max_req \<longleftrightarrow>
     bytes_per_sector fs = block_size (disk fs) \<and>
     32 dvd unat (bytes_per_sector fs) \<and>
     0 < unat (sectors_per_cluster fs) \<and> unat (sectors_per_cluster fs) \<le> max_req \<and>
     unat (bytes_per_cluster fs) = unat (sectors_per_cluster fs) * unat (bytes_per_sector fs) \<and>
     unat (bytes_per_cluster fs) \<le> 8192 \<and>
     0 < unat (num_fats fs) \<and>
     (2 + unat (total_clusters fs)) * 4 \<le> unat (sectors_per_fat fs) * unat (bytes_per_sector fs) \<and>
     unat (fat_start_lba fs) + unat (num_fats fs) * unat (sectors_per_fat fs)
       \<le> unat (data_start_lba fs) \<and>
     unat (data_start_lba fs) + unat (total_clusters fs) * unat (sectors_per_cluster fs)
       \<le> unat (block_count (disk fs)) \<and>
     2 + unat (total_clusters fs) \<le> unat EOC"

definition valid_cluster :: "'s canboot_fat32 \<Rightarrow> u32 \<Rightarrow> bool" where
  "valid_cluster fs c \<longleftrightarrow> 2 \<le> unat c \<and> unat c < 2 + unat (total_clusters fs)"

definition fat_blk :: "'s canboot_fat32 \<Rightarrow> nat \<Rightarrow> u32 \<Rightarrow> nat" where
  "fat_blk fs k c = unat (fat_start_lba fs) + k * unat (sectors_per_fat fs)
     + unat c * 4 div unat (bytes_per_sector fs)"

definition fat_off :: "'s canboot_fat32 \<Rightarrow> u32 \<Rightarrow> nat" where
  "fat_off fs c = unat c * 4 mod unat (bytes_per_sector fs)"

definition clus_blk :: "'s canboot_fat32 \<Rightarrow> u32 \<Rightarrow> nat" where
  "clus_blk fs c = unat (data_start_lba fs) + (unat c - 2) * unat (sectors_per_cluster fs)"

section \<open>The tables\<close>

text \<open>All 32 bits of the entry of cluster \<open>c\<close> in copy \<open>k\<close> of the FAT of medium \<open>B\<close>, the 28 bits
  that count, and the contents of cluster \<open>c\<close>.\<close>

definition fat_raw :: "'s canboot_fat32 \<Rightarrow> nat \<Rightarrow> (nat \<Rightarrow> bytes) \<Rightarrow> u32 \<Rightarrow> u32" where
  "fat_raw fs k B c = get_le32 (B (fat_blk fs k c)) (fat_off fs c)"

definition fat_entry :: "'s canboot_fat32 \<Rightarrow> nat \<Rightarrow> (nat \<Rightarrow> bytes) \<Rightarrow> u32 \<Rightarrow> u32" where
  "fat_entry fs k B c = fat_raw fs k B c AND 0x0FFFFFFF"

definition clus_data :: "'s canboot_fat32 \<Rightarrow> (nat \<Rightarrow> bytes) \<Rightarrow> u32 \<Rightarrow> bytes" where
  "clus_data fs B c = blocks B (clus_blk fs c) (unat (sectors_per_cluster fs))"

text \<open>Driver state \<open>s\<close> holds the FAT \<open>F\<close> and the clusters \<open>C\<close>.\<close>

definition volume :: "'s canboot_fat32 \<Rightarrow> ('s \<Rightarrow> nat \<Rightarrow> bytes) \<Rightarrow> ('s \<Rightarrow> bool)
    \<Rightarrow> (u32 \<Rightarrow> u32) \<Rightarrow> (u32 \<Rightarrow> bytes) \<Rightarrow> 's \<Rightarrow> bool" where
  "volume fs blk ok F C s \<longleftrightarrow> ok s \<and>
     (\<forall>c. valid_cluster fs c \<longrightarrow> fat_entry fs 0 (blk s) c = F c \<and> clus_data fs (blk s) c = C c)"

text \<open>All copies of the FAT agree.\<close>

definition mirrored :: "'s canboot_fat32 \<Rightarrow> ('s \<Rightarrow> nat \<Rightarrow> bytes) \<Rightarrow> 's \<Rightarrow> bool" where
  "mirrored fs blk s \<longleftrightarrow>
     (\<forall>k < unat (num_fats fs). \<forall>c. valid_cluster fs c \<longrightarrow>
        fat_entry fs k (blk s) c = fat_entry fs 0 (blk s) c)"

text \<open>What writing \<open>v\<close> for cluster \<open>c\<close> into the copies from \<open>k\<close> on makes of \<open>B\<close>: those entries
  change, keeping their top four bits; no other entry of any copy and no block outside the
  FAT copies changes.\<close>

definition fat_written ::
    "'s canboot_fat32 \<Rightarrow> nat \<Rightarrow> u32 \<Rightarrow> u32 \<Rightarrow> (nat \<Rightarrow> bytes) \<Rightarrow> (nat \<Rightarrow> bytes) \<Rightarrow> bool" where
  "fat_written fs k c v B B' \<longleftrightarrow>
     (\<forall>j < unat (num_fats fs). \<forall>c'. valid_cluster fs c' \<longrightarrow>
        fat_raw fs j B' c' = (if c' = c \<and> k \<le> j
          then (fat_raw fs j B c AND 0xF0000000) OR (v AND 0x0FFFFFFF) else fat_raw fs j B c')) \<and>
     (\<forall>i. (\<forall>j < unat (num_fats fs). i \<noteq> fat_blk fs j c) \<longrightarrow> B' i = B i)"

section \<open>The accessors\<close>

locale fat_volume = block_device "disk fs" blk ok max_req
  for fs :: "'s canboot_fat32" and blk ok max_req +
  assumes geometry: "fat_geometry fs max_req"
    and disk_writable: "writable (disk fs)"
begin

abbreviation vol :: "(u32 \<Rightarrow> u32) \<Rightarrow> (u32 \<Rightarrow> bytes) \<Rightarrow> 's \<Rightarrow> bool" where
  "vol \<equiv> volume fs blk ok"

abbreviation med :: "(nat \<Rightarrow> bytes) \<Rightarrow> 's \<Rightarrow> bool" where
  "med B \<equiv> (\<lambda>s. ok s \<and> blk s = B)"

lemma geom:
  shows block_size_bps: "block_size (disk fs) = bytes_per_sector fs"
    and dvd_bps: "32 dvd unat (bytes_per_sector fs)"
    and spc_pos: "0 < unat (sectors_per_cluster fs)"
    and spc_max: "unat (sectors_per_cluster fs) \<le> max_req"
    and bpc: "unat (bytes_per_cluster fs) = unat (sectors_per_cluster fs) * unat (bytes_per_sector fs)"
    and bpc_max: "unat (bytes_per_cluster fs) \<le> 8192"
    and num_fats_pos: "0 < unat (num_fats fs)"
    and fat_room: "(2 + unat (total_clusters fs)) * 4
      \<le> unat (sectors_per_fat fs) * unat (bytes_per_sector fs)"
    and fats_below_data: "unat (fat_start_lba fs) + unat (num_fats fs) * unat (sectors_per_fat fs)
      \<le> unat (data_start_lba fs)"
    and data_fits: "unat (data_start_lba fs)
      + unat (total_clusters fs) * unat (sectors_per_cluster fs) \<le> unat (block_count (disk fs))"
    and total_below_EOC: "2 + unat (total_clusters fs) \<le> unat EOC"
  using geometry unfolding fat_geometry_def by metis+

lemma bps_pos: "0 < unat (bytes_per_sector fs)"
  using block_size_pos block_size_bps by simp

lemma spb_1: "fs_spb fs = 1"
proof -
  have "bytes_per_sector fs div bytes_per_sector fs = 1"
    using bps_pos by (simp add: word_unat_eq_iff unat_div_distrib)
  then show ?thesis by (simp add: fs_spb_def Let_def block_size_bps)
qed

lemma not_too_big: "\<not> cluster_too_big fs"
  using bpc_max by (simp add: cluster_too_big_def word_less_nat_alt)

lemma valid_below_EOC:
  assumes "valid_cluster fs c"
  shows "2 \<le> c" and "c < EOC"
  using assms total_below_EOC
  by (auto simp: valid_cluster_def word_le_nat_alt word_less_nat_alt)

lemma fat_offset_div:
  assumes "valid_cluster fs c"
  shows "unat (c * 4 div bytes_per_sector fs) = unat c * 4 div unat (bytes_per_sector fs)"
    and "unat (c * 4 mod bytes_per_sector fs) = fat_off fs c"
proof -
  have "unat c * 4 < 2 ^ 32"
    using assms total_below_EOC by (simp add: valid_cluster_def EOC_def)
  then have "unat (c * 4) = unat c * 4"
    by (simp add: unat_word_ariths)
  then show "unat (c * 4 div bytes_per_sector fs) = unat c * 4 div unat (bytes_per_sector fs)"
    and "unat (c * 4 mod bytes_per_sector fs) = fat_off fs c"
    by (simp_all add: unat_div_distrib unat_mod_distrib fat_off_def)
qed

lemma fat_row_less:
  assumes "valid_cluster fs c"
  shows "unat c * 4 div unat (bytes_per_sector fs) < unat (sectors_per_fat fs)"
proof -
  have "unat c * 4 < (2 + unat (total_clusters fs)) * 4"
    using assms by (simp add: valid_cluster_def)
  also have "\<dots> \<le> unat (sectors_per_fat fs) * unat (bytes_per_sector fs)"
    by (rule fat_room)
  finally show ?thesis
    using bps_pos by (simp add: div_less_iff_less_mult)
qed

lemma fat_copy_le:
  assumes "k < unat (num_fats fs)"
  shows "unat (fat_start_lba fs) + k * unat (sectors_per_fat fs) + unat (sectors_per_fat fs)
    \<le> unat (data_start_lba fs)"
proof -
  have "Suc k * unat (sectors_per_fat fs) \<le> unat (num_fats fs) * unat (sectors_per_fat fs)"
    using assms by (intro mult_le_mono1) simp
  then show ?thesis using fats_below_data by simp
qed

lemma fat_blk_less:
  assumes "k < unat (num_fats fs)" and "valid_cluster fs c"
  shows "fat_blk fs k c < unat (data_start_lba fs)"
  using fat_copy_le [OF assms(1)] fat_row_less [OF assms(2)] by (simp add: fat_blk_def)

lemma data_start_le: "unat (data_start_lba fs) \<le> unat (block_count (disk fs))"
  using data_fits by simp

lemma fat_off_fits: "fat_off fs c + 4 \<le> unat (bytes_per_sector fs)"
proof -
  have "4 dvd unat (bytes_per_sector fs)"
    using dvd_bps by (rule dvd_trans [rotated]) simp
  then obtain m where m: "unat (bytes_per_sector fs) = 4 * m" by (elim dvdE)
  with bps_pos have "0 < m" by simp
  then have "unat c mod m < m" by simp
  then have "4 * (unat c mod m) + 4 \<le> 4 * m" by simp
  moreover have "fat_off fs c = 4 * (unat c mod m)"
    unfolding fat_off_def m by (metis mult.commute mult_mod_right)
  ultimately show ?thesis using m by simp
qed

lemma fat_off_apart:
  assumes "fat_blk fs k c = fat_blk fs k c'" and "c \<noteq> c'"
  shows "fat_off fs c + 4 \<le> fat_off fs c' \<or> fat_off fs c' + 4 \<le> fat_off fs c"
proof -
  let ?b = "unat (bytes_per_sector fs)"
  have row: "unat c * 4 div ?b = unat c' * 4 div ?b"
    using assms(1) by (simp add: fat_blk_def)
  define q where "q = unat c' * 4 div ?b * ?b"
  have "unat c * 4 = q + fat_off fs c"
    unfolding q_def row [symmetric] by (simp add: fat_off_def)
  moreover have "unat c' * 4 = q + fat_off fs c'"
    by (simp add: q_def fat_off_def)
  moreover have "unat c \<noteq> unat c'" using assms(2) by (simp add: word_unat_eq_iff)
  ultimately show ?thesis by arith
qed

lemma fat_blk_copy_inj:
  assumes "valid_cluster fs c" and "valid_cluster fs c'" and "fat_blk fs j c' = fat_blk fs k c"
  shows "j = k"
proof -
  let ?n = "unat (sectors_per_fat fs)"
  from assms have "j * ?n + unat c' * 4 div unat (bytes_per_sector fs)
      = k * ?n + unat c * 4 div unat (bytes_per_sector fs)"
    by (simp add: fat_blk_def)
  from arg_cong [OF this, of "\<lambda>x. x div ?n"] show ?thesis
    using fat_row_less [OF assms(1)] fat_row_less [OF assms(2)] by (simp add: div_add1_eq)
qed

lemma fat_lba:
  assumes "k < unat (num_fats fs)" and "valid_cluster fs c"
  shows "unat (fat_start_lba fs + ucast (of_nat k :: u32) * ucast (sectors_per_fat fs) * ucast (fs_spb fs)
      + ucast ((c * 4 div bytes_per_sector fs) * fs_spb fs)) = fat_blk fs k c"
proof -
  let ?k = "ucast (of_nat k :: u32) :: u64"
  have k: "unat ?k = k"
    using less_trans [OF assms(1) unat_u32_lt] by (simp add: unat_of_nat)
  have bound: "fat_blk fs k c < 2 ^ 64"
    using fat_blk_less [OF assms] unsigned_less [of "data_start_lba fs", where ?'a = nat] by simp
  have m: "unat (?k * ucast (sectors_per_fat fs)) = k * unat (sectors_per_fat fs)"
    using bound k by (simp add: unat_word_ariths fat_blk_def)
  have a: "unat (fat_start_lba fs + ?k * ucast (sectors_per_fat fs))
      = unat (fat_start_lba fs) + k * unat (sectors_per_fat fs)"
    using bound m by (subst unat_add_no_wrap) (simp_all add: fat_blk_def)
  show ?thesis
    unfolding spb_1
    using bound a fat_offset_div(1) [OF assms(2)]
    by (simp, subst unat_add_no_wrap) (simp_all add: fat_blk_def)
qed

lemma fat_lba_0:
  assumes "valid_cluster fs c"
  shows "unat (fat_start_lba fs + ucast ((c * 4 div bytes_per_sector fs) * fs_spb fs)) = fat_blk fs 0 c"
  using fat_lba [OF num_fats_pos assms] by simp

text \<open>One block at a time.\<close>

lemma read_sector_runs:
  "unat lba < unat (block_count (disk fs)) \<Longrightarrow>
     runs (med B) (disk_read_sector (disk fs) lba) (B (unat lba)) (med B)"
  using read_law [of 1 lba B] max_req_pos by (simp add: disk_read_sector_def)

lemma write_sector_runs:
  "unat lba < unat (block_count (disk fs)) \<Longrightarrow> length buf = unat (bytes_per_sector fs) \<Longrightarrow>
     runs (med B) (disk_write_sector (disk fs) lba buf) () (med (B(unat lba := buf)))"
  using write_law [of 1 lba buf B] max_req_pos disk_writable block_size_bps
  by (simp add: disk_write_sector_def)

theorem read_fat_entry_med:
  assumes "valid_cluster fs c"
  shows "runs (med B) (read_fat_entry fs c) (fat_entry fs 0 B c) (med B)"
proof -
  let ?lba = "fat_start_lba fs + ucast ((c * 4 div bytes_per_sector fs) * fs_spb fs)"
  have "unat ?lba < unat (block_count (disk fs))"
    using fat_lba_0 [OF assms] fat_blk_less [OF num_fats_pos assms] data_start_le by simp
  from read_sector_runs [OF this, of B] show ?thesis
    unfolding read_fat_entry_def Let_def
    by (rule runs_bnd)
      (simp add: fat_entry_def fat_raw_def fat_lba_0 [OF assms] fat_offset_div(2) [OF assms] runs_ret)
qed

text \<open>The loop over the copies, from copy \<open>k\<close> on.\<close>

lemma fat_written_step:
  assumes k: "k < unat (num_fats fs)" and c: "valid_cluster fs c"
    and len: "length (B (fat_blk fs k c)) = unat (bytes_per_sector fs)"
    and B1: "B1 = B(fat_blk fs k c := put_bytes (B (fat_blk fs k c)) (fat_off fs c)
      (le32 ((fat_raw fs k B c AND 0xF0000000) OR (v AND 0x0FFFFFFF))))"
    and rest: "fat_written fs (Suc k) c v B1 B'"
  shows "fat_written fs k c v B B'"
proof -
  have step: "fat_raw fs j B1 c' = (if c' = c \<and> j = k
      then (fat_raw fs k B c AND 0xF0000000) OR (v AND 0x0FFFFFFF) else fat_raw fs j B c')"
    if "valid_cluster fs c'" for j c'
  proof (cases "fat_blk fs j c' = fat_blk fs k c")
    case True
    with fat_blk_copy_inj [OF c that] have "j = k" by simp
    with True show ?thesis
      using fat_off_apart [of k c' c] fat_off_fits [of c] len
      by (auto simp: B1 fat_raw_def get_le32_le32 get_le32_put_other)
  next
    case False
    then show ?thesis by (auto simp: B1 fat_raw_def)
  qed
  have out: "B1 i = B i" if "i \<noteq> fat_blk fs k c" for i
    using that by (simp add: B1)
  show ?thesis
    unfolding fat_written_def
  proof (intro conjI allI impI)
    fix j c' assume "j < unat (num_fats fs)" and c': "valid_cluster fs c'"
    with rest have "fat_raw fs j B' c' = (if c' = c \<and> Suc k \<le> j
        then (fat_raw fs j B1 c AND 0xF0000000) OR (v AND 0x0FFFFFFF) else fat_raw fs j B1 c')"
      by (simp add: fat_written_def)
    with step [OF c] step [OF c'] show "fat_raw fs j B' c' = (if c' = c \<and> k \<le> j
        then (fat_raw fs j B c AND 0xF0000000) OR (v AND 0x0FFFFFFF) else fat_raw fs j B c')"
      by (cases "j = k") auto
  next
    fix i assume "\<forall>j < unat (num_fats fs). i \<noteq> fat_blk fs j c"
    with rest k out [of i] show "B' i = B i" by (auto simp: fat_written_def)
  qed
qed

lemma write_fat_copies_runs:
  assumes c: "valid_cluster fs c"
  shows "k \<le> unat (num_fats fs) \<Longrightarrow>
    runs (med B) (write_fat_copies fs c v (of_nat k)) () (\<lambda>s. ok s \<and> fat_written fs k c v B (blk s))"
proof (induction "unat (num_fats fs) - k" arbitrary: k B)
  case 0
  then have "k = unat (num_fats fs)" by simp
  then show ?case
    by (intro runsI) (auto simp: write_fat_copies.simps fat_written_def ret_apply)
next
  case (Suc m)
  then have k: "k < unat (num_fats fs)" by simp
  have unat_k: "unat (of_nat k :: u32) = k"
    using less_trans [OF k unat_u32_lt] by (simp add: unat_of_nat)
  let ?lba = "fat_start_lba fs + ucast (of_nat k :: u32) * ucast (sectors_per_fat fs) * ucast (fs_spb fs)
      + ucast ((c * 4 div bytes_per_sector fs) * fs_spb fs)"
  let ?e = "(fat_raw fs k B c AND 0xF0000000) OR (v AND 0x0FFFFFFF)"
  let ?sect = "put_bytes (B (fat_blk fs k c)) (fat_off fs c) (le32 ?e)"
  let ?B1 = "B(fat_blk fs k c := ?sect)"
  have lba: "unat ?lba = fat_blk fs k c" by (rule fat_lba [OF k c])
  have inside: "unat ?lba < unat (block_count (disk fs))"
    using lba fat_blk_less [OF k c] data_start_le by simp
  show ?case
  proof (rule runsI)
    fix s assume s: "med B s"
    then have len: "length (B (fat_blk fs k c)) = unat (bytes_per_sector fs)"
      using length_blk [of s "fat_blk fs k c"] inside lba block_size_bps by simp
    have "length ?sect = unat (bytes_per_sector fs)"
      using len fat_off_fits [of c] by simp
    note w = write_sector_runs [OF inside this, of B, unfolded lba]
    note r = read_sector_runs [OF inside, of B, unfolded lba]
    note ih = Suc.hyps(1) [of "Suc k" ?B1]
    have "runs (med ?B1) (write_fat_copies fs c v (of_nat k + 1)) ()
        (\<lambda>s. ok s \<and> fat_written fs (Suc k) c v ?B1 (blk s))"
      using ih Suc.hyps(2) k by (simp add: add.commute)
    then have "runs (med ?B1) (write_fat_copies fs c v (of_nat k + 1)) ()
        (\<lambda>s. ok s \<and> fat_written fs k c v B (blk s))"
      by (rule runs_conseq) (auto intro: fat_written_step [where B = B, OF k c len refl])
    from runs_bnd [OF w this]
    have body: "runs (med B) (bnd (disk_read_sector (disk fs) ?lba) (\<lambda>sect.
        bnd (disk_write_sector (disk fs) ?lba (put_bytes sect (unat (c * 4 mod bytes_per_sector fs))
          (le32 ((get_le32 sect (unat (c * 4 mod bytes_per_sector fs)) AND 0xF0000000) OR (v AND 0x0FFFFFFF)))))
        (\<lambda>_. write_fat_copies fs c v (of_nat k + 1)))) ()
        (\<lambda>s. ok s \<and> fat_written fs k c v B (blk s))"
      by (intro runs_bnd [OF r]) (simp add: fat_offset_div(2) [OF c] fat_raw_def)
    from runsE [OF body s] k unat_k
    show "\<exists>s'. write_fat_copies fs c v (of_nat k) s = Some (Ok (), s') \<and>
        ok s' \<and> fat_written fs k c v B (blk s')"
      by (subst write_fat_copies.simps) (auto simp: word_less_nat_alt Let_def)
  qed
qed

lemma write_fat_entry_med:
  "valid_cluster fs c \<Longrightarrow>
     runs (med B) (write_fat_entry fs c v) () (\<lambda>s. ok s \<and> fat_written fs 0 c v B (blk s))"
  using write_fat_copies_runs [of c 0 B v] by (simp add: write_fat_entry_def)

end

lemma fat_value_nibble:
  "((x AND 0xF0000000) OR (v AND 0x0FFFFFFF)) AND 0x0FFFFFFF = v AND (0x0FFFFFFF :: u32)"
  by (simp add: bit.conj_disj_distrib2 and.assoc)

lemma fat_keeps_nibble:
  "((x AND 0xF0000000) OR (v AND 0x0FFFFFFF)) AND 0xF0000000 = x AND (0xF0000000 :: u32)"
  by (simp add: bit.conj_disj_distrib2 and.assoc)

lemma fat_writtenD:
  assumes "fat_written fs k c v B B'" and "j < unat (num_fats fs)" and "valid_cluster fs c'"
  shows "fat_raw fs j B' c' = (if c' = c \<and> k \<le> j
    then (fat_raw fs j B c AND 0xF0000000) OR (v AND 0x0FFFFFFF) else fat_raw fs j B c')"
  using assms unfolding fat_written_def by blast

section \<open>The accessors on the tables\<close>

context fat_volume begin

lemma runs_vol:
  assumes "\<And>B. runs (med B) m (f B) (\<lambda>s. ok s \<and> R B (blk s))"
    and "\<And>s. vol F C s \<Longrightarrow> f (blk s) = v"
    and "\<And>s s'. vol F C s \<Longrightarrow> ok s' \<Longrightarrow> R (blk s) (blk s') \<Longrightarrow> Q s'"
  shows "runs (vol F C) m v Q"
proof (rule runsI)
  fix s assume s: "vol F C s"
  then have "med (blk s) s" by (simp add: volume_def)
  from runsE [OF assms(1) [of "blk s"] this] obtain s'
    where "m s = Some (Ok (f (blk s)), s')" and "ok s' \<and> R (blk s) (blk s')" .
  with s assms(2, 3) show "\<exists>s'. m s = Some (Ok v, s') \<and> Q s'" by blast
qed

lemma read_fat_entry_runs [run_intros]:
  assumes "valid_cluster fs c"
  shows "runs (vol F C) (read_fat_entry fs c) (F c) (vol F C)"
  by (rule runs_vol [where R = "\<lambda>B B'. B' = B", OF read_fat_entry_med [OF assms]])
    (use assms in \<open>auto simp: volume_def\<close>)

lemma clus_blk_range:
  assumes "valid_cluster fs c"
  shows "unat (data_start_lba fs) \<le> clus_blk fs c"
    and "clus_blk fs c + unat (sectors_per_cluster fs) \<le> unat (block_count (disk fs))"
proof -
  have "Suc (unat c - 2) * unat (sectors_per_cluster fs)
      \<le> unat (total_clusters fs) * unat (sectors_per_cluster fs)"
    using assms by (intro mult_le_mono1) (auto simp: valid_cluster_def)
  then show "clus_blk fs c + unat (sectors_per_cluster fs) \<le> unat (block_count (disk fs))"
    using data_fits by (simp add: clus_blk_def)
qed (simp add: clus_blk_def)

lemma clus_blk_apart:
  assumes "valid_cluster fs c" and "valid_cluster fs c'" and "c \<noteq> c'"
  shows "clus_blk fs c + unat (sectors_per_cluster fs) \<le> clus_blk fs c'
    \<or> clus_blk fs c' + unat (sectors_per_cluster fs) \<le> clus_blk fs c"
proof -
  let ?p = "unat (sectors_per_cluster fs)"
  have "unat c \<noteq> unat c'" using assms(3) by (simp add: word_unat_eq_iff)
  with assms consider "Suc (unat c - 2) \<le> unat c' - 2" | "Suc (unat c' - 2) \<le> unat c - 2"
    unfolding valid_cluster_def by linarith
  then show ?thesis
  proof cases
    case 1
    from mult_le_mono1 [OF this, of ?p] show ?thesis by (simp add: clus_blk_def)
  next
    case 2
    from mult_le_mono1 [OF this, of ?p] show ?thesis by (simp add: clus_blk_def)
  qed
qed

lemma cluster_lba_unat:
  assumes "valid_cluster fs c"
  shows "unat (cluster_lba fs c) = clus_blk fs c"
proof -
  have "2 \<le> c" using valid_below_EOC [OF assms] by simp
  then have c2: "unat (c - 2) = unat c - 2" by (simp add: unat_sub_no_wrap)
  have bound: "clus_blk fs c < 2 ^ 64"
    using clus_blk_range(2) [OF assms] spc_pos
      unsigned_less [of "block_count (disk fs)", where ?'a = nat] by simp
  have m: "unat (ucast (c - 2) * ucast (sectors_per_cluster fs) :: u64)
      = (unat c - 2) * unat (sectors_per_cluster fs)"
    using bound c2 by (simp add: unat_word_ariths clus_blk_def)
  show ?thesis
    unfolding cluster_lba_def spb_1
    using bound m by (simp, subst unat_add_no_wrap) (simp_all add: clus_blk_def)
qed

lemma clus_data_fat_written:
  assumes "valid_cluster fs c" and "valid_cluster fs c'" and "fat_written fs k c v B B'"
  shows "clus_data fs B' c' = clus_data fs B c'"
  unfolding clus_data_def
proof (rule blocks_cong)
  fix i assume "clus_blk fs c' \<le> i"
  then have "i \<noteq> fat_blk fs j c" if "j < unat (num_fats fs)" for j
    using fat_blk_less [OF that assms(1)] clus_blk_range(1) [OF assms(2)] by simp
  with assms(3) show "B' i = B i" by (simp add: fat_written_def)
qed

lemma write_fat_entry_runs [run_intros]:
  assumes "valid_cluster fs c"
  shows "runs (vol F C) (write_fat_entry fs c v) () (vol (F(c := v AND 0x0FFFFFFF)) C)"
proof (rule runs_vol [OF write_fat_entry_med [OF assms]])
  fix s s' assume "vol F C s" and "ok s'" and w: "fat_written fs 0 c v (blk s) (blk s')"
  then show "vol (F(c := v AND 0x0FFFFFFF)) C s'"
    using num_fats_pos clus_data_fat_written [OF assms _ w]
    by (auto simp: volume_def fat_entry_def fat_written_def fat_value_nibble)
qed simp

lemma write_fat_entry_mirrored:
  assumes "valid_cluster fs c"
  shows "runs (\<lambda>s. vol F C s \<and> mirrored fs blk s) (write_fat_entry fs c v) ()
    (\<lambda>s. vol (F(c := v AND 0x0FFFFFFF)) C s \<and> mirrored fs blk s)"
proof (rule runsI)
  fix s assume s: "vol F C s \<and> mirrored fs blk s"
  then have "med (blk s) s" by (simp add: volume_def)
  from runsE [OF write_fat_entry_med [OF assms, of "blk s" v] this] obtain s'
    where run: "write_fat_entry fs c v s = Some (Ok (), s')"
      and w: "fat_written fs 0 c v (blk s) (blk s')" by blast
  from runsE [OF write_fat_entry_runs [OF assms, of F C v]] s run
  have "vol (F(c := v AND 0x0FFFFFFF)) C s'" by fastforce
  moreover have "mirrored fs blk s'"
    unfolding mirrored_def
  proof (intro allI impI)
    fix k c' assume k: "k < unat (num_fats fs)" and c': "valid_cluster fs c'"
    have new: "fat_entry fs j (blk s') c' = (if c' = c then v AND 0x0FFFFFFF else fat_entry fs j (blk s) c')"
      if "j < unat (num_fats fs)" for j
      using fat_writtenD [OF w that c'] by (simp add: fat_entry_def fat_value_nibble)
    have "fat_entry fs k (blk s) c' = fat_entry fs 0 (blk s) c'"
      using s k c' unfolding mirrored_def by blast
    then show "fat_entry fs k (blk s') c' = fat_entry fs 0 (blk s') c'"
      unfolding new [OF k] new [OF num_fats_pos] by simp
  qed
  ultimately show "\<exists>s'. write_fat_entry fs c v s = Some (Ok (), s') \<and>
      vol (F(c := v AND 0x0FFFFFFF)) C s' \<and> mirrored fs blk s'"
    using run by blast
qed

lemma read_cluster_runs [run_intros]:
  assumes "valid_cluster fs c"
  shows "runs (vol F C) (read_cluster fs c) (C c) (vol F C)"
proof (rule runs_vol [where R = "\<lambda>B B'. B' = B" and f = "\<lambda>B. clus_data fs B c"])
  fix B
  show "runs (med B) (read_cluster fs c) (clus_data fs B c) (\<lambda>s. ok s \<and> blk s = B)"
    using read_law [of "sectors_per_cluster fs" "cluster_lba fs c" B]
      spc_pos spc_max clus_blk_range(2) [OF assms] cluster_lba_unat [OF assms]
    by (simp add: read_cluster_def spb_1 clus_data_def)
qed (use assms in \<open>auto simp: volume_def\<close>)

lemma length_cluster:
  assumes "vol F C s" and "valid_cluster fs c"
  shows "length (C c) = unat (bytes_per_cluster fs)"
proof -
  have "length (blocks (blk s) (clus_blk fs c) (unat (sectors_per_cluster fs)))
      = unat (sectors_per_cluster fs) * unat (bytes_per_sector fs)"
    by (rule length_blocks)
      (use assms(1) length_blk clus_blk_range(2) [OF assms(2)] block_size_bps in
        \<open>auto simp: volume_def\<close>)
  with assms show ?thesis by (auto simp: volume_def clus_data_def bpc)
qed

lemma fat_raw_put_blocks:
  assumes "valid_cluster fs c" and "valid_cluster fs c'" and "k < unat (num_fats fs)"
  shows "fat_raw fs k (put_blocks bs B (clus_blk fs c) n buf) c' = fat_raw fs k B c'"
  using fat_blk_less [OF assms(3, 2)] clus_blk_range(1) [OF assms(1)]
  by (simp add: fat_raw_def put_blocks_outside)

lemma write_cluster_runs [run_intros]:
  assumes "valid_cluster fs c" and len: "length buf = unat (bytes_per_cluster fs)"
  shows "runs (vol F C) (write_cluster fs c buf) () (vol F (C(c := buf)))"
proof (rule runs_vol [where f = "\<lambda>B. ()"])
  fix B
  show "runs (med B) (write_cluster fs c buf) () (\<lambda>s. ok s \<and>
      blk s = put_blocks (unat (bytes_per_sector fs)) B (clus_blk fs c) (unat (sectors_per_cluster fs)) buf)"
    using write_law [of "sectors_per_cluster fs" "cluster_lba fs c" buf B]
      spc_pos spc_max clus_blk_range(2) [OF assms(1)] cluster_lba_unat [OF assms(1)]
      disk_writable len bpc block_size_bps
    by (simp add: write_cluster_def spb_1)
next
  fix s s' assume s: "vol F C s" and "ok s'" and
    w: "blk s' = put_blocks (unat (bytes_per_sector fs)) (blk s) (clus_blk fs c)
      (unat (sectors_per_cluster fs)) buf"
  moreover have "clus_data fs (blk s') c' = (C(c := buf)) c'" if c': "valid_cluster fs c'" for c'
  proof (cases "c' = c")
    case True
    then show ?thesis
      using len bpc by (simp add: clus_data_def w blocks_put_blocks)
  next
    case False
    have "clus_data fs (blk s') c' = clus_data fs (blk s) c'"
      unfolding clus_data_def
      by (rule blocks_cong)
        (use clus_blk_apart [OF assms(1) c'] False in \<open>auto simp: w put_blocks_outside\<close>)
    with s c' False show ?thesis by (simp add: volume_def)
  qed
  ultimately show "vol F (C(c := buf)) s'"
    using fat_raw_put_blocks [OF assms(1) _ num_fats_pos]
    by (auto simp: volume_def fat_entry_def)
qed simp

end

end
