(* ===== verification/Fat32_Chains.thy ===== *)
theory Fat32_Chains
  imports Fat32_Volume
begin

text \<open>
  Cluster chains of \<open>fs/fat32.c\<close>: which chain allocation builds, that freeing a chain frees all of
  it and returns even when the chain is a loop, and what reading and writing through a chain moves.
\<close>

section \<open>Chains in a FAT\<close>

text \<open>\<open>chain fs F c cs\<close>: following \<open>F\<close> from \<open>c\<close> visits exactly \<open>cs\<close>, all valid clusters, and then
  meets an end-of-chain mark.\<close>

primrec chain :: "'s canboot_fat32 \<Rightarrow> (u32 \<Rightarrow> u32) \<Rightarrow> u32 \<Rightarrow> u32 list \<Rightarrow> bool" where
  "chain fs F c [] \<longleftrightarrow> EOC \<le> c"
| "chain fs F c (x # xs) \<longleftrightarrow> x = c \<and> valid_cluster fs c \<and> chain fs F (F c) xs"

definition clusters :: "'s canboot_fat32 \<Rightarrow> u32 list" where
  "clusters fs = map of_nat [2 ..< 2 + unat (total_clusters fs)]"

definition free_list :: "'s canboot_fat32 \<Rightarrow> (u32 \<Rightarrow> u32) \<Rightarrow> u32 list" where
  "free_list fs F = filter (\<lambda>c. F c = 0) (clusters fs)"

text \<open>The FAT after linking \<open>cs\<close> into a chain.\<close>

primrec link_fat :: "(u32 \<Rightarrow> u32) \<Rightarrow> u32 list \<Rightarrow> u32 \<Rightarrow> u32" where
  "link_fat F [] = F"
| "link_fat F (c # cs) = link_fat (F(c := (case cs of [] \<Rightarrow> 0x0FFFFFFF | c' # _ \<Rightarrow> c'))) cs"

text \<open>The clusters after writing \<open>data\<close> into the clusters \<open>cs\<close>.\<close>

primrec data_in :: "nat \<Rightarrow> (u32 \<Rightarrow> bytes) \<Rightarrow> u32 list \<Rightarrow> bytes \<Rightarrow> u32 \<Rightarrow> bytes" where
  "data_in bpc C [] data = C"
| "data_in bpc C (c # cs) data =
     data_in bpc (C(c := take bpc data @ replicate (bpc - length data) 0)) cs (drop bpc data)"

lemma chain_valid: "chain fs F c cs \<Longrightarrow> x \<in> set cs \<Longrightarrow> valid_cluster fs x"
  by (induction cs arbitrary: c) auto

lemma chain_cong:
  "(\<And>x. x \<in> set cs \<Longrightarrow> F' x = F x) \<Longrightarrow> chain fs F' c cs = chain fs F c cs"
  by (induction cs arbitrary: c) auto

lemma chain_append:
  "chain fs F c (xs @ y # ys) \<Longrightarrow> chain fs F y (y # ys)"
  by (induction xs arbitrary: c) auto

lemma valid_not_EOC:
  "2 + unat (total_clusters fs) \<le> unat EOC \<Longrightarrow> valid_cluster fs c \<Longrightarrow> \<not> EOC \<le> c"
  by (simp add: valid_cluster_def word_le_nat_alt)

lemma chain_unique:
  assumes "2 + unat (total_clusters fs) \<le> unat EOC"
  shows "chain fs F c xs \<Longrightarrow> chain fs F c ys \<Longrightarrow> xs = ys"
proof (induction xs arbitrary: c ys)
  case Nil
  then show ?case using valid_not_EOC [OF assms] by (cases ys) auto
next
  case (Cons x xs)
  then show ?case using valid_not_EOC [OF assms] by (cases ys) auto
qed

text \<open>A chain that ends visits no cluster twice.\<close>

lemma chain_distinct:
  assumes "2 + unat (total_clusters fs) \<le> unat EOC" and "chain fs F c cs"
  shows "distinct cs"
proof (rule ccontr)
  assume "\<not> distinct cs"
  then obtain xs ys zs y where cs: "cs = xs @ [y] @ ys @ [y] @ zs"
    using not_distinct_decomp by blast
  from assms(2) cs have "chain fs F y (y # ys @ y # zs)"
    using chain_append [of fs F c xs y "ys @ y # zs"] by simp
  moreover from this have "chain fs F y (y # zs)"
    using chain_append [of fs F y "y # ys" y zs] by simp
  ultimately have "y # ys @ y # zs = y # zs" by (rule chain_unique [OF assms(1)])
  then have "length (y # ys @ y # zs) = length (y # zs)" by (rule arg_cong)
  then show False by simp
qed

lemma chain_nonzero:
  assumes "chain fs F c cs" and "x \<in> set cs"
  shows "F x \<noteq> 0"
  using assms
proof (induction cs arbitrary: c)
  case (Cons a cs)
  have "F a \<noteq> 0"
  proof (cases cs)
    case Nil
    with Cons.prems have "EOC \<le> F a" by simp
    then show ?thesis by (auto simp: EOC_def)
  next
    case (Cons b bs)
    with Cons.prems have "valid_cluster fs (F a)" by simp
    then show ?thesis by (auto simp: valid_cluster_def)
  qed
  moreover have "F x \<noteq> 0" if "x \<in> set cs"
    using Cons.IH [of "F a"] Cons.prems(1) that by simp
  ultimately show ?case using Cons.prems(2) by auto
qed simp

lemma set_clusters:
  "2 + unat (total_clusters fs) \<le> unat EOC \<Longrightarrow> x \<in> set (clusters fs) \<longleftrightarrow> valid_cluster fs x"
proof -
  assume top: "2 + unat (total_clusters fs) \<le> unat EOC"
  show ?thesis
  proof
    assume "x \<in> set (clusters fs)"
    then show "valid_cluster fs x"
      using top by (auto simp: clusters_def valid_cluster_def unat_of_nat EOC_def simp del: upt_Suc)
  next
    assume "valid_cluster fs x"
    then have "unat x \<in> set [2 ..< 2 + unat (total_clusters fs)]"
      by (simp add: valid_cluster_def del: upt_Suc)
    then have "of_nat (unat x) \<in> set (clusters fs)"
      unfolding clusters_def by (metis image_eqI set_map)
    then show "x \<in> set (clusters fs)" by simp
  qed
qed

lemma distinct_clusters:
  assumes "2 + unat (total_clusters fs) \<le> unat EOC"
  shows "distinct (clusters fs)"
proof -
  have "inj_on (of_nat :: nat \<Rightarrow> u32) {2 ..< 2 + unat (total_clusters fs)}"
  proof (rule inj_onI)
    fix a b :: nat
    assume "a \<in> {2 ..< 2 + unat (total_clusters fs)}" "b \<in> {2 ..< 2 + unat (total_clusters fs)}"
      and eq: "(of_nat a :: u32) = of_nat b"
    with assms have "a < 2 ^ 32" "b < 2 ^ 32" by (auto simp: EOC_def)
    with arg_cong [OF eq, of unat] show "a = b" by (simp add: unat_of_nat)
  qed
  then show ?thesis by (simp add: clusters_def distinct_map del: upt_Suc)
qed

lemma link_fat_other: "x \<notin> set cs \<Longrightarrow> link_fat F cs x = F x"
  by (induction cs arbitrary: F) auto

lemma link_fat_absorb:
  assumes "\<And>x. x \<notin> set cs \<Longrightarrow> F x = F' x"
  shows "link_fat F cs = link_fat F' cs"
  using assms
proof (induction cs arbitrary: F F')
  case (Cons c cs)
  show ?case by (simp, rule Cons.IH) (use Cons.prems in auto)
qed (simp add: fun_eq_iff)

text \<open>Linking distinct clusters gives the chain through them.\<close>

lemma chain_link_fat:
  assumes "distinct (c # cs)" and "\<And>x. x \<in> set (c # cs) \<Longrightarrow> valid_cluster fs x"
  shows "chain fs (link_fat F (c # cs)) c (c # cs)"
  using assms
proof (induction cs arbitrary: c F)
  case Nil
  then show ?case by (simp add: EOC_def)
next
  case (Cons a cs)
  let ?F = "link_fat F (c # a # cs)"
  have F: "?F = link_fat (F(c := a)) (a # cs)" by simp
  have "?F c = a" using Cons.prems(1) unfolding F by (subst link_fat_other) auto
  moreover have "chain fs ?F a (a # cs)"
    unfolding F by (rule Cons.IH) (use Cons.prems in auto)
  moreover have "valid_cluster fs c" using Cons.prems(2) by simp
  ultimately show ?case by simp
qed

lemma data_in_other: "x \<notin> set cs \<Longrightarrow> data_in n C cs data x = C x"
  by (induction cs arbitrary: C data) auto

lemma take_concat_data_in:
  assumes "distinct cs" and "length data \<le> length cs * n"
  shows "take (length data) (concat (map (data_in n C cs data) cs)) = data"
  using assms
proof (induction cs arbitrary: C data)
  case (Cons c cs)
  let ?C = "C(c := take n data @ replicate (n - length data) 0)"
  have c: "data_in n ?C cs (drop n data) c = take n data @ replicate (n - length data) 0"
    using Cons.prems(1) by (simp add: data_in_other)
  have "take (length (drop n data)) (concat (map (data_in n ?C cs (drop n data)) cs)) = drop n data"
    by (rule Cons.IH) (use Cons.prems in auto)
  then have ih: "take (length data - n) (concat (map (data_in n ?C cs (drop n data)) cs)) = drop n data"
    by simp
  show ?case
  proof (cases "n \<le> length data")
    case True
    then show ?thesis using c ih by (simp add: min_def)
  next
    case False
    then show ?thesis using c by simp
  qed
qed simp

section \<open>Allocation\<close>

lemma find_free_loop_step:
  "find_free_loop fs c = (if c < 2 + total_clusters fs then
     bnd (read_fat_entry fs c) (\<lambda>entry. if entry = 0 then ret c else find_free_loop fs (c + 1)) else err)"
  by (rule ext) (simp add: find_free_loop.simps [of fs c])

context fat_volume begin

lemma chain_loop_guard:
  "chain fs F c (x # xs) \<Longrightarrow> 2 \<le> c \<and> c < EOC"
  using valid_below_EOC by auto

lemma chain_loop_end: "chain fs F c [] \<Longrightarrow> \<not> (2 \<le> c \<and> c < EOC)"
  by auto

lemma find_free_loop_runs:
  assumes "2 \<le> k" and "k \<le> 2 + unat (total_clusters fs)"
    and "filter (\<lambda>c. F c = 0) (map of_nat [k ..< 2 + unat (total_clusters fs)]) = c # cs"
  shows "runs (vol F C) (find_free_loop fs (of_nat k)) c (vol F C)"
  using assms
proof (induction "2 + unat (total_clusters fs) - k" arbitrary: k)
  case 0
  then show ?case by simp
next
  case (Suc m)
  then have k: "k < 2 + unat (total_clusters fs)" by simp
  then have "k < 2 ^ 32" using total_below_EOC by (simp add: EOC_def)
  then have uk: "unat (of_nat k :: u32) = k" by (simp add: unat_of_nat)
  have ut: "unat (2 + total_clusters fs) = 2 + unat (total_clusters fs)"
    using total_below_EOC by (subst unat_add_no_wrap) (simp_all add: EOC_def)
  have guard: "(of_nat k :: u32) < 2 + total_clusters fs"
    using k by (simp add: word_less_nat_alt uk ut)
  have valid: "valid_cluster fs (of_nat k)"
    using k Suc.prems(1) by (simp add: valid_cluster_def uk)
  have upt: "[k ..< 2 + unat (total_clusters fs)] = k # [Suc k ..< 2 + unat (total_clusters fs)]"
    using k by (simp add: upt_conv_Cons)
  have "runs (vol F C) (if F (of_nat k) = 0 then ret (of_nat k) else find_free_loop fs (of_nat k + 1))
      c (vol F C)"
  proof (cases "F (of_nat k) = 0")
    case True
    with Suc.prems(3) have "c = of_nat k" unfolding upt by simp
    with True show ?thesis by (simp add: runs_ret)
  next
    case False
    with Suc.prems(3)
    have "filter (\<lambda>c. F c = 0) (map of_nat [Suc k ..< 2 + unat (total_clusters fs)]) = c # cs"
      unfolding upt by simp
    from Suc.hyps(1) [OF _ _ _ this] Suc.hyps(2) Suc.prems(1) k False show ?thesis
      by (simp add: add.commute)
  qed
  then show ?case
    using guard unfolding find_free_loop_step [of fs "of_nat k"]
    by (simp add: runs_bnd [OF read_fat_entry_runs [OF valid]])
qed

lemma find_free_loop_fails:
  assumes "2 \<le> k" and "k \<le> 2 + unat (total_clusters fs)"
    and "filter (\<lambda>c. F c = 0) (map of_nat [k ..< 2 + unat (total_clusters fs)]) = []"
  shows "fails (vol F C) (find_free_loop fs (of_nat k)) (vol F C)"
  using assms
proof (induction "2 + unat (total_clusters fs) - k" arbitrary: k)
  case 0
  then have k: "k = 2 + unat (total_clusters fs)" by simp
  then have "of_nat k = 2 + total_clusters fs" by simp
  then show ?case by (simp add: find_free_loop_step fails_err)
next
  case (Suc m)
  then have k: "k < 2 + unat (total_clusters fs)" by simp
  then have "k < 2 ^ 32" using total_below_EOC by (simp add: EOC_def)
  then have uk: "unat (of_nat k :: u32) = k" by (simp add: unat_of_nat)
  have ut: "unat (2 + total_clusters fs) = 2 + unat (total_clusters fs)"
    using total_below_EOC by (subst unat_add_no_wrap) (simp_all add: EOC_def)
  have guard: "(of_nat k :: u32) < 2 + total_clusters fs"
    using k by (simp add: word_less_nat_alt uk ut)
  have valid: "valid_cluster fs (of_nat k)"
    using k Suc.prems(1) by (simp add: valid_cluster_def uk)
  have upt: "[k ..< 2 + unat (total_clusters fs)] = k # [Suc k ..< 2 + unat (total_clusters fs)]"
    using k by (simp add: upt_conv_Cons)
  from Suc.prems(3) have nz: "F (of_nat k) \<noteq> 0"
    and rest: "filter (\<lambda>c. F c = 0) (map of_nat [Suc k ..< 2 + unat (total_clusters fs)]) = []"
    unfolding upt by (simp_all split: if_splits)
  have "fails (vol F C) (if F (of_nat k) = 0 then ret (of_nat k) else find_free_loop fs (of_nat k + 1))
      (vol F C)"
    using Suc.hyps(1) [OF _ _ _ rest] Suc.hyps(2) Suc.prems(1) k nz by (simp add: add.commute)
  then show ?case
    using guard unfolding find_free_loop_step [of fs "of_nat k"]
    by (simp add: fails_bnd [OF read_fat_entry_runs [OF valid]])
qed

lemma find_free_cluster_runs:
  "free_list fs F = c # cs \<Longrightarrow> runs (vol F C) (find_free_cluster fs) c (vol F C)"
  using find_free_loop_runs [of 2 F c cs C]
  by (simp add: find_free_cluster_def free_list_def clusters_def)

lemma find_free_cluster_fails:
  "free_list fs F = [] \<Longrightarrow> fails (vol F C) (find_free_cluster fs) (vol F C)"
  using find_free_loop_fails [of 2 F C]
  by (simp add: find_free_cluster_def free_list_def clusters_def)

lemma free_list_valid: "x \<in> set (free_list fs F) \<Longrightarrow> valid_cluster fs x"
  using set_clusters [OF total_below_EOC] by (auto simp: free_list_def)

lemma distinct_free_list: "distinct (free_list fs F)"
  using distinct_clusters [OF total_below_EOC] by (simp add: free_list_def)

lemma free_list_mark:
  assumes "free_list fs F = c # cs" and "v \<noteq> 0"
  shows "free_list fs (F(c := v)) = cs"
proof -
  have "free_list fs (F(c := v)) = filter (\<lambda>x. x \<noteq> c) (free_list fs F)"
    using assms(2) by (auto simp: free_list_def intro: filter_cong)
  also have "\<dots> = cs"
    using distinct_free_list [of F] assms(1) by (auto simp: filter_id_conv)
  finally show ?thesis .
qed

lemma reserve_chain_runs:
  assumes "n \<le> length (free_list fs F)"
  shows "runs (vol F C) (reserve_chain fs n acc) (acc @ take n (free_list fs F))
    (vol (\<lambda>x. if x \<in> set (take n (free_list fs F)) then 0x0FFFFFFF else F x) C)"
  using assms
proof (induction n arbitrary: F acc)
  case 0
  then show ?case by (simp add: runs_ret)
next
  case (Suc n)
  then obtain c cs where free: "free_list fs F = c # cs" by (cases "free_list fs F") auto
  let ?F = "F(c := 0x0FFFFFFF)"
  have valid: "valid_cluster fs c" using free free_list_valid [of c F] by simp
  have free': "free_list fs ?F = cs" using free_list_mark [OF free, of "0x0FFFFFFF"] by simp
  have mark: "runs (vol F C) (write_fat_entry fs c (EOC OR 0x07)) () (vol ?F C)"
    using write_fat_entry_runs [OF valid, of F C "EOC OR 0x07"] by (simp add: EOC_def)
  have "(\<lambda>x. if x \<in> set (take n cs) then 0x0FFFFFFF else ?F x)
      = (\<lambda>x. if x \<in> set (take (Suc n) (c # cs)) then 0x0FFFFFFF else F x)"
    by auto
  then have rest: "runs (vol ?F C) (reserve_chain fs n (acc @ [c])) (acc @ take (Suc n) (free_list fs F))
      (vol (\<lambda>x. if x \<in> set (take (Suc n) (free_list fs F)) then 0x0FFFFFFF else F x) C)"
    using Suc.IH [of ?F "acc @ [c]"] Suc.prems free free' by (simp del: fun_upd_apply)
  show ?case
    unfolding reserve_chain.simps
    by (rule runs_bnd, rule find_free_cluster_runs [OF free], rule runs_bnd [OF mark rest])
qed

lemma reserve_chain_fails:
  assumes "length (free_list fs F) < n"
  shows "fails (vol F C) (reserve_chain fs n acc) (\<lambda>s. \<exists>F'. vol F' C s)"
  using assms
proof (induction n arbitrary: F acc)
  case (Suc n)
  show ?case
  proof (cases "free_list fs F")
    case Nil
    then have "fails (vol F C) (find_free_cluster fs) (\<lambda>s. \<exists>F'. vol F' C s)"
      using find_free_cluster_fails [OF Nil, of C] by (auto simp: fails_def)
    then show ?thesis by (simp add: fails_bnd_first)
  next
    case (Cons c cs)
    let ?F = "F(c := 0x0FFFFFFF)"
    have valid: "valid_cluster fs c" using Cons free_list_valid [of c F] by simp
    have "free_list fs ?F = cs" using free_list_mark [OF Cons, of "0x0FFFFFFF"] by simp
    then have "fails (vol ?F C) (reserve_chain fs n (acc @ [c])) (\<lambda>s. \<exists>F'. vol F' C s)"
      using Suc.prems Cons by (intro Suc.IH) (simp del: fun_upd_apply)
    moreover have "runs (vol F C) (write_fat_entry fs c (EOC OR 0x07)) () (vol ?F C)"
      using write_fat_entry_runs [OF valid, of F C "EOC OR 0x07"] by (simp add: EOC_def)
    ultimately show ?thesis
      using fails_bnd [OF find_free_cluster_runs [OF Cons]] fails_bnd by fastforce
  qed
qed simp

lemma valid_mask: "valid_cluster fs c \<Longrightarrow> c AND 0x0FFFFFFF = c"
proof -
  assume "valid_cluster fs c"
  then have "unat c < 2 ^ 28" using total_below_EOC by (simp add: valid_cluster_def EOC_def)
  then have "take_bit 28 c = c" 
    by (simp add: word_unat_eq_iff unsigned_take_bit_eq take_bit_nat_eq_self_iff)
  moreover have "c AND 0x0FFFFFFF = take_bit 28 c" by (simp add: take_bit_eq_mask mask_eq_exp_minus_1)
  ultimately show ?thesis by simp
qed

lemma link_chain_runs:
  assumes "\<And>x. x \<in> set cs \<Longrightarrow> valid_cluster fs x"
  shows "runs (vol F C) (link_chain fs cs) () (vol (link_fat F cs) C)"
  using assms
proof (induction cs arbitrary: F)
  case (Cons c cs)
  let ?next = "case cs of [] \<Rightarrow> EOC OR 0x07 | c' # _ \<Rightarrow> c'"
  let ?F = "F(c := (case cs of [] \<Rightarrow> 0x0FFFFFFF | c' # _ \<Rightarrow> c'))"
  have "?next AND 0x0FFFFFFF = (case cs of [] \<Rightarrow> 0x0FFFFFFF | c' # _ \<Rightarrow> c')"
    using Cons.prems valid_mask by (auto simp: EOC_def split: list.split)
  then have "runs (vol F C) (write_fat_entry fs c ?next) () (vol ?F C)"
    using write_fat_entry_runs [of c F C ?next] Cons.prems by simp
  then show ?case
    by (simp del: fun_upd_apply) (erule runs_bnd, rule Cons.IH, simp add: Cons.prems)
qed (simp add: runs_ret)

text \<open>\<open>alloc_chain\<close> takes the lowest free clusters and chains them.\<close>

lemma alloc_chain_runs:
  assumes "n \<noteq> 0" and "n \<le> FAT32_MAX_CHAIN" and "unat n \<le> length (free_list fs F)"
    and cs: "cs = take (unat n) (free_list fs F)"
  shows "runs (vol F C) (alloc_chain fs n) cs (vol (link_fat F cs) C)"
proof -
  let ?F = "\<lambda>x. if x \<in> set cs then 0x0FFFFFFF else F x"
  have valid: "valid_cluster fs x" if "x \<in> set cs" for x
    using that cs free_list_valid by (meson in_set_takeD)
  have "link_fat ?F cs = link_fat F cs" by (rule link_fat_absorb) simp
  then have link: "runs (vol ?F C) (link_chain fs cs) () (vol (link_fat F cs) C)"
    using link_chain_runs [OF valid, of cs ?F C] by (metis (lifting))
  have "runs (vol F C) (reserve_chain fs (unat n) []) cs (vol ?F C)"
    using reserve_chain_runs [OF assms(3), of C "[]"] by (simp add: cs)
  then have "runs (vol F C) (bnd (reserve_chain fs (unat n) []) (\<lambda>chn.
      bnd (link_chain fs chn) (\<lambda>_. ret chn))) cs (vol (link_fat F cs) C)"
    by (rule runs_bnd) (rule runs_bnd [OF link runs_ret])
  with assms(1, 2) show ?thesis by (simp add: alloc_chain_def not_less [symmetric])
qed

lemma alloc_chain_fails:
  assumes "length (free_list fs F) < unat n"
  shows "fails (vol F C) (alloc_chain fs n) (\<lambda>s. \<exists>F'. vol F' C s)"
proof (cases "n = 0 \<or> FAT32_MAX_CHAIN < n")
  case True
  then show ?thesis by (auto simp: alloc_chain_def fails_def err_apply)
next
  case False
  with fails_bnd_first [OF reserve_chain_fails [OF assms, where acc = "[]" and C = C]] show ?thesis
    by (simp add: alloc_chain_def)
qed

end

section \<open>Freeing a chain\<close>

text \<open>The clusters a walk from \<open>c\<close> visits, whether or not it ends.\<close>

inductive reach :: "'s canboot_fat32 \<Rightarrow> (u32 \<Rightarrow> u32) \<Rightarrow> u32 \<Rightarrow> u32 \<Rightarrow> bool"
  for fs :: "'s canboot_fat32" and F :: "u32 \<Rightarrow> u32" where
  reach_here: "valid_cluster fs c \<Longrightarrow> reach fs F c c"
| reach_next: "valid_cluster fs c \<Longrightarrow> reach fs F (F c) x \<Longrightarrow> reach fs F c x"

inductive_cases reachE: "reach fs F c x"

text \<open>Every entry of the FAT is a valid cluster, or a value at which the walks stop.\<close>

definition walk_stops :: "u32 \<Rightarrow> bool" where
  "walk_stops c \<longleftrightarrow> \<not> (2 \<le> c \<and> c < EOC)"

definition fat_closed :: "'s canboot_fat32 \<Rightarrow> (u32 \<Rightarrow> u32) \<Rightarrow> bool" where
  "fat_closed fs F \<longleftrightarrow> (\<forall>c. valid_cluster fs c \<longrightarrow> valid_cluster fs (F c) \<or> walk_stops (F c))"

lemma reach_valid: "reach fs F c x \<Longrightarrow> valid_cluster fs c \<and> valid_cluster fs x"
  by (induction rule: reach.induct) auto

lemma not_reach_0: "\<not> reach fs F 0 x"
  using reach_valid [of fs F 0 x] by (auto simp: valid_cluster_def)

lemma reach_zeroed_sub: "reach fs (F(c := 0)) a x \<Longrightarrow> reach fs F a x"
proof (induction rule: reach.induct)
  case (reach_next a x)
  then show ?case using not_reach_0 by (cases "a = c") (auto intro: reach.reach_next)
qed (rule reach_here)

lemma reach_split:
  "reach fs F a x \<Longrightarrow> reach fs (F(c := 0)) a x \<or> x = c \<or> reach fs (F(c := 0)) (F c) x"
proof (induction rule: reach.induct)
  case (reach_next a x)
  show ?case
  proof (cases "a = c")
    case True
    then show ?thesis using reach_next.IH by blast
  next
    case False
    then have "(F(c := 0)) a = F a" by simp
    then show ?thesis
      using reach_next.IH reach.reach_next [OF reach_next.hyps(1), of "F(c := 0)" x] by metis
  qed
qed (blast intro: reach_here)

lemma reach_iff:
  assumes "valid_cluster fs c"
  shows "reach fs F c x \<longleftrightarrow> x = c \<or> reach fs (F(c := 0)) (F c) x"
proof
  assume "reach fs F c x"
  then show "x = c \<or> reach fs (F(c := 0)) (F c) x"
    by (cases rule: reach.cases) (use reach_split in blast)+
next
  assume "x = c \<or> reach fs (F(c := 0)) (F c) x"
  then show "reach fs F c x"
    using assms reach_zeroed_sub by (blast intro: reach.intros)
qed

lemma reach_chain:
  assumes "2 + unat (total_clusters fs) \<le> unat EOC" and "chain fs F c cs"
  shows "reach fs F c x \<longleftrightarrow> x \<in> set cs"
  using assms(2)
proof (induction cs arbitrary: c)
  case Nil
  then show ?case using reach_valid valid_not_EOC [OF assms(1)] by fastforce
next
  case (Cons a cs)
  then have "reach fs F (F a) x \<longleftrightarrow> x \<in> set cs" and "a = c" and "valid_cluster fs c" by auto
  then show ?case by (auto intro: reach.intros elim: reachE)
qed

lemma free_chain_step:
  "free_chain fs cur = (if 2 \<le> cur \<and> cur < EOC then
     bnd (read_fat_entry fs cur) (\<lambda>next. bnd (write_fat_entry fs cur 0) (\<lambda>_. free_chain fs next))
     else ret ())"
  by (rule ext) (simp add: free_chain.simps [of fs cur])

context fat_volume begin

lemma valid_not_stop: "valid_cluster fs c \<Longrightarrow> \<not> walk_stops c"
  using valid_below_EOC by (simp add: walk_stops_def)

lemma write_0_runs:
  "valid_cluster fs c \<Longrightarrow> runs (vol F C) (write_fat_entry fs c 0) () (vol (F(c := 0)) C)"
  using write_fat_entry_runs [of c F C 0] by simp

text \<open>Freeing returns for every closed FAT, cyclic chains included, since a walk that comes back
  to a cluster finds the entry it has just cleared.\<close>

lemma free_chain_reach:
  assumes "fat_closed fs F" and "valid_cluster fs c \<or> walk_stops c"
  shows "runs (vol F C) (free_chain fs c) () (vol (\<lambda>x. if reach fs F c x then 0 else F x) C)"
  using assms
proof (induction "card {x. valid_cluster fs x \<and> F x \<noteq> 0}" arbitrary: F c rule: less_induct)
  case less
  show ?case
  proof (cases "walk_stops c")
    case True
    then have "\<not> reach fs F c x" for x using reach_valid [of fs F c x] valid_not_stop by blast
    moreover have "free_chain fs c = ret ()"
      using True unfolding free_chain_step [of fs c] walk_stops_def by (rule if_not_P)
    ultimately show ?thesis by (simp add: runs_ret)
  next
    case False
    with less.prems have c: "valid_cluster fs c" by blast
    let ?F = "F(c := 0)"
    have tail: "runs (vol ?F C) (free_chain fs (F c)) ()
        (vol (\<lambda>x. if reach fs ?F (F c) x then 0 else ?F x) C)"
    proof (cases "F c = 0")
      case True
      then have "free_chain fs (F c) = ret ()"
        by (subst free_chain_step) simp
      moreover have "(\<lambda>x. if reach fs ?F (F c) x then 0 else ?F x) = ?F"
        unfolding True by (rule ext) (simp add: not_reach_0 del: fun_upd_apply)
      ultimately show ?thesis by (simp add: runs_ret del: fun_upd_apply)
    next
      case False
      then have "{x. valid_cluster fs x \<and> ?F x \<noteq> 0} \<subset> {x. valid_cluster fs x \<and> F x \<noteq> 0}"
        using c by auto
      then have "card {x. valid_cluster fs x \<and> ?F x \<noteq> 0} < card {x. valid_cluster fs x \<and> F x \<noteq> 0}"
        by (intro psubset_card_mono) simp_all
      moreover have "fat_closed fs ?F"
        using less.prems(1) by (auto simp: fat_closed_def walk_stops_def)
      moreover have "valid_cluster fs (F c) \<or> walk_stops (F c)"
        using less.prems(1) c by (simp add: fat_closed_def)
      ultimately show ?thesis by (rule less.hyps)
    qed
    have same: "(\<lambda>x. if reach fs ?F (F c) x then 0 else ?F x) = (\<lambda>x. if reach fs F c x then 0 else F x)"
      using reach_iff [OF c, of F] by (auto simp: fun_eq_iff)
    have guard: "2 \<le> c \<and> c < EOC" using valid_below_EOC [OF c] by simp
    show ?thesis
      unfolding free_chain_step [of fs c] if_P [OF guard]
      by (rule runs_bnd [OF read_fat_entry_runs [OF c]], rule runs_bnd [OF write_0_runs [OF c]])
        (use tail same in metis)
  qed
qed

lemma free_chain_runs:
  assumes "chain fs F c cs"
  shows "runs (vol F C) (free_chain fs c) () (vol (\<lambda>x. if x \<in> set cs then 0 else F x) C)"
  using assms
proof (induction cs arbitrary: F c)
  case Nil
  then have "free_chain fs c = ret ()"
    by (subst free_chain_step) auto
  then show ?case by (simp add: runs_ret)
next
  case (Cons a cs)
  from chain_distinct [OF total_below_EOC Cons.prems] have a: "a \<notin> set cs" by simp
  from Cons.prems have c: "valid_cluster fs c" and ac: "a = c" and "chain fs F (F c) cs" by auto
  then have "chain fs (F(c := 0)) (F c) cs"
    using a chain_cong [of cs "F(c := 0)" F] by (metis fun_upd_other)
  note ih = Cons.IH [OF this]
  have "(\<lambda>x. if x \<in> set cs then 0 else (F(c := 0)) x) = (\<lambda>x. if x \<in> set (a # cs) then 0 else F x)"
    using ac by auto
  with ih have tail: "runs (vol (F(c := 0)) C) (free_chain fs (F c)) ()
      (vol (\<lambda>x. if x \<in> set (a # cs) then 0 else F x) C)" by metis
  have guard: "2 \<le> c \<and> c < EOC" using valid_below_EOC [OF c] by simp
  show ?case
    unfolding free_chain_step [of fs c] if_P [OF guard]
    by (rule runs_bnd [OF read_fat_entry_runs [OF c]], rule runs_bnd [OF write_0_runs [OF c] tail])
qed

end

section \<open>Data through a chain\<close>

lemma copy_chain_step:
  "copy_chain fs to_read cluster copied buf =
    (if copied < to_read \<and> 2 \<le> cluster \<and> cluster < EOC then
       bnd (read_cluster fs cluster) (\<lambda>tmp.
       let chunk = (if to_read < copied + bytes_per_cluster fs then to_read - copied
                    else bytes_per_cluster fs);
           buf' = put_bytes buf (unat copied) (take (unat chunk) tmp) in
       bnd (read_fat_entry fs cluster) (\<lambda>next.
       copy_chain fs to_read next (copied + chunk) buf'))
     else ret (copied, buf))"
  by (rule ext) (simp add: copy_chain.simps [of fs to_read cluster copied buf])

context fat_volume begin

lemma runs_volI:
  assumes "(\<And>x. valid_cluster fs x \<Longrightarrow> length (C x) = unat (bytes_per_cluster fs)) \<Longrightarrow> runs (vol F C) m v Q"
  shows "runs (vol F C) m v Q"
proof (rule runsI)
  fix s assume s: "vol F C s"
  have "runs (vol F C) m v Q" by (rule assms) (rule length_cluster [OF s])
  with s show "\<exists>s'. m s = Some (Ok v, s') \<and> Q s'" by (auto simp: runs_def)
qed

lemma write_data_runs:
  assumes "\<And>x. x \<in> set cs \<Longrightarrow> valid_cluster fs x" and "unat remaining = length src"
  shows "runs (vol F C) (write_data fs cs src remaining) ()
    (vol F (data_in (unat (bytes_per_cluster fs)) C cs src))"
  using assms
proof (induction cs arbitrary: C src remaining)
  case Nil
  then show ?case by (simp add: runs_ret)
next
  case (Cons c cs)
  let ?n = "unat (bytes_per_cluster fs)"
  let ?chunk = "if remaining < bytes_per_cluster fs then remaining else bytes_per_cluster fs"
  have chunk: "unat ?chunk = min (length src) ?n"
    using Cons.prems(2) by (auto simp: word_less_nat_alt)
  let ?tmp = "put_bytes (replicate ?n 0) 0 (take (unat ?chunk) src)"
  have tmp: "?tmp = take ?n src @ replicate (?n - length src) 0"
    unfolding chunk by (cases "length src \<le> ?n") (simp_all add: put_bytes_def)
  have "runs (vol F C) (write_cluster fs c ?tmp) () (vol F (C(c := ?tmp)))"
    by (rule write_cluster_runs) (use Cons.prems(1) in \<open>simp_all add: tmp\<close>)
  moreover have "runs (vol F (C(c := ?tmp))) (write_data fs cs (drop (unat ?chunk) src) (remaining - ?chunk)) ()
      (vol F (data_in ?n (C(c := ?tmp)) cs (drop (unat ?chunk) src)))"
  proof (rule Cons.IH)
    have "?chunk \<le> remaining" by (simp add: linorder_not_less)
    then show "unat (remaining - ?chunk) = length (drop (unat ?chunk) src)"
      using Cons.prems(2) by (simp add: unat_sub_no_wrap)
  qed (use Cons.prems in simp)
  moreover have "drop (unat ?chunk) src = drop ?n src"
    unfolding chunk by (cases "length src \<le> ?n") simp_all
  ultimately show ?case
    unfolding write_data.simps Let_def data_in.simps tmp by (metis (no_types, lifting) runs_bnd)
qed

lemma copy_chain_runs:
  assumes "chain fs F c cs" and "unat to_read \<le> 2 ^ 31" and "copied \<le> to_read"
    and "unat to_read \<le> length buf"
    and "\<And>x. valid_cluster fs x \<Longrightarrow> length (C x) = unat (bytes_per_cluster fs)"
    and n: "n = min (unat to_read - unat copied) (length cs * unat (bytes_per_cluster fs))"
  shows "runs (vol F C) (copy_chain fs to_read c copied buf)
    (copied + of_nat n, put_bytes buf (unat copied) (take n (concat (map C cs)))) (vol F C)"
  using assms
proof (induction cs arbitrary: c copied buf n)
  case Nil
  then have stop: "\<not> (copied < to_read \<and> 2 \<le> c \<and> c < EOC)" by auto
  from Nil.prems show ?case
    unfolding copy_chain_step [of fs to_read c] if_not_P [OF stop] by (simp add: runs_ret)
next
  case (Cons a cs)
  let ?b = "unat (bytes_per_cluster fs)"
  from Cons.prems(1) have c: "valid_cluster fs c" and ac: "a = c" and rest: "chain fs F (F c) cs" by auto
  show ?case
  proof (cases "copied < to_read")
    case False
    with Cons.prems(3) have "copied = to_read" by simp
    with Cons.prems(6) show ?thesis
      unfolding copy_chain_step [of fs to_read c] by (simp add: runs_ret)
  next
    case True
    then have guard: "copied < to_read \<and> 2 \<le> c \<and> c < EOC" using valid_below_EOC [OF c] by simp
    have lt: "unat copied < unat to_read" using True by (simp add: word_less_nat_alt)
    have sum: "unat (copied + bytes_per_cluster fs) = unat copied + ?b"
      using lt Cons.prems(2) bpc_max by (intro unat_add_no_wrap) simp
    let ?chunk = "if to_read < copied + bytes_per_cluster fs then to_read - copied else bytes_per_cluster fs"
    have chunk: "unat ?chunk = min (unat to_read - unat copied) ?b"
      using True sum unat_sub_no_wrap [of copied to_read] by (auto simp: word_less_nat_alt word_le_nat_alt)
    have copied': "unat (copied + ?chunk) = unat copied + unat ?chunk"
      using lt Cons.prems(2) chunk by (intro unat_add_no_wrap) simp
    let ?buf = "put_bytes buf (unat copied) (take (unat ?chunk) (C c))"
    have len_c: "length (C c) = ?b" using Cons.prems(5) c by simp
    then have take_len: "length (take (unat ?chunk) (C c)) = unat ?chunk" by (simp add: chunk)
    have fits: "unat copied + unat ?chunk \<le> length buf" using Cons.prems(4) lt chunk by simp
    let ?m = "min (unat to_read - unat (copied + ?chunk)) (length cs * ?b)"
    have n: "n = unat ?chunk + ?m"
      using Cons.prems(6) lt unfolding copied' chunk by (auto simp: min_def)
    have step: "runs (vol F C) (copy_chain fs to_read (F c) (copied + ?chunk) ?buf)
        (copied + ?chunk + of_nat ?m, put_bytes ?buf (unat (copied + ?chunk)) (take ?m (concat (map C cs))))
        (vol F C)"
    proof (rule Cons.IH [OF rest Cons.prems(2)])
      show "copied + ?chunk \<le> to_read"
        unfolding word_le_nat_alt copied' using lt chunk by simp
      show "unat to_read \<le> length ?buf" using fits Cons.prems(4) take_len by simp
    qed (use Cons.prems(5) in auto)
    have "length (concat (map C cs)) = length cs * ?b"
      using Cons.prems(5) chain_valid [OF rest] by (induction cs) auto
    then have m_len: "length (take ?m (concat (map C cs))) = ?m" by simp
    have fits': "unat copied + length (take (unat ?chunk) (C c)) + length (take ?m (concat (map C cs)))
        \<le> length buf"
      unfolding take_len m_len using Cons.prems(4, 6) lt n by simp
    have split: "take n (concat (map C (a # cs))) = take (unat ?chunk) (C c) @ take ?m (concat (map C cs))"
    proof (cases "unat ?chunk = ?b")
      case True
      then show ?thesis unfolding n True by (simp add: ac len_c)
    next
      case False
      then have "unat ?chunk = unat to_read - unat copied" and "unat ?chunk < ?b"
        unfolding chunk by (simp_all add: min_def split: if_splits)
      then have "?m = 0" unfolding copied' by simp
      with \<open>unat ?chunk < ?b\<close> show ?thesis unfolding n by (simp add: ac len_c)
    qed
    have buf: "put_bytes ?buf (unat (copied + ?chunk)) (take ?m (concat (map C cs)))
        = put_bytes buf (unat copied) (take n (concat (map C (a # cs))))"
      unfolding split using put_bytes_append [OF fits'] by (simp only: take_len copied')
    have sum': "copied + ?chunk + of_nat ?m = copied + of_nat n"
      unfolding n by simp
    show ?thesis
      unfolding copy_chain_step [of fs to_read c] if_P [OF guard] Let_def
      by (rule runs_bnd [OF read_cluster_runs [OF c]], rule runs_bnd [OF read_fat_entry_runs [OF c]])
        (rule step [unfolded buf sum'])
  qed
qed

end

end
