(* ===== verification/Fat32_Dirs.thy ===== *)
theory Fat32_Dirs
  imports Fat32_Chains
begin

text \<open>
  Directories of \<open>fs/fat32.c\<close> as the list of their slots, in chain order: what a lookup finds, where
  a new entry goes, and how writing, replacing or deleting one entry changes later lookups.
\<close>

section \<open>One entry in a cluster\<close>

lemma dirent_at_cong:
  assumes "\<And>k. k < 32 \<Longrightarrow> byte_at buf (i * 32 + k) = byte_at buf' (i * 32 + k)"
  shows "dirent_at buf i = dirent_at buf' i"
proof -
  have g16: "get_le16 buf (i * 32 + k) = get_le16 buf' (i * 32 + k)" if "k + 1 < 32" for k
    using assms [of k] assms [of "k + 1"] that by (simp add: get_le16_def)
  have g32: "get_le32 buf (i * 32 + k) = get_le32 buf' (i * 32 + k)" if "k + 3 < 32" for k
    using assms [of k] assms [of "k + 1"] assms [of "k + 2"] assms [of "k + 3"] that
    by (simp add: get_le32_def add.assoc)
  show ?thesis
    by (simp add: dirent_at_def DIR_ENTRY_SIZE_def Let_def g16 g32 assms)
qed

lemma length_dirent_bytes: "length (de_name e) = 11 \<Longrightarrow> length (dirent_bytes e) = 32"
  by (simp add: dirent_bytes_def)

lemma dirent_at_put_same:
  assumes "length (de_name e) = 11" and "i * 32 + 32 \<le> length buf"
  shows "dirent_at (put_bytes buf (i * DIR_ENTRY_SIZE) (dirent_bytes e)) i = e"
proof -
  obtain n0 n1 n2 n3 n4 n5 n6 n7 n8 n9 n10
    where name: "de_name e = [n0, n1, n2, n3, n4, n5, n6, n7, n8, n9, n10]"
    using assms(1) by (auto simp: numeral_eq_Suc length_Suc_conv)
  let ?buf = "put_bytes buf (i * 32) (dirent_bytes e)"
  have at: "byte_at ?buf (i * 32 + k) = dirent_bytes e ! k" if "k < 32" for k
    using that assms length_dirent_bytes [OF assms(1)] by (simp add: byte_at_put_inside)
  have g16: "get_le16 ?buf (i * 32 + k)
      = ucast (dirent_bytes e ! k) OR push_bit 8 (ucast (dirent_bytes e ! (k + 1)))"
    if "k + 1 < 32" for k
    using at [of k] at [of "k + 1"] that by (simp add: get_le16_def)
  have g32: "get_le32 ?buf (i * 32 + k)
      = ucast (dirent_bytes e ! k) OR push_bit 8 (ucast (dirent_bytes e ! (k + 1)))
        OR push_bit 16 (ucast (dirent_bytes e ! (k + 2))) OR push_bit 24 (ucast (dirent_bytes e ! (k + 3)))"
    if "k + 3 < 32" for k
    using at [of k] at [of "k + 1"] at [of "k + 2"] at [of "k + 3"] that
    by (simp add: get_le32_def add.assoc)
  have "map (\<lambda>k. byte_at ?buf (i * 32 + k)) [0 ..< 11] = de_name e"
    by (rule nth_equalityI) (simp_all add: assms(1) at, simp add: dirent_bytes_def nth_append assms(1))
  then show ?thesis
    by (simp add: dirent_at_def DIR_ENTRY_SIZE_def Let_def at g16 g32)
      (simp add: dirent_bytes_def name le16_def le32_def byte_simps)
qed

lemma dirent_at_put_other:
  assumes "j \<noteq> i" and "length (de_name e) = 11" and "i * 32 + 32 \<le> length buf"
  shows "dirent_at (put_bytes buf (i * DIR_ENTRY_SIZE) (dirent_bytes e)) j = dirent_at buf j"
proof (rule dirent_at_cong)
  fix k :: nat assume "k < 32"
  with assms(1) have "j * 32 + k < i * 32 \<or> i * 32 + 32 \<le> j * 32 + k" by linarith
  with assms show "byte_at (put_bytes buf (i * DIR_ENTRY_SIZE) (dirent_bytes e)) (j * 32 + k)
      = byte_at buf (j * 32 + k)"
    by (simp add: DIR_ENTRY_SIZE_def byte_at_put_outside length_dirent_bytes)
qed

text \<open>Setting the first byte of an entry to \<open>0xE5\<close>.\<close>

definition erased :: "fat_dir \<Rightarrow> fat_dir" where
  "erased e = e\<lparr> de_name := (de_name e)[0 := 0xE5] \<rparr>"

lemma byte_at_update: "i < length buf \<Longrightarrow> byte_at (buf[i := v]) j = (if j = i then v else byte_at buf j)"
  by (auto simp: byte_at_def)

lemma dirent_at_erase_same:
  "i * 32 + 32 \<le> length buf \<Longrightarrow> dirent_at (buf[i * DIR_ENTRY_SIZE := 0xE5]) i = erased (dirent_at buf i)"
  by (simp add: dirent_at_def erased_def DIR_ENTRY_SIZE_def Let_def get_le16_def get_le32_def
      byte_at_update upt_conv_Cons)

lemma dirent_at_erase_other:
  "j \<noteq> i \<Longrightarrow> i * 32 + 32 \<le> length buf \<Longrightarrow> dirent_at (buf[i * DIR_ENTRY_SIZE := 0xE5]) j = dirent_at buf j"
  by (rule dirent_at_cong) (auto simp: byte_at_update DIR_ENTRY_SIZE_def)

lemma make_entry_fields [simp]:
  "de_name (make_entry n a c z) = n" "de_attr (make_entry n a c z) = a" "de_size (make_entry n a c z) = z"
  by (simp_all add: make_entry_def)

lemma entry_first_cluster_make [simp]: "entry_first_cluster (make_entry n a c z) = c"
proof -
  have "push_bit 16 (ucast (ucast (drop_bit 16 c) :: u16)) OR ucast (ucast (c AND 0xFFFF) :: u16) = (c :: u32)"
  proof (rule bit_word_eqI)
    fix k assume "k < LENGTH(32)"
    then consider "k < 16" | "16 \<le> k" "k < 32" by fastforce
    moreover have "bit (0xFFFF :: u32) k \<longleftrightarrow> k < 16"
      using bit_mask_iff [of 16 k, where ?'a = "32 word"] \<open>k < LENGTH(32)\<close>
      by (simp add: mask_eq_exp_minus_1)
    ultimately show "bit (push_bit 16 (ucast (ucast (drop_bit 16 c) :: u16))
        OR ucast (ucast (c AND 0xFFFF) :: u16) :: u32) k = bit c k"
      by cases (auto simp: bit_simps)
  qed
  then show ?thesis by (simp add: entry_first_cluster_def make_entry_def)
qed

section \<open>A directory as the list of its slots\<close>

text \<open>A slot is an entry with the cluster and the index it stands at.\<close>

type_synonym slot = "fat_dir \<times> u32 \<times> nat"

definition cluster_slots :: "'s canboot_fat32 \<Rightarrow> (u32 \<Rightarrow> bytes) \<Rightarrow> u32 \<Rightarrow> slot list" where
  "cluster_slots fs C c = map (\<lambda>i. (dirent_at (C c) i, c, i)) [0 ..< dir_entries fs]"

definition dir_slots :: "'s canboot_fat32 \<Rightarrow> (u32 \<Rightarrow> bytes) \<Rightarrow> u32 list \<Rightarrow> slot list" where
  "dir_slots fs C cs = concat (map (cluster_slots fs C) cs)"

definition unused :: "slot \<Rightarrow> bool" where
  "unused sl \<longleftrightarrow> name0 (fst sl) = 0 \<or> name0 (fst sl) = 0xE5"

definition not_end :: "slot \<Rightarrow> bool" where
  "not_end sl \<longleftrightarrow> name0 (fst sl) \<noteq> 0"

definition visible :: "slot \<Rightarrow> bool" where
  "visible sl \<longleftrightarrow> \<not> unused sl \<and> de_attr (fst sl) \<noteq> ATTR_LFN \<and> de_attr (fst sl) AND ATTR_VOLUME_ID = 0"

text \<open>The first visible entry of a name, in front of the end marker.\<close>

definition lookup :: "bytes \<Rightarrow> slot list \<Rightarrow> slot option" where
  "lookup t sls = find (\<lambda>sl. visible sl \<and> de_name (fst sl) = t) (takeWhile not_end sls)"

definition free_slot :: "slot list \<Rightarrow> slot option" where
  "free_slot sls = find unused sls"

definition only_dots :: "slot list \<Rightarrow> bool" where
  "only_dots sls \<longleftrightarrow> list_all (\<lambda>sl. unused sl \<or> de_attr (fst sl) = ATTR_LFN \<or> is_dot_entry (fst sl))
     (takeWhile not_end sls)"

definition set_slot :: "u32 \<Rightarrow> nat \<Rightarrow> fat_dir \<Rightarrow> slot list \<Rightarrow> slot list" where
  "set_slot c i e sls = map (\<lambda>sl. if snd sl = (c, i) then (e, c, i) else sl) sls"

text \<open>Nothing but end markers follows the end marker, as mkfs, mkdir and directory growth leave it.\<close>

definition tidy :: "slot list \<Rightarrow> bool" where
  "tidy sls \<longleftrightarrow> list_all (\<lambda>sl. \<not> not_end sl) (dropWhile not_end sls)"

subsection \<open>Updating one slot\<close>

lemma lookup_simps:
  "lookup t [] = None"
  "lookup t (sl # sls) = (if \<not> not_end sl then None
     else if visible sl \<and> de_name (fst sl) = t then Some sl else lookup t sls)"
  by (simp_all add: lookup_def)

lemma lookup_append:
  "\<forall>y \<in> set pre. not_end y \<and> \<not> (visible y \<and> de_name (fst y) = t) \<Longrightarrow>
     lookup t (pre @ sls) = lookup t sls"
  by (induction pre) (auto simp: lookup_simps)

lemma lookup_prefix_cong:
  "lookup t xs = lookup t ys \<Longrightarrow> lookup t (pre @ xs) = lookup t (pre @ ys)"
  by (induction pre) (simp_all add: lookup_simps)

lemma lookup_SomeE:
  assumes "lookup t sls = Some x"
  obtains pre post where "sls = pre @ x # post"
    and "\<forall>y \<in> set pre. not_end y \<and> \<not> (visible y \<and> de_name (fst y) = t)"
    and "not_end x" and "visible x" and "de_name (fst x) = t"
proof -
  have "\<exists>pre post. sls = pre @ x # post
      \<and> (\<forall>y \<in> set pre. not_end y \<and> \<not> (visible y \<and> de_name (fst y) = t))
      \<and> not_end x \<and> visible x \<and> de_name (fst x) = t"
    using assms
  proof (induction sls)
    case (Cons y sls)
    show ?case
    proof (cases "visible y \<and> de_name (fst y) = t")
      case True
      with Cons.prems have "x = y" and "not_end y" by (auto simp: lookup_simps split: if_splits)
      with True show ?thesis by (intro exI [of _ "[]"] exI [of _ sls]) simp
    next
      case False
      with Cons.prems have "lookup t sls = Some x" and y: "not_end y"
        by (auto simp: lookup_simps split: if_splits)
      then obtain pre post where "sls = pre @ x # post"
        and "\<forall>y \<in> set pre. not_end y \<and> \<not> (visible y \<and> de_name (fst y) = t)"
        and "not_end x \<and> visible x \<and> de_name (fst x) = t"
        using Cons.IH by blast
      with False y show ?thesis by (intro exI [of _ "y # pre"] exI [of _ post]) auto
    qed
  qed (simp add: lookup_simps)
  then show ?thesis using that by blast
qed

lemma free_slot_SomeE:
  assumes "free_slot sls = Some x"
  obtains pre post where "sls = pre @ x # post" and "\<forall>y \<in> set pre. \<not> unused y" and "unused x"
proof -
  have "\<exists>pre post. sls = pre @ x # post \<and> (\<forall>y \<in> set pre. \<not> unused y) \<and> unused x"
    using assms unfolding free_slot_def
  proof (induction sls)
    case (Cons y sls)
    show ?case
    proof (cases "unused y")
      case True
      with Cons.prems show ?thesis by (intro exI [of _ "[]"] exI [of _ sls]) simp
    next
      case False
      with Cons obtain pre post where "sls = pre @ x # post" "\<forall>y \<in> set pre. \<not> unused y" "unused x"
        by auto
      with False show ?thesis by (intro exI [of _ "y # pre"] exI [of _ post]) auto
    qed
  qed simp
  then show ?thesis using that by blast
qed

lemma used_not_end: "\<not> unused y \<Longrightarrow> not_end y"
  by (simp add: unused_def not_end_def)

lemma visible_not_end: "visible y \<Longrightarrow> not_end y"
  by (simp add: visible_def used_not_end)

lemma set_slot_split:
  assumes "distinct (map snd (pre @ (e0, c, i) # post))"
  shows "set_slot c i e (pre @ (e0, c, i) # post) = pre @ (e, c, i) # post"
proof -
  have "map (\<lambda>sl. if snd sl = (c, i) then (e, c, i) else sl) xs = xs" if "(c, i) \<notin> snd ` set xs" for xs
    using that by (induction xs) auto
  with assms show ?thesis by (simp add: set_slot_def)
qed

text \<open>An entry written into the first unused slot is found, if its name was not there.\<close>

lemma lookup_insert:
  assumes "distinct (map snd sls)" and "free_slot sls = Some (e0, c, i)" and "lookup t sls = None"
    and "visible (e, c, i)" and "de_name e = t"
  shows "lookup t (set_slot c i e sls) = Some (e, c, i)"
proof -
  obtain pre post where sls: "sls = pre @ (e0, c, i) # post" and pre: "\<forall>y \<in> set pre. \<not> unused y"
    using free_slot_SomeE [OF assms(2)] by metis
  have "\<not> (visible y \<and> de_name (fst y) = t)" if "y \<in> set pre" for y
  proof
    assume "visible y \<and> de_name (fst y) = t"
    then have "find (\<lambda>sl. visible sl \<and> de_name (fst sl) = t) pre \<noteq> None"
      using that unfolding find_None_iff by blast
    moreover have "takeWhile not_end sls = pre @ takeWhile not_end ((e0, c, i) # post)"
      using pre used_not_end unfolding sls by (intro takeWhile_append2) blast
    ultimately show False
      using assms(3) unfolding lookup_def find_None_iff by fastforce
  qed
  with pre used_not_end have "lookup t (pre @ (e, c, i) # post) = lookup t ((e, c, i) # post)"
    by (intro lookup_append) blast
  moreover have "set_slot c i e sls = pre @ (e, c, i) # post"
    using set_slot_split assms(1) unfolding sls by blast
  ultimately show ?thesis
    using assms(4, 5) visible_not_end by (simp add: lookup_simps)
qed

lemma lookup_replace:
  assumes "distinct (map snd sls)" and "lookup t sls = Some (e0, c, i)"
    and "visible (e, c, i)" and "de_name e = t"
  shows "lookup t (set_slot c i e sls) = Some (e, c, i)"
proof -
  obtain pre post where sls: "sls = pre @ (e0, c, i) # post"
    and pre: "\<forall>y \<in> set pre. not_end y \<and> \<not> (visible y \<and> de_name (fst y) = t)"
    using lookup_SomeE [OF assms(2)] by metis
  have "set_slot c i e sls = pre @ (e, c, i) # post"
    using set_slot_split assms(1) unfolding sls by blast
  with lookup_append [OF pre, of "(e, c, i) # post"] assms(3, 4) visible_not_end show ?thesis
    by (simp add: lookup_simps)
qed

text \<open>Other names are found as before.\<close>

lemma lookup_insert_other:
  assumes "distinct (map snd sls)" and "free_slot sls = Some (e0, c, i)" and "tidy sls"
    and "not_end (e, c, i)" and "de_name e \<noteq> t"
  shows "lookup t (set_slot c i e sls) = lookup t sls"
proof -
  obtain pre post where sls: "sls = pre @ (e0, c, i) # post" and pre: "\<forall>y \<in> set pre. \<not> unused y"
    and x: "unused (e0, c, i)"
    using free_slot_SomeE [OF assms(2)] by metis
  have "lookup t ((e, c, i) # post) = lookup t ((e0, c, i) # post)"
  proof (cases "not_end (e0, c, i)")
    case True
    then show ?thesis using x assms(4, 5) by (simp add: lookup_simps visible_def)
  next
    case False
    have "dropWhile not_end sls = (e0, c, i) # post"
      using pre False used_not_end unfolding sls by (subst dropWhile_append2) auto
    with assms(3) have "\<forall>y \<in> set post. \<not> not_end y" by (auto simp: tidy_def list_all_iff)
    then have "lookup t post = None" by (cases post) (auto simp: lookup_simps)
    with False assms(4, 5) show ?thesis by (simp add: lookup_simps)
  qed
  from lookup_prefix_cong [OF this] show ?thesis
    using set_slot_split assms(1) unfolding sls by metis
qed

lemma lookup_replace_other:
  assumes "distinct (map snd sls)" and "lookup t sls = Some (e0, c, i)"
    and "not_end (e, c, i)" and "visible (e, c, i) \<longrightarrow> de_name e \<noteq> t'" and "t' \<noteq> t"
  shows "lookup t' (set_slot c i e sls) = lookup t' sls"
proof -
  obtain pre post where sls: "sls = pre @ (e0, c, i) # post"
    and x: "not_end (e0, c, i)" "de_name (fst (e0, c, i)) = t"
    using lookup_SomeE [OF assms(2)] by metis
  have "lookup t' ((e, c, i) # post) = lookup t' ((e0, c, i) # post)"
    using x assms(3-5) by (auto simp: lookup_simps)
  from lookup_prefix_cong [OF this] show ?thesis
    using set_slot_split assms(1) unfolding sls by metis
qed

text \<open>Erasing the only entry of a name makes it disappear.\<close>

definition unique_name :: "bytes \<Rightarrow> slot list \<Rightarrow> bool" where
  "unique_name t sls \<longleftrightarrow>
     length (filter (\<lambda>sl. visible sl \<and> de_name (fst sl) = t) (takeWhile not_end sls)) \<le> 1"

lemma erased_slot: "length (de_name e) = 11 \<Longrightarrow> unused (erased e, p) \<and> not_end (erased e, p)"
  by (cases "de_name e") (simp_all add: unused_def not_end_def erased_def name0_def byte_at_def)

lemma lookup_erase:
  assumes "distinct (map snd sls)" and "lookup t sls = Some (e0, c, i)" and "unique_name t sls"
    and "length (de_name e0) = 11"
  shows "lookup t (set_slot c i (erased e0) sls) = None"
proof -
  obtain pre post where sls: "sls = pre @ (e0, c, i) # post"
    and pre: "\<forall>y \<in> set pre. not_end y \<and> \<not> (visible y \<and> de_name (fst y) = t)"
    and x: "not_end (e0, c, i)" "visible (e0, c, i)" "de_name (fst (e0, c, i)) = t"
    using lookup_SomeE [OF assms(2)] by metis
  have "takeWhile not_end sls = pre @ (e0, c, i) # takeWhile not_end post"
    using pre x(1) unfolding sls by (subst takeWhile_append2) auto
  with assms(3) x have "filter (\<lambda>sl. visible sl \<and> de_name (fst sl) = t) (takeWhile not_end post) = []"
    by (simp add: unique_name_def)
  then have "lookup t post = None"
    unfolding lookup_def find_None_iff filter_empty_conv by blast
  then have "lookup t ((erased e0, c, i) # post) = None"
    using erased_slot [OF assms(4), of "(c, i)"] by (simp add: lookup_simps visible_def)
  with lookup_append [OF pre, of "(erased e0, c, i) # post"] show ?thesis
    using set_slot_split assms(1) unfolding sls by metis
qed

subsection \<open>The scans compute these functions\<close>

lemma lookup_scan:
  "lookup t (map (\<lambda>i. (dirent_at buf i, c, i)) is @ rest) =
    (case find_scan buf t is of End_Of_Dir \<Rightarrow> None | Hit i \<Rightarrow> Some (dirent_at buf i, c, i)
     | Next_Cluster \<Rightarrow> lookup t rest)"
  by (induction "is") (simp_all add: lookup_simps not_end_def visible_def unused_def Let_def)

lemma free_slot_scan:
  "free_slot (map (\<lambda>i. (dirent_at buf i, c, i)) is @ rest) =
    (case slot_scan buf is of Some i \<Rightarrow> Some (dirent_at buf i, c, i) | None \<Rightarrow> free_slot rest)"
  by (induction "is") (simp_all add: free_slot_def unused_def Let_def)

lemma only_dots_scan:
  "only_dots (map (\<lambda>i. (dirent_at buf i, c, i)) is @ rest) =
    (case empty_scan buf is of End_Of_Dir \<Rightarrow> True | Hit i \<Rightarrow> False | Next_Cluster \<Rightarrow> only_dots rest)"
  by (induction "is") (auto simp: only_dots_def not_end_def unused_def Let_def)

lemma dir_find_loop_step:
  "dir_find_loop fs target cluster =
    (if 2 \<le> cluster \<and> cluster < EOC then
       bnd (read_cluster fs cluster) (\<lambda>buf.
       case find_scan buf target [0 ..< dir_entries fs] of
         End_Of_Dir \<Rightarrow> ret None
       | Hit i \<Rightarrow> ret (Some (dirent_at buf i, cluster, i))
       | Next_Cluster \<Rightarrow>
           bnd (read_fat_entry fs cluster) (\<lambda>next. dir_find_loop fs target next))
     else ret None)"
  by (rule ext) (simp add: dir_find_loop.simps [of fs target cluster])

lemma slot_loop_step:
  "slot_loop fs cluster lst =
    (if 2 \<le> cluster \<and> cluster < EOC then
       bnd (read_cluster fs cluster) (\<lambda>buf.
       case slot_scan buf [0 ..< dir_entries fs] of
         Some i \<Rightarrow> ret (Inl (cluster, i))
       | None \<Rightarrow> bnd (read_fat_entry fs cluster) (\<lambda>next. slot_loop fs next cluster))
     else ret (Inr lst))"
  by (rule ext) (simp add: slot_loop.simps [of fs cluster lst])

lemma dir_empty_loop_step:
  "dir_empty_loop fs cluster =
    (if 2 \<le> cluster \<and> cluster < EOC then
       bnd (read_cluster fs cluster) (\<lambda>buf.
       case empty_scan buf [0 ..< dir_entries fs] of
         End_Of_Dir \<Rightarrow> ret True
       | Hit i \<Rightarrow> ret False
       | Next_Cluster \<Rightarrow>
           bnd (read_fat_entry fs cluster) (\<lambda>next. dir_empty_loop fs next))
     else ret True)"
  by (rule ext) (simp add: dir_empty_loop.simps [of fs cluster])

lemma dir_slots_Cons:
  "dir_slots fs C (c # cs) = map (\<lambda>i. (dirent_at (C c) i, c, i)) [0 ..< dir_entries fs] @ dir_slots fs C cs"
  by (simp add: dir_slots_def cluster_slots_def)

context fat_volume begin

lemma dir_find_loop_runs:
  "chain fs F c cs \<Longrightarrow> runs (vol F C) (dir_find_loop fs t c) (lookup t (dir_slots fs C cs)) (vol F C)"
proof (induction cs arbitrary: c)
  case Nil
  then have stop: "\<not> (2 \<le> c \<and> c < EOC)" by auto
  show ?case
    unfolding dir_find_loop_step [of fs t c] if_not_P [OF stop]
    by (simp add: runs_ret dir_slots_def lookup_simps)
next
  case (Cons a cs)
  then have c: "valid_cluster fs c" and ac: "a = c" and rest: "chain fs F (F c) cs" by auto
  have guard: "2 \<le> c \<and> c < EOC" using valid_below_EOC [OF c] by simp
  have tail: "runs (vol F C) (bnd (read_fat_entry fs c) (\<lambda>next. dir_find_loop fs t next))
      (lookup t (dir_slots fs C cs)) (vol F C)"
    by (rule runs_bnd, rule read_fat_entry_runs [OF c], rule Cons.IH [OF rest])
  then have "runs (vol F C) (case find_scan (C c) t [0 ..< dir_entries fs] of
         End_Of_Dir \<Rightarrow> ret None
       | Hit i \<Rightarrow> ret (Some (dirent_at (C c) i, c, i))
       | Next_Cluster \<Rightarrow> bnd (read_fat_entry fs c) (\<lambda>next. dir_find_loop fs t next))
       (lookup t (dir_slots fs C (a # cs))) (vol F C)"
    unfolding dir_slots_Cons lookup_scan ac
    by (cases "find_scan (C c) t [0 ..< dir_entries fs]")
      (simp_all add: runs_ret)
  then show ?case
    unfolding dir_find_loop_step [of fs t c] if_P [OF guard]
    by (rule runs_bnd [OF read_cluster_runs [OF c]])
qed

lemma dir_find_runs:
  "chain fs F c cs \<Longrightarrow> runs (vol F C) (dir_find fs c t) (lookup t (dir_slots fs C cs)) (vol F C)"
  using dir_find_loop_runs not_too_big by (simp add: dir_find_def)

lemma dir_empty_loop_runs:
  "chain fs F c cs \<Longrightarrow> runs (vol F C) (dir_empty_loop fs c) (only_dots (dir_slots fs C cs)) (vol F C)"
proof (induction cs arbitrary: c)
  case Nil
  then have stop: "\<not> (2 \<le> c \<and> c < EOC)" by auto
  show ?case
    unfolding dir_empty_loop_step [of fs c] if_not_P [OF stop]
    by (simp add: runs_ret dir_slots_def only_dots_def)
next
  case (Cons a cs)
  then have c: "valid_cluster fs c" and ac: "a = c" and rest: "chain fs F (F c) cs" by auto
  have guard: "2 \<le> c \<and> c < EOC" using valid_below_EOC [OF c] by simp
  have tail: "runs (vol F C) (bnd (read_fat_entry fs c) (\<lambda>next. dir_empty_loop fs next))
      (only_dots (dir_slots fs C cs)) (vol F C)"
    by (rule runs_bnd, rule read_fat_entry_runs [OF c], rule Cons.IH [OF rest])
  then have "runs (vol F C) (case empty_scan (C c) [0 ..< dir_entries fs] of
         End_Of_Dir \<Rightarrow> ret True
       | Hit i \<Rightarrow> ret False
       | Next_Cluster \<Rightarrow> bnd (read_fat_entry fs c) (\<lambda>next. dir_empty_loop fs next))
       (only_dots (dir_slots fs C (a # cs))) (vol F C)"
    unfolding dir_slots_Cons only_dots_scan ac
    by (cases "empty_scan (C c) [0 ..< dir_entries fs]")
      (simp_all add: runs_ret)
  then show ?case
    unfolding dir_empty_loop_step [of fs c] if_P [OF guard]
    by (rule runs_bnd [OF read_cluster_runs [OF c]])
qed

lemma dir_is_empty_runs:
  "chain fs F c cs \<Longrightarrow> runs (vol F C) (dir_is_empty fs c) (only_dots (dir_slots fs C cs)) (vol F C)"
  using dir_empty_loop_runs not_too_big by (simp add: dir_is_empty_def)

lemma slot_loop_runs:
  "chain fs F c cs \<Longrightarrow> runs (vol F C) (slot_loop fs c lst)
     (case free_slot (dir_slots fs C cs) of Some (_, p) \<Rightarrow> Inl p | None \<Rightarrow> Inr (last (lst # cs))) (vol F C)"
proof (induction cs arbitrary: c lst)
  case Nil
  then have stop: "\<not> (2 \<le> c \<and> c < EOC)" by auto
  show ?case
    unfolding slot_loop_step [of fs c] if_not_P [OF stop]
    by (simp add: runs_ret dir_slots_def free_slot_def)
next
  case (Cons a cs)
  then have c: "valid_cluster fs c" and ac: "a = c" and rest: "chain fs F (F c) cs" by auto
  have guard: "2 \<le> c \<and> c < EOC" using valid_below_EOC [OF c] by simp
  have tail: "runs (vol F C) (bnd (read_fat_entry fs c) (\<lambda>next. slot_loop fs next c))
      (case free_slot (dir_slots fs C cs) of Some (_, p) \<Rightarrow> Inl p | None \<Rightarrow> Inr (last (c # cs))) (vol F C)"
    by (rule runs_bnd, rule read_fat_entry_runs [OF c], rule Cons.IH [OF rest])
  then have "runs (vol F C) (case slot_scan (C c) [0 ..< dir_entries fs] of
         Some i \<Rightarrow> ret (Inl (c, i))
       | None \<Rightarrow> bnd (read_fat_entry fs c) (\<lambda>next. slot_loop fs next c))
       (case free_slot (dir_slots fs C (a # cs)) of Some (_, p) \<Rightarrow> Inl p | None \<Rightarrow> Inr (last (lst # a # cs)))
       (vol F C)"
    unfolding dir_slots_Cons free_slot_scan ac last_ConsR [of "c # cs" lst, OF list.distinct(2)]
    by (cases "slot_scan (C c) [0 ..< dir_entries fs]") (simp_all add: runs_ret)
  then show ?case
    unfolding slot_loop_step [of fs c] if_P [OF guard]
    by (rule runs_bnd [OF read_cluster_runs [OF c]])
qed

end

end
