(* ===== verification/Fat32_Files.thy ===== *)
theory Fat32_Files
  imports Fat32_Dirs
begin

text \<open>
  The path operations of \<open>fs/fat32.c\<close> on a mounted volume: resolving a path, and what writing,
  reading, removing and creating do to the directory they work in.
\<close>

section \<open>Slots of a directory and its clusters\<close>

lemma in_dir_slots:
  "(e, c, i) \<in> set (dir_slots fs C cs) \<longleftrightarrow> c \<in> set cs \<and> i < dir_entries fs \<and> e = dirent_at (C c) i"
  by (fastforce simp: dir_slots_def cluster_slots_def)

lemma dir_slots_cong:
  "(\<And>c. c \<in> set cs \<Longrightarrow> C' c = C c) \<Longrightarrow> dir_slots fs C' cs = dir_slots fs C cs"
  by (induction cs) (simp_all add: dir_slots_def cluster_slots_def)

lemma dir_slots_append: "dir_slots fs C (cs @ ds) = dir_slots fs C cs @ dir_slots fs C ds"
  by (simp add: dir_slots_def)

lemma distinct_dir_slots: "distinct cs \<Longrightarrow> distinct (map snd (dir_slots fs C cs))"
proof (induction cs)
  case (Cons c cs)
  have "distinct (map snd (cluster_slots fs C c))"
    by (simp add: cluster_slots_def distinct_map inj_on_def)
  moreover have "snd ` set (cluster_slots fs C c) \<inter> snd ` set (dir_slots fs C cs) = {}"
    using Cons.prems by (auto simp: cluster_slots_def in_dir_slots)
  ultimately show ?case
    using Cons by (simp add: dir_slots_def)
qed (simp add: dir_slots_def)

lemma dir_entries_fit:
  assumes "i < dir_entries fs"
  shows "i * 32 + 32 \<le> unat (bytes_per_cluster fs)"
proof -
  have "Suc i * 32 \<le> dir_entries fs * 32" using assms by (intro mult_le_mono1) simp
  also have "\<dots> \<le> unat (bytes_per_cluster fs)"
    by (simp add: dir_entries_def DIR_ENTRY_SIZE_def)
  finally show ?thesis by simp
qed

lemma dir_slots_put:
  assumes "i < dir_entries fs" and "length (C c) = unat (bytes_per_cluster fs)" and "length (de_name e) = 11"
  shows "dir_slots fs (C(c := put_bytes (C c) (i * DIR_ENTRY_SIZE) (dirent_bytes e))) cs
    = set_slot c i e (dir_slots fs C cs)"
proof -
  have "cluster_slots fs (C(c := put_bytes (C c) (i * DIR_ENTRY_SIZE) (dirent_bytes e))) a
      = set_slot c i e (cluster_slots fs C a)" for a
    using dir_entries_fit [OF assms(1)] assms(2, 3) dirent_at_put_same [of e i "C c"]
      dirent_at_put_other [of _ i e "C c"]
    by (auto simp: cluster_slots_def set_slot_def)
  then show ?thesis
    by (induction cs) (simp_all add: dir_slots_def set_slot_def)
qed

lemma dir_slots_erase:
  assumes "i < dir_entries fs" and "length (C c) = unat (bytes_per_cluster fs)"
  shows "dir_slots fs (C(c := (C c)[i * DIR_ENTRY_SIZE := 0xE5])) cs
    = set_slot c i (erased (dirent_at (C c) i)) (dir_slots fs C cs)"
proof -
  have "cluster_slots fs (C(c := (C c)[i * DIR_ENTRY_SIZE := 0xE5])) a
      = set_slot c i (erased (dirent_at (C c) i)) (cluster_slots fs C a)" for a
    using dir_entries_fit [OF assms(1)] assms(2) dirent_at_erase_same [of i "C c"]
      dirent_at_erase_other [of _ i "C c"]
    by (auto simp: cluster_slots_def set_slot_def)
  then show ?thesis
    by (induction cs) (simp_all add: dir_slots_def set_slot_def)
qed

lemma length_dirent_name [simp]: "length (de_name (dirent_at buf i)) = 11"
  by (simp add: dirent_at_def Let_def)

lemma lookup_in: "lookup t sls = Some x \<Longrightarrow> x \<in> set sls"
  by (elim lookup_SomeE) simp

lemma free_slot_in: "free_slot sls = Some x \<Longrightarrow> x \<in> set sls"
  by (elim free_slot_SomeE) simp

text \<open>A zeroed cluster has only end markers.\<close>

lemma zero_slots:
  assumes "C c = replicate n 0"
  shows "sl \<in> set (cluster_slots fs C c) \<Longrightarrow> \<not> not_end sl"
  using assms
  by (auto simp: cluster_slots_def not_end_def name0_def dirent_at_def Let_def byte_at_def)

lemma chain_extend:
  assumes top: "2 + unat (total_clusters fs) \<le> unat EOC"
    and "chain fs F c cs" and "cs \<noteq> []" and "valid_cluster fs n" and "n \<notin> set cs" and "EOC \<le> v"
  shows "chain fs (F(n := v, last cs := n)) c (cs @ [n])"
  using assms(2-5)
proof (induction cs arbitrary: c)
  case (Cons a cs)
  show ?case
  proof (cases "cs = []")
    case True
    with Cons.prems assms(6) show ?thesis by auto
  next
    case False
    have "a \<notin> set cs" using chain_distinct [OF top Cons.prems(1)] by simp
    then have "a \<noteq> last cs" using False last_in_set by metis
    with Cons.IH [of "F a"] Cons.prems False show ?thesis by auto
  qed
qed simp

section \<open>Directory operations\<close>

context fat_volume begin

lemma runs_name: "runs (vol F C) m v Q \<Longrightarrow> v = v' \<Longrightarrow> runs (vol F C) m v' Q"
  by simp

lemma dir_write_entry_runs:
  assumes "valid_cluster fs c" and "i < dir_entries fs" and "length (de_name e) = 11"
  shows "runs (vol F C) (dir_write_entry fs c i e) ()
    (vol F (C(c := put_bytes (C c) (i * DIR_ENTRY_SIZE) (dirent_bytes e))))"
proof (rule runs_volI)
  assume "\<And>x. valid_cluster fs x \<Longrightarrow> length (C x) = unat (bytes_per_cluster fs)"
  then have "length (put_bytes (C c) (i * DIR_ENTRY_SIZE) (dirent_bytes e)) = unat (bytes_per_cluster fs)"
    using assms dir_entries_fit [OF assms(2)] by (simp add: DIR_ENTRY_SIZE_def length_dirent_bytes)
  from write_cluster_runs [OF assms(1) this] show ?thesis
    unfolding dir_write_entry_def if_not_P [OF not_too_big]
    by (rule runs_bnd [OF read_cluster_runs [OF assms(1)]])
qed

lemma dir_mark_deleted_runs:
  assumes "valid_cluster fs c" and "i < dir_entries fs"
  shows "runs (vol F C) (dir_mark_deleted fs c i) () (vol F (C(c := (C c)[i * DIR_ENTRY_SIZE := 0xE5])))"
proof (rule runs_volI)
  assume "\<And>x. valid_cluster fs x \<Longrightarrow> length (C x) = unat (bytes_per_cluster fs)"
  then have "length ((C c)[i * DIR_ENTRY_SIZE := 0xE5]) = unat (bytes_per_cluster fs)"
    using assms by simp
  from write_cluster_runs [OF assms(1) this] show ?thesis
    unfolding dir_mark_deleted_def if_not_P [OF not_too_big]
    by (rule runs_bnd [OF read_cluster_runs [OF assms(1)]])
qed

lemma dir_alloc_slot_free:
  assumes "chain fs F d cs" and "free_slot (dir_slots fs C cs) = Some (e, c, i)"
  shows "runs (vol F C) (dir_alloc_slot fs d) (c, i) (vol F C)"
  unfolding dir_alloc_slot_def if_not_P [OF not_too_big]
  by (rule runs_bnd, rule slot_loop_runs [OF assms(1)]) (simp add: assms(2) runs_ret)

lemma dir_alloc_slot_grow:
  assumes "chain fs F d cs" and "cs \<noteq> []" and "free_slot (dir_slots fs C cs) = None"
    and "free_list fs F = nc # rest"
  shows "runs (vol F C) (dir_alloc_slot fs d) (nc, 0)
    (vol (F(nc := 0x0FFFFFFF, last cs := nc)) (C(nc := replicate (unat (bytes_per_cluster fs)) 0)))"
proof -
  let ?F1 = "F(nc := 0x0FFFFFFF)" and ?F2 = "F(nc := 0x0FFFFFFF, last cs := nc)"
  have nc: "valid_cluster fs nc" using assms(4) free_list_valid [of nc F] by simp
  have lst: "valid_cluster fs (last cs)" using assms(1, 2) chain_valid last_in_set by metis
  have w1: "runs (vol F C) (write_fat_entry fs nc (EOC OR 0x07)) () (vol ?F1 C)"
    using write_fat_entry_runs [OF nc, of F C "EOC OR 0x07"] by (simp add: EOC_def)
  have w2: "runs (vol ?F1 C) (write_fat_entry fs (last cs) nc) () (vol ?F2 C)"
    using write_fat_entry_runs [OF lst, of ?F1 C nc] by (simp add: valid_mask [OF nc] del: fun_upd_apply)
  have w3: "runs (vol ?F2 C) (write_cluster fs nc (replicate (unat (bytes_per_cluster fs)) 0)) ()
      (vol ?F2 (C(nc := replicate (unat (bytes_per_cluster fs)) 0)))"
    by (rule write_cluster_runs [OF nc]) simp
  have "runs (vol F C) (case Inr (last cs) of Inl slot \<Rightarrow> ret slot
     | Inr lst \<Rightarrow>
         bnd (find_free_cluster fs) (\<lambda>nc.
         bnd (write_fat_entry fs nc (EOC OR 0x07)) (\<lambda>_.
         bnd (write_fat_entry fs lst nc) (\<lambda>_.
         bnd (write_cluster fs nc (replicate (unat (bytes_per_cluster fs)) 0)) (\<lambda>_.
         ret (nc, 0)))))) (nc, 0)
     (vol ?F2 (C(nc := replicate (unat (bytes_per_cluster fs)) 0)))"
    unfolding sum.case
    by (rule runs_bnd [OF find_free_cluster_runs [OF assms(4)]], rule runs_bnd [OF w1],
        rule runs_bnd [OF w2], rule runs_bnd [OF w3], rule runs_ret)
  moreover have "runs (vol F C) (slot_loop fs d d) (Inr (last cs)) (vol F C)"
    using slot_loop_runs [OF assms(1), of C d] assms(2, 3) by simp
  ultimately show ?thesis
    unfolding dir_alloc_slot_def if_not_P [OF not_too_big] by (rule runs_bnd [rotated])
qed

end

section \<open>Resolving a path\<close>

text \<open>From directory \<open>c\<close>, the components lead to directory \<open>d\<close>; \<open>W\<close> are the clusters of the
  directories searched on the way.\<close>

inductive resolves :: "'s canboot_fat32 \<Rightarrow> (u32 \<Rightarrow> u32) \<Rightarrow> (u32 \<Rightarrow> bytes) \<Rightarrow> u32 \<Rightarrow> bytes list \<Rightarrow> u32 \<Rightarrow> u32 set \<Rightarrow> bool"
  for fs :: "'s canboot_fat32" and F :: "u32 \<Rightarrow> u32" and C :: "u32 \<Rightarrow> bytes" where
  resolves_Nil: "resolves fs F C c [] c {}"
| resolves_Cons: "chain fs F c cs \<Longrightarrow> lookup (to_83 n) (dir_slots fs C cs) = Some (e, p) \<Longrightarrow>
    de_attr e AND ATTR_DIRECTORY \<noteq> 0 \<Longrightarrow>
    resolves fs F C (if entry_first_cluster e = 0 then root_cluster fs else entry_first_cluster e) ns d W \<Longrightarrow>
    resolves fs F C c (n # ns) d (set cs \<union> W)"

inductive_cases resolves_NilE: "resolves fs F C c [] d W"
inductive_cases resolves_ConsE: "resolves fs F C c (n # ns) d W"

lemma resolves_frame:
  assumes "resolves fs F C c ns d W" and "\<And>x. x \<in> W \<Longrightarrow> F' x = F x \<and> C' x = C x"
  shows "resolves fs F' C' c ns d W"
  using assms
proof (induction rule: resolves.induct)
  case (resolves_Cons c cs n e p ns d W)
  then have "chain fs F' c cs" and "dir_slots fs C' cs = dir_slots fs C cs"
    using chain_cong [of cs F' F fs c] by (auto intro: dir_slots_cong)
  with resolves_Cons show ?case by (intro resolves.resolves_Cons) auto
qed (rule resolves.resolves_Nil)

lemma resolves_append:
  "resolves fs F C c ns d W \<Longrightarrow> resolves fs F C d ms d' W' \<Longrightarrow> resolves fs F C c (ns @ ms) d' (W \<union> W')"
proof (induction rule: resolves.induct)
  case (resolves_Cons c cs n e p ns d W)
  then show ?case using resolves.resolves_Cons [of fs F c cs n C e p "ns @ ms" d' "W \<union> W'"]
    by (simp add: Un_assoc)
qed simp

lemma resolves_allocated: "resolves fs F C c ns d W \<Longrightarrow> x \<in> W \<Longrightarrow> F x \<noteq> 0"
  by (induction rule: resolves.induct) (auto dest: chain_nonzero)

context fat_volume begin

lemma resolve_comps_runs:
  "resolves fs F C c ns d W \<Longrightarrow> runs (vol F C) (resolve_comps fs c ns) d (vol F C)"
proof (induction rule: resolves.induct)
  case (resolves_Nil c)
  show ?case by (simp add: runs_ret)
next
  case (resolves_Cons c cs n e p ns d W)
  obtain pc pi where p: "p = (pc, pi)" by fastforce
  have "runs (vol F C) (case Some (e, p) of None \<Rightarrow> err
     | Some (e, _, _) \<Rightarrow>
         if de_attr e AND ATTR_DIRECTORY = 0 then err
         else (let fc = entry_first_cluster e in
               resolve_comps fs (if fc = 0 then root_cluster fs else fc) ns)) d (vol F C)"
    using resolves_Cons.hyps(3) resolves_Cons.IH by (simp add: p Let_def)
  moreover have "runs (vol F C) (dir_find fs c (to_83 n)) (Some (e, p)) (vol F C)"
    using dir_find_runs [OF resolves_Cons.hyps(1), of C "to_83 n"] resolves_Cons.hyps(2) by simp
  ultimately show ?case
    unfolding resolve_comps.simps by (rule runs_bnd [rotated])
qed

lemma resolve_dir_runs:
  "resolves fs F C (root_cluster fs) (path_comps path) d W \<Longrightarrow>
     runs (vol F C) (resolve_dir fs path) d (vol F C)"
  by (simp add: resolve_dir_def resolve_comps_runs)

lemma resolve_entry_runs:
  assumes "split_last path 256 16 = Some (parent, leaf)"
    and "resolves fs F C (root_cluster fs) (path_comps parent) d W" and "chain fs F d ds"
  shows "runs (vol F C) (resolve_entry fs path) (lookup (to_83 leaf) (dir_slots fs C ds)) (vol F C)"
  unfolding resolve_entry_def assms(1)
  by (simp, rule runs_bnd, rule resolve_dir_runs [OF assms(2)], rule dir_find_runs [OF assms(3)])

end

section \<open>Reading a file\<close>

text \<open>Directory \<open>d\<close>, with clusters \<open>ds\<close>, holds under the name \<open>t\<close> a file with these contents, kept
  in the clusters \<open>cs\<close>.\<close>

definition holds_file :: "'s canboot_fat32 \<Rightarrow> (u32 \<Rightarrow> u32) \<Rightarrow> (u32 \<Rightarrow> bytes) \<Rightarrow> u32 list \<Rightarrow> bytes
    \<Rightarrow> bytes \<Rightarrow> u32 list \<Rightarrow> bool" where
  "holds_file fs F C ds t data cs \<longleftrightarrow> (case lookup t (dir_slots fs C ds) of None \<Rightarrow> False
     | Some (e, _) \<Rightarrow>
         de_attr e AND ATTR_DIRECTORY = 0 \<and> unat (de_size e) = length data \<and>
         (if cs = [] then entry_first_cluster e = 0 else chain fs F (entry_first_cluster e) cs) \<and>
         length data \<le> length cs * unat (bytes_per_cluster fs) \<and>
         take (length data) (concat (map C cs)) = data)"

context fat_volume begin

text \<open>\<open>canboot_fat32_read_path\<close> delivers the contents, cut to the caller's buffer.\<close>

lemma read_path_runs:
  assumes path: "split_last path 256 16 = Some (parent, leaf)"
    and res: "resolves fs F C (root_cluster fs) (path_comps parent) d W"
    and ds: "chain fs F d ds" and hf: "holds_file fs F C ds (to_83 leaf) data cs"
    and small: "length data \<le> 2 ^ 31" and room: "length buf = unat buf_size"
  shows "runs (vol F C) (canboot_fat32_read_path (Some fs) (Some path) buf buf_size)
    (of_nat (min (length data) (unat buf_size)), of_nat (length data),
     put_bytes buf 0 (take (unat buf_size) data)) (vol F C)"
proof (rule runs_volI)
  assume len: "\<And>x. valid_cluster fs x \<Longrightarrow> length (C x) = unat (bytes_per_cluster fs)"
  from hf obtain e p where look: "lookup (to_83 leaf) (dir_slots fs C ds) = Some (e, p)"
    and attr: "de_attr e AND ATTR_DIRECTORY = 0" and size: "unat (de_size e) = length data"
    and chn: "if cs = [] then entry_first_cluster e = 0 else chain fs F (entry_first_cluster e) cs"
    and fits: "length data \<le> length cs * unat (bytes_per_cluster fs)"
    and data: "take (length data) (concat (map C cs)) = data"
    by (auto simp: holds_file_def split: option.splits)
  obtain pc pi where p: "p = (pc, pi)" by fastforce
  let ?n = "min (length data) (unat buf_size)"
  let ?to_read = "if de_size e < buf_size then de_size e else buf_size"
  have to_read: "unat ?to_read = ?n" using size by (auto simp: word_less_nat_alt)
  have take: "take ?n (concat (map C cs)) = take (unat buf_size) data"
    using data by (metis min.commute take_take)
  have copy: "runs (vol F C) (copy_chain fs ?to_read (entry_first_cluster e) 0 buf)
      (of_nat ?n, put_bytes buf 0 (take (unat buf_size) data)) (vol F C)"
  proof (cases "cs = []")
    case True
    with chn fits have "entry_first_cluster e = 0" and "data = []" by auto
    then show ?thesis by (subst copy_chain_step) (simp add: runs_ret)
  next
    case False
    with chn have chain: "chain fs F (entry_first_cluster e) cs" by simp
    have "runs (vol F C) (copy_chain fs ?to_read (entry_first_cluster e) 0 buf)
        (0 + of_nat ?n, put_bytes buf (unat (0 :: u32)) (take ?n (concat (map C cs)))) (vol F C)"
    proof (rule copy_chain_runs [OF chain _ _ _ len])
      show "?n = min (unat ?to_read - unat (0 :: u32)) (length cs * unat (bytes_per_cluster fs))"
        unfolding to_read using fits by simp
    qed (use to_read small room in auto)
    then show ?thesis by (simp add: take)
  qed
  have body: "runs (vol F C) (case Some (e, p) of None \<Rightarrow> err | Some (e, _, _) \<Rightarrow>
         if de_attr e AND ATTR_DIRECTORY \<noteq> 0 then err else
         let to_read = (if de_size e < buf_size then de_size e else buf_size) in
         if cluster_too_big fs then err else
         bnd (copy_chain fs to_read (entry_first_cluster e) 0 buf) (\<lambda>(copied, buf').
         ret (copied, de_size e, buf')))
      (of_nat ?n, of_nat (length data), put_bytes buf 0 (take (unat buf_size) data)) (vol F C)"
    unfolding p option.case prod.case Let_def attr if_not_P [OF not_too_big]
    by (simp only: simp_thms if_False, rule runs_bnd [OF copy]) (simp add: runs_ret size [symmetric])
  have found: "runs (vol F C) (resolve_entry fs path) (Some (e, p)) (vol F C)"
    using resolve_entry_runs [OF path res ds] look by simp
  show ?thesis
    unfolding canboot_fat32_read_path_def prod.case option.case by (rule runs_bnd [OF found]) (rule body)
qed

end

section \<open>Writing a file\<close>

lemma length_to_83 [simp]: "length (to_83 name) = 11"
  by (simp add: to_83_def pad_def Let_def min_def)

definition clusters_for :: "'s canboot_fat32 \<Rightarrow> nat \<Rightarrow> nat" where
  "clusters_for fs n = (n + unat (bytes_per_cluster fs) - 1) div unat (bytes_per_cluster fs)"

text \<open>Entries of \<open>F\<close> in use stay as they are, apart from the clusters in \<open>X\<close>.\<close>

definition unchanged :: "(u32 \<Rightarrow> u32) \<Rightarrow> (u32 \<Rightarrow> bytes) \<Rightarrow> u32 set \<Rightarrow> (u32 \<Rightarrow> u32) \<Rightarrow> (u32 \<Rightarrow> bytes) \<Rightarrow> bool" where
  "unchanged F C X F' C' \<longleftrightarrow> (\<forall>x. F x \<noteq> 0 \<and> x \<notin> X \<longrightarrow> F' x = F x \<and> C' x = C x)"

text \<open>The slot \<open>(c, i)\<close> of directory \<open>d\<close> is ready for an entry named \<open>t\<close>: once written there it is
  what a lookup finds, and lookups of other names find what they found in the slots \<open>old\<close>.\<close>

definition slot_ready :: "'s canboot_fat32 \<Rightarrow> (u32 \<Rightarrow> u32) \<Rightarrow> (u32 \<Rightarrow> bytes) \<Rightarrow> u32 \<Rightarrow> u32 list \<Rightarrow> bytes
    \<Rightarrow> slot list \<Rightarrow> u32 \<Rightarrow> nat \<Rightarrow> bool" where
  "slot_ready fs F C d ds t old c i \<longleftrightarrow>
     chain fs F d ds \<and> c \<in> set ds \<and> i < dir_entries fs \<and>
     (\<forall>e. visible (e, c, i) \<and> de_name e = t \<longrightarrow>
        lookup t (set_slot c i e (dir_slots fs C ds)) = Some (e, c, i) \<and>
        (tidy old \<longrightarrow> (\<forall>t'. t' \<noteq> t \<longrightarrow>
           lookup t' (set_slot c i e (dir_slots fs C ds)) = lookup t' old)))"

lemma ready_existing:
  assumes "chain fs F d ds" and "distinct ds" and "lookup t (dir_slots fs C ds) = Some (e0, c, i)"
  shows "slot_ready fs F C d ds t (dir_slots fs C ds) c i"
  unfolding slot_ready_def
proof (intro conjI allI impI)
  note d = distinct_dir_slots [OF assms(2), of fs C]
  show "c \<in> set ds" and "i < dir_entries fs"
    using lookup_in [OF assms(3)] by (simp_all add: in_dir_slots)
  fix e assume e: "visible (e, c, i) \<and> de_name e = t"
  show "lookup t (set_slot c i e (dir_slots fs C ds)) = Some (e, c, i)"
    using lookup_replace [OF d assms(3)] e by blast
  fix t' assume "t' \<noteq> t"
  then show "lookup t' (set_slot c i e (dir_slots fs C ds)) = lookup t' (dir_slots fs C ds)"
    using lookup_replace_other [OF d assms(3)] e visible_not_end by metis
qed (rule assms(1))

lemma ready_free:
  assumes "chain fs F d ds" and "distinct ds" and "lookup t (dir_slots fs C ds) = None"
    and "free_slot (dir_slots fs C ds) = Some (e0, c, i)"
  shows "slot_ready fs F C d ds t (dir_slots fs C ds) c i"
  unfolding slot_ready_def
proof (intro conjI allI impI)
  note d = distinct_dir_slots [OF assms(2), of fs C]
  show "c \<in> set ds" and "i < dir_entries fs"
    using free_slot_in [OF assms(4)] by (simp_all add: in_dir_slots)
  fix e assume e: "visible (e, c, i) \<and> de_name e = t"
  show "lookup t (set_slot c i e (dir_slots fs C ds)) = Some (e, c, i)"
    using lookup_insert [OF d assms(4, 3)] e by blast
  assume "tidy (dir_slots fs C ds)"
  fix t' assume "t' \<noteq> t"
  with \<open>tidy _\<close> show "lookup t' (set_slot c i e (dir_slots fs C ds)) = lookup t' (dir_slots fs C ds)"
    using lookup_insert_other [OF d assms(4)] e visible_not_end by metis
qed (rule assms(1))

lemma ready_grown:
  assumes "chain fs F' d (ds @ [nc])" and "distinct (ds @ [nc])"
    and full: "free_slot (dir_slots fs C ds) = None" and none: "lookup t (dir_slots fs C ds) = None"
    and same: "\<And>x. x \<in> set ds \<Longrightarrow> C' x = C x" and zero: "C' nc = replicate n 0"
    and room: "0 < dir_entries fs"
  shows "slot_ready fs F' C' d (ds @ [nc]) t (dir_slots fs C ds) nc 0"
proof -
  let ?old = "dir_slots fs C ds" and ?zs = "cluster_slots fs C' nc"
  have new: "dir_slots fs C' (ds @ [nc]) = ?old @ ?zs"
    using dir_slots_cong [of ds C' C fs] same by (simp add: dir_slots_append dir_slots_def [of _ _ "[nc]"])
  obtain e0 zs where zs: "?zs = (e0, nc, 0) # zs"
    using room by (auto simp: cluster_slots_def upt_conv_Cons)
  have ends: "\<not> not_end sl" if "sl \<in> set ?zs" for sl
    using zero_slots [of C' nc n sl fs] zero that by blast
  have used: "\<forall>y \<in> set ?old. \<not> unused y" using full unfolding free_slot_def find_None_iff by blast
  then have old_not_end: "\<forall>y \<in> set ?old. not_end y" using used_not_end by blast
  have look: "lookup t' (?old @ ?zs) = lookup t' ?old" for t'
  proof -
    have "takeWhile not_end (?old @ ?zs) = ?old @ takeWhile not_end ?zs"
      using old_not_end by simp
    moreover have "takeWhile not_end ?zs = []" using ends zs by simp
    moreover have "takeWhile not_end ?old = ?old" using old_not_end by simp
    ultimately show ?thesis by (simp only: lookup_def append_Nil2)
  qed
  have tidy: "tidy (?old @ ?zs)"
    using old_not_end ends zs by (auto simp: tidy_def list_all_iff)
  have "find unused (?old @ ?zs) = Some (e0, nc, 0)"
  proof -
    have "find unused (xs @ (e0, nc, 0) # zs) = Some (e0, nc, 0)" if "\<forall>y \<in> set xs. \<not> unused y" for xs
      using that ends [of "(e0, nc, 0)"] zs by (induction xs) (auto simp: not_end_def unused_def)
    with used zs show ?thesis by simp
  qed
  then have "slot_ready fs F' C' d (ds @ [nc]) t (?old @ ?zs) nc 0"
    using ready_free [OF assms(1, 2), of t C' e0 nc 0] none look new by (simp add: free_slot_def)
  with look tidy show ?thesis by (simp add: slot_ready_def)
qed

context fat_volume begin

lemma bpc_pos: "0 < unat (bytes_per_cluster fs)"
  using bpc spc_pos bps_pos by simp

lemma dir_entries_pos: "0 < dir_entries fs"
proof -
  have "32 dvd unat (bytes_per_cluster fs)" using bpc dvd_bps by simp
  with bpc_pos have "32 \<le> unat (bytes_per_cluster fs)" by (simp add: dvd_imp_le)
  then show ?thesis by (simp add: dir_entries_def DIR_ENTRY_SIZE_def div_greater_zero_iff)
qed

lemma clusters_for_covers: "n \<le> clusters_for fs n * unat (bytes_per_cluster fs)"
proof -
  let ?b = "unat (bytes_per_cluster fs)"
  have "n + ?b - 1 < clusters_for fs n * ?b + ?b"
    using dividend_less_div_times [OF bpc_pos, of "n + ?b - 1"] by (simp add: clusters_for_def add.commute)
  then show ?thesis by linarith
qed

text \<open>The clusters of a new file: the lowest free ones, chained, with the data in them.\<close>

lemma store_data_runs:
  assumes len: "unat len = length data" and small: "clusters_for fs (length data) \<le> 256"
    and room: "clusters_for fs (length data) \<le> length (free_list fs F)"
    and cs: "cs = take (clusters_for fs (length data)) (free_list fs F)"
  shows "runs (vol F C) (store_data fs data len) (if cs = [] then 0 else hd cs)
    (vol (link_fat F cs) (data_in (unat (bytes_per_cluster fs)) C cs data))"
proof (cases "data = []")
  case True
  with bpc_pos have "cs = []" by (simp add: cs clusters_for_def)
  moreover have "len = 0" using len True by (simp add: word_unat_eq_iff)
  ultimately show ?thesis using True by (simp add: store_data_def runs_ret)
next
  case False
  let ?b = "unat (bytes_per_cluster fs)"
  let ?need = "(len + bytes_per_cluster fs - 1) div bytes_per_cluster fs"
  have pos: "0 < clusters_for fs (length data)"
    using False clusters_for_covers [of "length data"] by (cases "clusters_for fs (length data)") auto
  have "length data \<le> 256 * 8192"
    using clusters_for_covers [of "length data"] small bpc_max by (meson le_trans mult_le_mono)
  then have sum: "unat (len + bytes_per_cluster fs) = length data + ?b"
    using len bpc_max by (subst unat_add_no_wrap) simp_all
  have "1 \<le> len + bytes_per_cluster fs" using sum bpc_pos by (simp add: word_le_nat_alt)
  then have need: "unat ?need = clusters_for fs (length data)"
    using sum by (simp add: unat_div_distrib unat_sub_no_wrap clusters_for_def)
  have guard: "0 < len" using len False by (simp add: word_less_nat_alt)
  have "?need \<noteq> 0" using need pos by (metis less_irrefl unat_0)
  moreover have "?need \<le> FAT32_MAX_CHAIN" using need small by (simp add: word_le_nat_alt FAT32_MAX_CHAIN_def)
  ultimately have alloc: "runs (vol F C) (alloc_chain fs ?need) cs (vol (link_fat F cs) C)"
    using need room cs by (intro alloc_chain_runs) simp_all
  have "cs \<noteq> []" using cs pos room by auto
  have valid: "valid_cluster fs x" if "x \<in> set cs" for x
    using that cs free_list_valid by (meson in_set_takeD)
  show ?thesis
    unfolding store_data_def if_P [OF guard] Let_def if_not_P [OF not_too_big] if_not_P [OF \<open>cs \<noteq> []\<close>]
    by (rule runs_bnd, rule alloc, rule runs_bnd, rule write_data_runs [OF valid len], assumption, rule runs_ret)
qed

text \<open>Writing the new file's clusters and its entry, once a slot is at hand.\<close>

lemma finish_write:
  assumes ready: "slot_ready fs F C d ds t old c i" and t: "length t = 11" "t ! 0 \<noteq> 0" "t ! 0 \<noteq> 0xE5"
    and len: "unat len = length data" and small: "clusters_for fs (length data) \<le> 256"
    and room: "clusters_for fs (length data) \<le> length (free_list fs F)"
    and sized: "\<And>x. valid_cluster fs x \<Longrightarrow> length (C x) = unat (bytes_per_cluster fs)"
  shows "\<exists>F' C' cs.
    runs (vol F C) (bnd (store_data fs data len) (\<lambda>first.
      dir_write_entry fs c i (make_entry t 0x20 first len))) () (vol F' C') \<and>
    chain fs F' d ds \<and> holds_file fs F' C' ds t data cs \<and> unchanged F C (set ds) F' C' \<and>
    (tidy old \<longrightarrow> (\<forall>t'. t' \<noteq> t \<longrightarrow> lookup t' (dir_slots fs C' ds) = lookup t' old))"
proof -
  define cs where "cs = take (clusters_for fs (length data)) (free_list fs F)"
  let ?b = "unat (bytes_per_cluster fs)"
  let ?F = "link_fat F cs" and ?C1 = "data_in ?b C cs data"
  let ?first = "if cs = [] then 0 else hd cs"
  let ?e = "make_entry t 0x20 ?first len"
  let ?C = "?C1(c := put_bytes (?C1 c) (i * DIR_ENTRY_SIZE) (dirent_bytes ?e))"
  from ready have ds: "chain fs F d ds" and c: "c \<in> set ds" and i: "i < dir_entries fs"
    by (auto simp: slot_ready_def)
  have free: "F x = 0" if "x \<in> set cs" for x
    using that unfolding cs_def by (auto dest: in_set_takeD simp: free_list_def)
  have valid: "valid_cluster fs x" if "x \<in> set cs" for x
    using that cs_def free_list_valid by (meson in_set_takeD)
  have dist: "distinct cs" using distinct_free_list [of F] by (simp add: cs_def)
  have apart: "x \<notin> set cs" if "F x \<noteq> 0" for x using free that by blast
  have ds_apart: "x \<notin> set cs" if "x \<in> set ds" for x using apart chain_nonzero [OF ds that] by blast
  have c_valid: "valid_cluster fs c" using chain_valid [OF ds c] .
  have name: "length (de_name ?e) = 11" and vis: "visible (?e, c, i) \<and> de_name ?e = t"
    using t by (auto simp: visible_def unused_def name0_def byte_at_def ATTR_LFN_def ATTR_VOLUME_ID_def)
  have run: "runs (vol F C) (bnd (store_data fs data len) (\<lambda>first.
      dir_write_entry fs c i (make_entry t 0x20 first len))) () (vol ?F ?C)"
    by (rule runs_bnd [OF store_data_runs [OF len small room cs_def]],
        rule dir_write_entry_runs [OF c_valid i name])
  have ds': "chain fs ?F d ds"
    using ds ds_apart chain_cong [of ds ?F F fs d] by (simp add: link_fat_other)
  have same: "dir_slots fs ?C1 ds = dir_slots fs C ds"
    by (rule dir_slots_cong) (simp add: data_in_other ds_apart)
  have slots: "dir_slots fs ?C ds = set_slot c i ?e (dir_slots fs C ds)"
    by (subst dir_slots_put) (simp_all add: i t(1) same data_in_other ds_apart [OF c] sized [OF c_valid])
  have look: "lookup t (dir_slots fs ?C ds) = Some (?e, c, i)"
    and others: "tidy old \<longrightarrow> (\<forall>t'. t' \<noteq> t \<longrightarrow> lookup t' (dir_slots fs ?C ds) = lookup t' old)"
    unfolding slots using ready vis unfolding slot_ready_def by blast+
  have "map ?C cs = map ?C1 cs" using ds_apart [OF c] by (intro map_cong) auto
  moreover have fits: "length data \<le> length cs * ?b"
    using clusters_for_covers [of "length data"] room by (simp add: cs_def)
  ultimately have "take (length data) (concat (map ?C cs)) = data"
    using take_concat_data_in [OF dist fits, of C] by (simp only:)
  moreover have "if cs = [] then ?first = 0 else chain fs ?F ?first cs"
    using dist valid chain_link_fat [of "hd cs" "tl cs" fs F] by (cases cs) (simp_all del: link_fat.simps)
  ultimately have "holds_file fs ?F ?C ds t data cs"
    unfolding holds_file_def look
    using len fits by (auto simp: ATTR_DIRECTORY_def split: if_splits)
  moreover have "unchanged F C (set ds) ?F ?C"
    using apart c unfolding unchanged_def by (auto simp: link_fat_other data_in_other)
  ultimately show ?thesis using run ds' others by blast
qed

end

text \<open>The file that is replaced, if there is one: not a directory, with the clusters \<open>old\<close>.\<close>

definition replaces :: "'s canboot_fat32 \<Rightarrow> (u32 \<Rightarrow> u32) \<Rightarrow> slot option \<Rightarrow> u32 list \<Rightarrow> bool" where
  "replaces fs F found old \<longleftrightarrow> (case found of None \<Rightarrow> old = []
     | Some (e, _) \<Rightarrow> de_attr e AND ATTR_DIRECTORY = 0 \<and>
         (if old = [] then entry_first_cluster e = 0 else chain fs F (entry_first_cluster e) old))"

lemma length_filter_mono:
  "(\<And>x. x \<in> set xs \<Longrightarrow> P x \<Longrightarrow> Q x) \<Longrightarrow> length (filter P xs) \<le> length (filter Q xs)"
  by (induction xs) (auto simp: le_SucI)

context fat_volume begin

lemma free_old_runs:
  assumes "if old = [] then c = 0 else chain fs F c old"
  shows "runs (vol F C) (free_chain fs c) () (vol (\<lambda>x. if x \<in> set old then 0 else F x) C)"
proof (cases "old = []")
  case True
  with assms have "free_chain fs c = ret ()" by (subst free_chain_step) simp
  with True show ?thesis by (simp add: runs_ret)
next
  case False
  with assms show ?thesis by (simp add: free_chain_runs)
qed

lemma acquire_slot:
  assumes ds: "chain fs F d ds" and ne: "ds \<noteq> []"
    and old: "replaces fs F (lookup t (dir_slots fs C ds)) old" and apart: "set old \<inter> set ds = {}"
    and room: "free_list fs F \<noteq> []"
    and sized: "\<And>x. valid_cluster fs x \<Longrightarrow> length (C x) = unat (bytes_per_cluster fs)"
  shows "\<exists>F1 C1 ds1 c i.
    runs (vol F C) (case lookup t (dir_slots fs C ds) of
        Some (existing, ec, ei) \<Rightarrow>
          if de_attr existing AND ATTR_DIRECTORY \<noteq> 0 then err
          else bnd (free_chain fs (entry_first_cluster existing)) (\<lambda>_. ret (ec, ei))
      | None \<Rightarrow> dir_alloc_slot fs d) (c, i) (vol F1 C1) \<and>
    slot_ready fs F1 C1 d ds1 t (dir_slots fs C ds) c i \<and>
    unchanged F C (set ds \<union> set old) F1 C1 \<and> (\<forall>x \<in> set ds1. x \<in> set ds \<or> F x = 0) \<and>
    length (free_list fs F) \<le> Suc (length (free_list fs F1)) \<and>
    (\<forall>x. valid_cluster fs x \<longrightarrow> length (C1 x) = unat (bytes_per_cluster fs))"
proof (cases "lookup t (dir_slots fs C ds)")
  case (Some sl)
  obtain e c i where sl: "sl = (e, c, i)" by (cases sl)
  let ?F = "\<lambda>x. if x \<in> set old then 0 else F x"
  from old Some sl have attr: "de_attr e AND ATTR_DIRECTORY = 0"
    and chn: "if old = [] then entry_first_cluster e = 0 else chain fs F (entry_first_cluster e) old"
    by (simp_all add: replaces_def)
  have "chain fs ?F d ds" using ds apart by (subst chain_cong [where F = F]) auto
  then have "slot_ready fs ?F C d ds t (dir_slots fs C ds) c i"
    using chain_distinct [OF total_below_EOC ds] Some sl by (intro ready_existing) simp_all
  moreover have "runs (vol F C) (bnd (free_chain fs (entry_first_cluster e)) (\<lambda>_. ret (c, i))) (c, i) (vol ?F C)"
    by (rule runs_bnd [OF free_old_runs [OF chn] runs_ret])
  moreover have "length (free_list fs F) \<le> length (free_list fs ?F)"
    unfolding free_list_def by (rule length_filter_mono) simp
  ultimately show ?thesis
    using attr sized Some sl
    by (intro exI [of _ ?F] exI [of _ C] exI [of _ ds] exI [of _ c] exI [of _ i]) (auto simp: unchanged_def)
next
  case None
  show ?thesis
  proof (cases "free_slot (dir_slots fs C ds)")
    case (Some sl)
    obtain e c i where sl: "sl = (e, c, i)" by (cases sl)
    have "slot_ready fs F C d ds t (dir_slots fs C ds) c i"
      using chain_distinct [OF total_below_EOC ds] None Some sl ds by (intro ready_free) simp_all
    then show ?thesis
      using dir_alloc_slot_free [OF ds] None Some sl sized
      by (intro exI [of _ F] exI [of _ C] exI [of _ ds] exI [of _ c] exI [of _ i]) (auto simp: unchanged_def)
  next
    case full: None
    from room obtain nc rest where free: "free_list fs F = nc # rest" by (cases "free_list fs F") auto
    then have "nc \<in> set (free_list fs F)" by simp
    then have nc: "valid_cluster fs nc" and nc0: "F nc = 0"
      using free_list_valid [of nc F] by (auto simp: free_list_def)
    let ?F = "F(nc := 0x0FFFFFFF, last ds := nc)" and ?C = "C(nc := replicate (unat (bytes_per_cluster fs)) 0)"
    have fresh: "nc \<notin> set ds" using nc0 chain_nonzero [OF ds] by blast
    have lst: "last ds \<in> set ds" using ne by simp
    have "chain fs ?F d (ds @ [nc])"
      by (rule chain_extend [OF total_below_EOC ds ne nc fresh]) (simp add: EOC_def)
    then have "slot_ready fs ?F ?C d (ds @ [nc]) t (dir_slots fs C ds) nc 0"
      using chain_distinct [OF total_below_EOC ds] fresh full None dir_entries_pos
      by (intro ready_grown) auto
    moreover have "runs (vol F C) (dir_alloc_slot fs d) (nc, 0) (vol ?F ?C)"
      by (rule dir_alloc_slot_grow [OF ds ne full free])
    moreover have "length (free_list fs F) \<le> Suc (length (free_list fs ?F))"
    proof -
      have "F (last ds) \<noteq> 0" using chain_nonzero [OF ds lst] .
      moreover have "nc \<noteq> 0" using nc by (auto simp: valid_cluster_def)
      ultimately have "free_list fs ?F = free_list fs (F(nc := 0x0FFFFFFF))"
        unfolding free_list_def by (intro filter_cong) auto
      also have "\<dots> = rest" by (rule free_list_mark [OF free]) simp
      finally show ?thesis using free by simp
    qed
    moreover have "unchanged F C (set ds \<union> set old) ?F ?C"
      using nc0 lst by (auto simp: unchanged_def)
    ultimately show ?thesis
      using None sized nc0
      by (intro exI [of _ ?F] exI [of _ ?C] exI [of _ "ds @ [nc]"] exI [of _ nc] exI [of _ 0]) auto
  qed
qed

text \<open>\<open>canboot_fat32_write_path\<close>: the named file has the new contents afterwards, the parent still
  resolves, no other cluster in use has changed, and the other names of the directory are found
  as before.\<close>

lemma write_path_runs:
  assumes path: "split_last path 256 16 = Some (parent, leaf)"
    and res: "resolves fs F C (root_cluster fs) (path_comps parent) d W"
    and ds: "chain fs F d ds" and ne: "ds \<noteq> []"
    and old: "replaces fs F (lookup (to_83 leaf) (dir_slots fs C ds)) old"
    and apart: "set old \<inter> set ds = {}" "W \<inter> (set ds \<union> set old) = {}"
    and t: "to_83 leaf ! 0 \<noteq> 0" "to_83 leaf ! 0 \<noteq> 0xE5"
    and len: "unat len = length data" and small: "clusters_for fs (length data) \<le> 256"
    and room: "clusters_for fs (length data) < length (free_list fs F)"
    and sized: "\<And>x. valid_cluster fs x \<Longrightarrow> length (C x) = unat (bytes_per_cluster fs)"
  shows "\<exists>F' C' ds' cs.
    runs (vol F C) (canboot_fat32_write_path (Some fs) (Some path) data len) () (vol F' C') \<and>
    resolves fs F' C' (root_cluster fs) (path_comps parent) d W \<and> chain fs F' d ds' \<and>
    holds_file fs F' C' ds' (to_83 leaf) data cs \<and> unchanged F C (set ds \<union> set old) F' C' \<and>
    (tidy (dir_slots fs C ds) \<longrightarrow> (\<forall>t'. t' \<noteq> to_83 leaf \<longrightarrow>
       lookup t' (dir_slots fs C' ds') = lookup t' (dir_slots fs C ds)))"
proof -
  let ?t = "to_83 leaf" and ?old = "dir_slots fs C ds"
  let ?acquire = "case lookup ?t ?old of
        Some (existing, ec, ei) \<Rightarrow>
          if de_attr existing AND ATTR_DIRECTORY \<noteq> 0 then err
          else bnd (free_chain fs (entry_first_cluster existing)) (\<lambda>_. ret (ec, ei))
      | None \<Rightarrow> dir_alloc_slot fs d"
  have "free_list fs F \<noteq> []" using room by auto
  from acquire_slot [OF ds ne old apart(1) this sized]
  obtain F1 C1 ds1 c i where acq: "runs (vol F C) ?acquire (c, i) (vol F1 C1)"
    and ready: "slot_ready fs F1 C1 d ds1 ?t ?old c i"
    and un1: "unchanged F C (set ds \<union> set old) F1 C1" and ds1: "\<forall>x \<in> set ds1. x \<in> set ds \<or> F x = 0"
    and free: "length (free_list fs F) \<le> Suc (length (free_list fs F1))"
    and sized1: "\<And>x. valid_cluster fs x \<Longrightarrow> length (C1 x) = unat (bytes_per_cluster fs)"
    by blast
  from room free have room1: "clusters_for fs (length data) \<le> length (free_list fs F1)" by simp
  from finish_write [OF ready _ t len small room1 sized1]
  obtain F' C' cs where fin: "runs (vol F1 C1) (bnd (store_data fs data len) (\<lambda>first.
      dir_write_entry fs c i (make_entry ?t 0x20 first len))) () (vol F' C')"
    and post: "chain fs F' d ds1" "holds_file fs F' C' ds1 ?t data cs" and un2: "unchanged F1 C1 (set ds1) F' C'"
    and others: "tidy ?old \<longrightarrow> (\<forall>t'. t' \<noteq> ?t \<longrightarrow> lookup t' (dir_slots fs C' ds1) = lookup t' ?old)"
    by auto
  have un: "unchanged F C (set ds \<union> set old) F' C'"
    using un1 un2 ds1 unfolding unchanged_def by (metis UnI1)
  then have "resolves fs F' C' (root_cluster fs) (path_comps parent) d W"
    using resolves_frame [OF res] resolves_allocated [OF res] apart(2) unfolding unchanged_def by blast
  moreover have "runs (vol F C) (canboot_fat32_write_path (Some fs) (Some path) data len) () (vol F' C')"
    unfolding canboot_fat32_write_path_def path prod.case option.case Let_def
    by (simp add: disk_writable, rule runs_bnd, rule resolve_dir_runs [OF res], rule runs_bnd,
        rule dir_find_runs [OF ds], rule runs_bnd, rule acq)
      (simp add: fin)
  ultimately show ?thesis using post un others by blast
qed

end

end
