(* ===== verification/Fat32_Tree.thy ===== *)
theory Fat32_Tree
  imports Fat32_Files
begin

text \<open>
  Removing files and making and removing directories (\<open>canboot_fat32_unlink_path\<close>,
  \<open>canboot_fat32_mkdir\<close>, \<open>canboot_fat32_rmdir\<close>).
\<close>

lemma dirent_at_zeros:
  "dirent_at (replicate n 0) i = make_entry (replicate 11 0) 0 0 0"
  by (simp add: dirent_at_def make_entry_def Let_def byte_at_def get_le16_def get_le32_def
      list_eq_iff_nth_eq)

text \<open>The first cluster of a new directory holds the two dot entries and nothing else.\<close>

lemma new_dir_slots:
  assumes "2 \<le> dir_entries fs" and "C dc = new_dir_cluster fs dc pc"
  shows "\<exists>rest. cluster_slots fs C dc =
      (make_entry dot_name ATTR_DIRECTORY dc 0, dc, 0) #
      (make_entry dotdot_name ATTR_DIRECTORY (if pc = root_cluster fs then 0 else pc) 0, dc, 1) # rest
    \<and> (\<forall>sl \<in> set rest. \<not> not_end sl)"
proof -
  let ?z = "replicate (unat (bytes_per_cluster fs)) (0 :: u8)"
  let ?e0 = "make_entry dot_name ATTR_DIRECTORY dc 0"
  let ?e1 = "make_entry dotdot_name ATTR_DIRECTORY (if pc = root_cluster fs then 0 else pc) 0"
  let ?b0 = "put_bytes ?z (0 * DIR_ENTRY_SIZE) (dirent_bytes ?e0)"
  let ?b1 = "put_bytes ?b0 (1 * DIR_ENTRY_SIZE) (dirent_bytes ?e1)"
  have fit: "1 * 32 + 32 \<le> unat (bytes_per_cluster fs)"
    using dir_entries_fit [of 1 fs] assms(1) by simp
  have n0: "length (de_name ?e0) = 11" and n1: "length (de_name ?e1) = 11"
    by (simp_all add: dot_name_def dotdot_name_def)
  have len: "length ?b0 = length ?z" using fit length_dirent_bytes [OF n0] by simp
  have C: "C dc = ?b1" by (simp add: assms(2) new_dir_cluster_def)
  have at0: "dirent_at ?b1 0 = ?e0"
    using dirent_at_put_other [OF _ n1, of 0 1 ?b0] dirent_at_put_same [OF n0, of 0 ?z] fit len by simp
  have at1: "dirent_at ?b1 1 = ?e1"
    using dirent_at_put_same [OF n1, of 1 ?b0] fit len by simp
  have at: "\<not> not_end (dirent_at ?b1 i, dc, i)" if "2 \<le> i" for i
    using dirent_at_put_other [OF _ n1, of i 1 ?b0] dirent_at_put_other [OF _ n0, of i 0 ?z] fit len that
    by (simp add: dirent_at_zeros not_end_def name0_def byte_at_def)
  have "[0 ..< dir_entries fs] = 0 # 1 # [2 ..< dir_entries fs]"
    using assms(1) by (simp add: upt_conv_Cons numeral_2_eq_2)
  then show ?thesis
    unfolding cluster_slots_def C using at0 at1 at by (intro exI conjI) auto
qed

lemma new_dir_only_dots:
  assumes "2 \<le> dir_entries fs" and "C dc = new_dir_cluster fs dc pc"
  shows "only_dots (dir_slots fs C [dc])" and "tidy (dir_slots fs C [dc])"
proof -
  obtain rest where slots: "dir_slots fs C [dc] =
      (make_entry dot_name ATTR_DIRECTORY dc 0, dc, 0) #
      (make_entry dotdot_name ATTR_DIRECTORY (if pc = root_cluster fs then 0 else pc) 0, dc, 1) # rest"
    and rest: "\<forall>sl \<in> set rest. \<not> not_end sl"
    using new_dir_slots [where C = C and dc = dc, OF assms] by (auto simp: dir_slots_def)
  have "takeWhile not_end rest = []" using rest by (cases rest) auto
  then show "only_dots (dir_slots fs C [dc])"
    unfolding only_dots_def slots
    by (simp add: not_end_def name0_def is_dot_entry_def dot_name_def dotdot_name_def byte_at_def)
  have "dropWhile not_end rest = rest" using rest by (cases rest) auto
  with rest show "tidy (dir_slots fs C [dc])"
    unfolding tidy_def slots
    by (simp add: not_end_def name0_def dot_name_def dotdot_name_def byte_at_def list_all_iff)
qed

context fat_volume begin

section \<open>Writing an entry\<close>

lemma put_entry_runs:
  assumes ready: "slot_ready fs F C d ds t old c i" and vis: "visible (e, c, i)" and name: "de_name e = t" "length t = 11"
    and sized: "\<And>x. valid_cluster fs x \<Longrightarrow> length (C x) = unat (bytes_per_cluster fs)"
    and C': "C' = C(c := put_bytes (C c) (i * DIR_ENTRY_SIZE) (dirent_bytes e))"
  shows "runs (vol F C) (dir_write_entry fs c i e) () (vol F C')"
    and "lookup t (dir_slots fs C' ds) = Some (e, c, i)"
    and "tidy old \<Longrightarrow> t' \<noteq> t \<Longrightarrow> lookup t' (dir_slots fs C' ds) = lookup t' old"
proof -
  from ready have ds: "chain fs F d ds" and c: "c \<in> set ds" and i: "i < dir_entries fs"
    by (auto simp: slot_ready_def)
  have valid: "valid_cluster fs c" by (rule chain_valid [OF ds c])
  show "runs (vol F C) (dir_write_entry fs c i e) () (vol F C')"
    unfolding C' using dir_write_entry_runs [OF valid i] name by simp
  have "dir_slots fs C' ds = set_slot c i e (dir_slots fs C ds)"
    unfolding C' by (rule dir_slots_put) (simp_all add: i name sized valid)
  then show "lookup t (dir_slots fs C' ds) = Some (e, c, i)"
    and "tidy old \<Longrightarrow> t' \<noteq> t \<Longrightarrow> lookup t' (dir_slots fs C' ds) = lookup t' old"
    using ready vis name unfolding slot_ready_def by auto
qed

section \<open>Removing an entry\<close>

lemma mark_deleted_lookup:
  assumes ds: "chain fs F d ds" and look: "lookup t (dir_slots fs C ds) = Some (e, c, i)"
    and sized: "\<And>x. valid_cluster fs x \<Longrightarrow> length (C x) = unat (bytes_per_cluster fs)"
    and C': "C' = C(c := (C c)[i * DIR_ENTRY_SIZE := 0xE5])"
  shows "unique_name t (dir_slots fs C ds) \<Longrightarrow> lookup t (dir_slots fs C' ds) = None"
    and "t' \<noteq> t \<Longrightarrow> lookup t' (dir_slots fs C' ds) = lookup t' (dir_slots fs C ds)"
proof -
  note pos = distinct_dir_slots [OF chain_distinct [OF total_below_EOC ds], of fs C]
  have c: "c \<in> set ds" and i: "i < dir_entries fs" and e: "e = dirent_at (C c) i"
    using lookup_in [OF look] by (simp_all add: in_dir_slots)
  have slots: "dir_slots fs C' ds = set_slot c i (erased e) (dir_slots fs C ds)"
    unfolding C' e by (rule dir_slots_erase) (simp_all add: i sized chain_valid [OF ds c])
  show "unique_name t (dir_slots fs C ds) \<Longrightarrow> lookup t (dir_slots fs C' ds) = None"
    unfolding slots by (rule lookup_erase [OF pos look]) (simp_all add: e)
  show "t' \<noteq> t \<Longrightarrow> lookup t' (dir_slots fs C' ds) = lookup t' (dir_slots fs C ds)"
    unfolding slots using erased_slot [of e "(c, i)"] e
    by (intro lookup_replace_other [OF pos look]) (auto simp: visible_def)
qed

lemma unlink_path_runs:
  assumes path: "split_last path 256 16 = Some (parent, leaf)"
    and res: "resolves fs F C (root_cluster fs) (path_comps parent) d W" and ds: "chain fs F d ds"
    and look: "lookup (to_83 leaf) (dir_slots fs C ds) = Some (e, c, i)"
    and old: "replaces fs F (Some (e, c, i)) old"
  shows "runs (vol F C) (canboot_fat32_unlink_path (Some fs) (Some path)) ()
    (vol (\<lambda>x. if x \<in> set old then 0 else F x) (C(c := (C c)[i * DIR_ENTRY_SIZE := 0xE5])))"
proof -
  have c: "valid_cluster fs c" and i: "i < dir_entries fs"
    using lookup_in [OF look] chain_valid [OF ds] by (auto simp: in_dir_slots)
  from old have attr: "de_attr e AND ATTR_DIRECTORY = 0"
    and chn: "if old = [] then entry_first_cluster e = 0 else chain fs F (entry_first_cluster e) old"
    by (simp_all add: replaces_def)
  have found: "runs (vol F C) (resolve_entry fs path) (Some (e, c, i)) (vol F C)"
    using resolve_entry_runs [OF path res ds] look by simp
  show ?thesis
    unfolding canboot_fat32_unlink_path_def prod.case option.case
    by (simp add: disk_writable, rule runs_bnd, rule found)
      (simp add: attr, rule runs_bnd, rule free_old_runs [OF chn], rule dir_mark_deleted_runs [OF c i])
qed

section \<open>Directories\<close>

lemma rmdir_runs:
  assumes path: "split_last path 256 16 = Some (parent, leaf)"
    and res: "resolves fs F C (root_cluster fs) (path_comps parent) d W" and ds: "chain fs F d ds"
    and look: "lookup (to_83 leaf) (dir_slots fs C ds) = Some (e, c, i)"
    and attr: "de_attr e AND ATTR_DIRECTORY \<noteq> 0"
    and es: "chain fs F (entry_first_cluster e) es" and empty: "only_dots (dir_slots fs C es)"
  shows "runs (vol F C) (canboot_fat32_rmdir (Some fs) (Some path)) ()
    (vol (\<lambda>x. if x \<in> set es then 0 else F x) (C(c := (C c)[i * DIR_ENTRY_SIZE := 0xE5])))"
proof -
  have c: "valid_cluster fs c" and i: "i < dir_entries fs"
    using lookup_in [OF look] chain_valid [OF ds] by (auto simp: in_dir_slots)
  have found: "runs (vol F C) (resolve_entry fs path) (Some (e, c, i)) (vol F C)"
    using resolve_entry_runs [OF path res ds] look by simp
  have emp: "runs (vol F C) (dir_is_empty fs (entry_first_cluster e)) True (vol F C)"
    using dir_is_empty_runs [OF es, of C] empty by simp
  show ?thesis
    unfolding canboot_fat32_rmdir_def prod.case option.case
    by (simp add: disk_writable, rule runs_bnd, rule found)
      (simp add: attr Let_def, rule runs_bnd, rule emp, simp, rule runs_bnd, rule free_chain_runs [OF es],
        rule dir_mark_deleted_runs [OF c i])
qed

lemma rmdir_nonempty_fails:
  assumes path: "split_last path 256 16 = Some (parent, leaf)"
    and res: "resolves fs F C (root_cluster fs) (path_comps parent) d W" and ds: "chain fs F d ds"
    and look: "lookup (to_83 leaf) (dir_slots fs C ds) = Some (e, c, i)"
    and es: "chain fs F (entry_first_cluster e) es" and nonempty: "\<not> only_dots (dir_slots fs C es)"
  shows "fails (vol F C) (canboot_fat32_rmdir (Some fs) (Some path)) (vol F C)"
proof -
  have found: "runs (vol F C) (resolve_entry fs path) (Some (e, c, i)) (vol F C)"
    using resolve_entry_runs [OF path res ds] look by simp
  have emp: "runs (vol F C) (dir_is_empty fs (entry_first_cluster e)) False (vol F C)"
    using dir_is_empty_runs [OF es, of C] nonempty by simp
  have "fails (vol F C) (if de_attr e AND ATTR_DIRECTORY = 0 then err else
         let dc = entry_first_cluster e in
         bnd (dir_is_empty fs dc) (\<lambda>empty.
         if \<not> empty then err else
         bnd (free_chain fs dc) (\<lambda>_.
         dir_mark_deleted fs c i))) (vol F C)"
    by (simp add: fails_err Let_def, intro impI, rule fails_bnd, rule emp, simp add: fails_err)
  then show ?thesis
    unfolding canboot_fat32_rmdir_def prod.case option.case
    by (simp add: disk_writable, intro fails_bnd [OF found]) simp
qed

lemma dir_has_runs:
  assumes "chain fs F d ds"
  shows "runs (vol F C) (dir_has fs d t) (lookup t (dir_slots fs C ds) \<noteq> None) (vol F C)"
  unfolding dir_has_def
  by (rule runs_bnd, rule runs_attempt, rule dir_find_runs [OF assms])
    (auto simp: runs_ret split: option.split)

text \<open>A new directory is found under its name, is empty, and nothing else changes.\<close>

lemma mkdir_runs:
  assumes path: "split_last path 256 16 = Some (parent, leaf)"
    and res: "resolves fs F C (root_cluster fs) (path_comps parent) d W"
    and ds: "chain fs F d ds" and ne: "ds \<noteq> []"
    and new: "lookup (to_83 leaf) (dir_slots fs C ds) = None" and apart: "W \<inter> set ds = {}"
    and t: "to_83 leaf ! 0 \<noteq> 0" "to_83 leaf ! 0 \<noteq> 0xE5"
    and room: "free_list fs F = dc # nc # rest" and two: "2 \<le> dir_entries fs"
    and sized: "\<And>x. valid_cluster fs x \<Longrightarrow> length (C x) = unat (bytes_per_cluster fs)"
  shows "\<exists>F' C' ds' p.
    runs (vol F C) (canboot_fat32_mkdir (Some fs) (Some path)) () (vol F' C') \<and>
    resolves fs F' C' (root_cluster fs) (path_comps parent) d W \<and> chain fs F' d ds' \<and>
    lookup (to_83 leaf) (dir_slots fs C' ds') = Some (make_entry (to_83 leaf) ATTR_DIRECTORY dc 0, p) \<and>
    chain fs F' dc [dc] \<and> C' dc = new_dir_cluster fs dc d \<and> unchanged F C (set ds) F' C' \<and>
    (tidy (dir_slots fs C ds) \<longrightarrow> (\<forall>t'. t' \<noteq> to_83 leaf \<longrightarrow>
       lookup t' (dir_slots fs C' ds') = lookup t' (dir_slots fs C ds)))"
proof -
  let ?t = "to_83 leaf" and ?old = "dir_slots fs C ds"
  let ?F1 = "F(dc := 0x0FFFFFFF)" and ?C1 = "C(dc := new_dir_cluster fs dc d)"
  have "dc \<in> set (free_list fs F)" using room by simp
  then have dc: "valid_cluster fs dc" and dc0: "F dc = 0"
    using free_list_valid [of dc F] by (auto simp: free_list_def)
  have fresh: "dc \<notin> set ds" using dc0 chain_nonzero [OF ds] by blast
  have free1: "free_list fs ?F1 = nc # rest" by (rule free_list_mark [OF room]) simp
  have fit: "1 * 32 + 32 \<le> unat (bytes_per_cluster fs)" using dir_entries_fit [of 1 fs] two by simp
  have len: "length (new_dir_cluster fs dc d) = unat (bytes_per_cluster fs)"
    using fit by (simp add: new_dir_cluster_def DIR_ENTRY_SIZE_def length_dirent_bytes dot_name_def dotdot_name_def)
  have sized1: "length (?C1 x) = unat (bytes_per_cluster fs)" if "valid_cluster fs x" for x
    using sized [OF that] len by simp
  have ds1: "chain fs ?F1 d ds" using ds fresh by (subst chain_cong [where F = F]) auto
  have same: "dir_slots fs ?C1 ds = ?old" by (rule dir_slots_cong) (use fresh in auto)
  have "\<exists>F2 C2 ds2 c i. runs (vol ?F1 ?C1) (dir_alloc_slot fs d) (c, i) (vol F2 C2) \<and>
      slot_ready fs F2 C2 d ds2 ?t ?old c i \<and> unchanged ?F1 ?C1 (set ds) F2 C2 \<and>
      (\<forall>x \<in> set ds2. x \<in> set ds \<or> ?F1 x = 0) \<and>
      (\<forall>x. valid_cluster fs x \<longrightarrow> length (C2 x) = unat (bytes_per_cluster fs))"
    using acquire_slot [OF ds1 ne, of ?t ?C1 "[]"] free1 sized1 same new
    by (simp add: replaces_def del: fun_upd_apply) blast
  then obtain F2 C2 ds2 c i where slot: "runs (vol ?F1 ?C1) (dir_alloc_slot fs d) (c, i) (vol F2 C2)"
    and ready: "slot_ready fs F2 C2 d ds2 ?t ?old c i" and un2: "unchanged ?F1 ?C1 (set ds) F2 C2"
    and ds2: "\<forall>x \<in> set ds2. x \<in> set ds \<or> ?F1 x = 0"
    and sized2: "\<And>x. valid_cluster fs x \<Longrightarrow> length (C2 x) = unat (bytes_per_cluster fs)"
    by blast
  let ?e = "make_entry ?t ATTR_DIRECTORY dc 0"
  let ?C' = "C2(c := put_bytes (C2 c) (i * DIR_ENTRY_SIZE) (dirent_bytes ?e))"
  have vis: "visible (?e, c, i)"
    using t by (auto simp: visible_def unused_def name0_def byte_at_def ATTR_LFN_def ATTR_VOLUME_ID_def ATTR_DIRECTORY_def)
  note put = put_entry_runs [OF ready vis _ _ sized2 refl]
  have ds2': "chain fs F2 d ds2" and c: "c \<in> set ds2" using ready by (auto simp: slot_ready_def)
  have "dc \<notin> set ds2" using ds2 fresh by auto
  then have "dc \<noteq> c" using c by auto
  have keep: "F2 x = ?F1 x \<and> C2 x = ?C1 x" if "?F1 x \<noteq> 0" and "x \<notin> set ds" for x
    using un2 that unfolding unchanged_def by blast
  have dc2: "F2 dc = 0x0FFFFFFF" "C2 dc = new_dir_cluster fs dc d"
    using keep [of dc] fresh by simp_all
  have un: "unchanged F C (set ds) F2 ?C'"
    unfolding unchanged_def
  proof (intro allI impI)
    fix x assume x: "F x \<noteq> 0 \<and> x \<notin> set ds"
    then have "x \<noteq> dc" using dc0 by auto
    with x ds2 c have "x \<noteq> c" by auto
    with x keep [of x] \<open>x \<noteq> dc\<close> show "F2 x = F x \<and> ?C' x = C x" by simp
  qed
  then have res': "resolves fs F2 ?C' (root_cluster fs) (path_comps parent) d W"
    using resolves_frame [OF res] resolves_allocated [OF res] apart unfolding unchanged_def by blast
  have mark: "runs (vol F C) (write_fat_entry fs dc (EOC OR 0x07)) () (vol ?F1 C)"
    using write_fat_entry_runs [OF dc, of F C "EOC OR 0x07"] by (simp add: EOC_def)
  have absent: "runs (vol F C) (dir_has fs d ?t) False (vol F C)"
    using dir_has_runs [OF ds, of C ?t] new by simp
  have "runs (vol F C) (canboot_fat32_mkdir (Some fs) (Some path)) () (vol F2 ?C')"
    unfolding canboot_fat32_mkdir_def path prod.case option.case Let_def
    by (simp only: disk_writable not_too_big not_True_eq_False if_False, rule runs_bnd,
        rule resolve_dir_runs [OF res], rule runs_bnd, rule absent, simp only: if_False, rule runs_bnd, rule find_free_cluster_runs [OF room], rule runs_bnd, rule mark,
        rule runs_bnd, rule write_cluster_runs [OF dc len], rule runs_bnd, rule slot)
      (simp add: put(1) del: fun_upd_apply)
  moreover have "chain fs F2 dc [dc]" using dc dc2(1) by (simp add: EOC_def)
  moreover have "?C' dc = new_dir_cluster fs dc d" using dc2(2) \<open>dc \<noteq> c\<close> by simp
  ultimately show ?thesis
    using res' ds2' put(2, 3) un by (intro exI [of _ F2] exI [of _ ?C'] exI [of _ ds2] exI [of _ "(c, i)"]) auto
qed

end

end
