(* ===== verification/Usb_Storage.thy ===== *)
theory Usb_Storage
  imports Disk
begin

text \<open>
  USB mass storage (\<open>hal/disk/usb_storage.c\<close>): SCSI commands over the Bulk-Only Transport. The
  xHCI bulk primitive below it drives hardware and is a parameter of the model. The locale
  \<open>bot_device\<close> says how a conforming device answers the two transfer commands; from it the driver
  is shown to be a block device, whatever the size of a request. A model of such a device
  discharges the laws.
\<close>

section \<open>The driver\<close>

definition CBW_SIG :: u32 where "CBW_SIG = 0x43425355"
definition CSW_SIG :: u32 where "CSW_SIG = 0x53425355"
definition SCSI_TEST_UNIT_READY :: u8 where "SCSI_TEST_UNIT_READY = 0x00"
definition SCSI_REQUEST_SENSE :: u8 where "SCSI_REQUEST_SENSE = 0x03"
definition SCSI_INQUIRY :: u8 where "SCSI_INQUIRY = 0x12"
definition SCSI_READ_CAPACITY10 :: u8 where "SCSI_READ_CAPACITY10 = 0x25"
definition SCSI_READ10 :: u8 where "SCSI_READ10 = 0x28"
definition SCSI_WRITE10 :: u8 where "SCSI_WRITE10 = 0x2A"
definition BOUNCE_BYTES :: u32 where "BOUNCE_BYTES = 8192"
definition MSC_MAX :: nat where "MSC_MAX = 4"

record msc =
  msc_slot :: u8
  in_dci :: u8
  out_dci :: u8
  msc_block_size :: u32
  msc_block_count :: u64

text \<open>\<open>canboot_xhci_bulk\<close>, one function per direction: an OUT transfer sends bytes, an IN transfer of
  at most \<open>len\<close> bytes delivers the bytes that were received. \<open>'h\<close> is the controller and the device.\<close>

record 'h xhci =
  bulk_out :: "u8 \<Rightarrow> u8 \<Rightarrow> bytes \<Rightarrow> ('h, unit) prog"
  bulk_in :: "u8 \<Rightarrow> u8 \<Rightarrow> u32 \<Rightarrow> ('h, bytes) prog"

text \<open>The static variables of the file, and the hardware.\<close>

record 'h usb_state =
  g_tag :: u32
  g_csw :: bytes
  g_bounce :: bytes
  hw :: 'h

definition on_hw :: "('h, 'a) prog \<Rightarrow> ('h usb_state, 'a) prog" where
  "on_hw m = (\<lambda>s. case m (hw s) of None \<Rightarrow> None | Some (r, h) \<Rightarrow> Some (r, s\<lparr> hw := h \<rparr>))"

definition put_be32 :: "u32 \<Rightarrow> bytes" where
  "put_be32 v = [ucast (drop_bit 24 v), ucast (drop_bit 16 v), ucast (drop_bit 8 v), ucast v]"

definition get_be32 :: "bytes \<Rightarrow> nat \<Rightarrow> u32" where
  "get_be32 p i = push_bit 24 (ucast (byte_at p i)) OR push_bit 16 (ucast (byte_at p (i + 1)))
     OR push_bit 8 (ucast (byte_at p (i + 2))) OR ucast (byte_at p (i + 3))"

definition cbw_bytes :: "u32 \<Rightarrow> u32 \<Rightarrow> bool \<Rightarrow> bytes \<Rightarrow> bytes" where
  "cbw_bytes tag dlen data_in cdb =
     le32 CBW_SIG @ le32 tag @ le32 dlen
     @ [if data_in then 0x80 else 0x00, 0, of_nat (length cdb) AND 0x1F]
     @ cdb @ replicate (16 - length cdb) 0"

text \<open>The data stage always uses the bounce buffer.\<close>

definition bot_xfer :: "'h xhci \<Rightarrow> msc \<Rightarrow> bytes \<Rightarrow> bool \<Rightarrow> u32 \<Rightarrow> ('h usb_state, u8) prog" where
  "bot_xfer x m cdb data_in dlen =
     bnd (gets g_tag) (\<lambda>tag.
     bnd (modify (\<lambda>s. s\<lparr> g_tag := tag + 1 \<rparr>)) (\<lambda>_.
     bnd (on_hw (bulk_out x (msc_slot m) (out_dci m) (cbw_bytes tag dlen data_in cdb))) (\<lambda>_.
     bnd (if dlen \<noteq> 0 then
            (if data_in then
               bnd (on_hw (bulk_in x (msc_slot m) (in_dci m) dlen)) (\<lambda>got.
               modify (\<lambda>s. s\<lparr> g_bounce := put_bytes (g_bounce s) 0 got \<rparr>))
             else
               bnd (gets g_bounce) (\<lambda>b.
               on_hw (bulk_out x (msc_slot m) (out_dci m) (take (unat dlen) b))))
          else ret ()) (\<lambda>_.
     bnd (on_hw (bulk_in x (msc_slot m) (in_dci m) 13)) (\<lambda>got.
     bnd (modify (\<lambda>s. s\<lparr> g_csw := put_bytes (g_csw s) 0 got \<rparr>)) (\<lambda>_.
     bnd (gets g_csw) (\<lambda>csw.
     if get_le32 csw 0 \<noteq> CSW_SIG \<or> get_le32 csw 4 \<noteq> tag then err
     else ret (byte_at csw 12))))))))"

definition request_sense :: "'h xhci \<Rightarrow> msc \<Rightarrow> ('h usb_state, unit) prog" where
  "request_sense x m =
     bnd (attempt (bot_xfer x m [SCSI_REQUEST_SENSE, 0, 0, 0, 18, 0] True 18)) (\<lambda>_. ret ())"

text \<open>At most 16 tries; \<open>tries\<close> is the number left.\<close>

primrec unit_ready_loop :: "'h xhci \<Rightarrow> msc \<Rightarrow> nat \<Rightarrow> ('h usb_state, bool) prog" where
  "unit_ready_loop x m 0 = ret False"
| "unit_ready_loop x m (Suc tries) =
     bnd (attempt (bot_xfer x m [SCSI_TEST_UNIT_READY, 0, 0, 0, 0, 0] False 0)) (\<lambda>st.
     case st of
       Err \<Rightarrow> ret False
     | Ok v \<Rightarrow>
         if v = 0 then ret True
         else bnd (request_sense x m) (\<lambda>_. unit_ready_loop x m tries))"

definition unit_ready :: "'h xhci \<Rightarrow> msc \<Rightarrow> ('h usb_state, bool) prog" where
  "unit_ready x m = unit_ready_loop x m 16"

text \<open>\<open>false\<close> is \<open>Err\<close>; otherwise the record with its size fields set.\<close>

definition read_capacity :: "'h xhci \<Rightarrow> msc \<Rightarrow> ('h usb_state, msc) prog" where
  "read_capacity x m =
     bnd (bot_xfer x m [SCSI_READ_CAPACITY10, 0, 0, 0, 0, 0, 0, 0, 0, 0] True 8) (\<lambda>st.
     if st \<noteq> 0 then err else
     bnd (gets g_bounce) (\<lambda>b.
     let last_lba = get_be32 b 0; blksz = get_be32 b 4 in
     if blksz < 512 \<or> 4096 < blksz then err
     else ret (m\<lparr> msc_block_size := blksz, msc_block_count := ucast last_lba + 1 \<rparr>)))"

definition rw10_cdb :: "bool \<Rightarrow> u64 \<Rightarrow> u32 \<Rightarrow> bytes" where
  "rw10_cdb wr lba chunk =
     [if wr then SCSI_WRITE10 else SCSI_READ10, 0] @ put_be32 (ucast lba)
     @ [0, ucast (drop_bit 8 chunk), ucast chunk, 0]"

text \<open>\<open>p\<close> is what is left of the caller's buffer in a write, \<open>out\<close> what a read has stored so far.\<close>

partial_function (option) rw10 ::
    "'h xhci \<Rightarrow> msc \<Rightarrow> bool \<Rightarrow> u64 \<Rightarrow> u32 \<Rightarrow> bytes \<Rightarrow> bytes \<Rightarrow> ('h usb_state, bytes) prog" where
  "rw10 x m wr lba nblk p out s =
    (if nblk = 0 then ret out s else
     (let per = BOUNCE_BYTES div msc_block_size m;
          chunk = (if nblk < per then nblk else per);
          len = chunk * msc_block_size m;
          cdb = rw10_cdb wr lba chunk in
      bnd (if wr then modify (\<lambda>s. s\<lparr> g_bounce := put_bytes (g_bounce s) 0 (take (unat len) p) \<rparr>)
           else ret ()) (\<lambda>_.
      bnd (bot_xfer x m cdb (\<not> wr) len) (\<lambda>st.
      if st \<noteq> 0 then err else
      bnd (gets g_bounce) (\<lambda>b.
      rw10 x m wr (lba + ucast chunk) (nblk - chunk) (drop (unat len) p)
        (if wr then out else out @ take (unat len) b))))) s)"

definition usb_read :: "'h xhci \<Rightarrow> msc \<Rightarrow> u64 \<Rightarrow> u32 \<Rightarrow> ('h usb_state, bytes) prog" where
  "usb_read x m lba n = rw10 x m False lba n [] []"

definition usb_write :: "'h xhci \<Rightarrow> msc \<Rightarrow> u64 \<Rightarrow> u32 \<Rightarrow> bytes \<Rightarrow> ('h usb_state, unit) prog" where
  "usb_write x m lba n buf = bnd (rw10 x m True lba n buf []) (\<lambda>_. ret ())"

definition usb_disk :: "'h xhci \<Rightarrow> nat \<Rightarrow> msc \<Rightarrow> 'h usb_state canboot_disk" where
  "usb_disk x i m = \<lparr>
     dk_name = ascii ''usb'' @ [of_nat (48 + i)],
     dk_kind = CANBOOT_DISK_KIND_VIRTIO_BLK,
     block_size = msc_block_size m, block_count = msc_block_count m, writable = True,
     read_fn = Some (usb_read x m), write_fn = Some (usb_write x m) \<rparr>"

text \<open>\<open>canboot_xhci_ensure_init\<close>, \<open>canboot_xhci_msc_count\<close> and \<open>canboot_xhci_msc_get\<close> are given by
  \<open>ready\<close> and \<open>get\<close>, the bound devices in index order.\<close>

primrec usb_bind :: "'h xhci \<Rightarrow> (nat \<times> (u8 \<times> u8 \<times> u8) option) list \<Rightarrow> bool
    \<Rightarrow> 'h usb_state disk_registry \<Rightarrow> ('h usb_state, bool \<times> 'h usb_state disk_registry) prog" where
  "usb_bind x [] any reg = ret (any, reg)"
| "usb_bind x (d # rest) any reg =
    (case d of
       (i, None) \<Rightarrow> usb_bind x rest any reg
     | (i, Some (sl, ind, outd)) \<Rightarrow>
         let m = \<lparr> msc_slot = sl, in_dci = ind, out_dci = outd, msc_block_size = 0, msc_block_count = 0 \<rparr> in
         bnd (attempt (bot_xfer x m [SCSI_INQUIRY, 0, 0, 0, 36, 0] True 36)) (\<lambda>_.
         bnd (unit_ready x m) (\<lambda>rdy.
         if \<not> rdy then usb_bind x rest any reg else
         bnd (attempt (read_capacity x m)) (\<lambda>cap.
         case cap of
           Err \<Rightarrow> usb_bind x rest any reg
         | Ok m' \<Rightarrow>
             (case canboot_disk_register (Some (usb_disk x i m')) reg of
                (added, reg') \<Rightarrow> usb_bind x rest (any \<or> added) reg')))))"

definition canboot_usb_storage_init :: "'h xhci \<Rightarrow> bool \<Rightarrow> (u8 \<times> u8 \<times> u8) option list
    \<Rightarrow> 'h usb_state disk_registry \<Rightarrow> ('h usb_state, bool \<times> 'h usb_state disk_registry) prog" where
  "canboot_usb_storage_init x ready devs reg =
    (if \<not> ready then ret (False, reg)
     else (let n = min (length devs) MSC_MAX in
           usb_bind x (enumerate 0 (take n devs)) False reg))"

section \<open>A conforming device\<close>

definition csw_bytes :: "u32 \<Rightarrow> u8 \<Rightarrow> bytes" where
  "csw_bytes tag st = le32 CSW_SIG @ le32 tag @ le32 0 @ [st]"

text \<open>An idle device answers a READ(10) or WRITE(10) command block for blocks inside the medium with
  its data stage and a good status that echoes the tag, and is idle again.\<close>

locale bot_device =
  fixes x :: "'h xhci" and m :: msc and dev :: "'h \<Rightarrow> nat \<Rightarrow> bytes" and idle :: "'h \<Rightarrow> bool"
  assumes block_size_ok: "512 \<le> unat (msc_block_size m)" "unat (msc_block_size m) \<le> 4096"
    and block_count_ok: "unat (msc_block_count m) \<le> 2 ^ 32"
    and length_dev: "idle h \<Longrightarrow> i < unat (msc_block_count m) \<Longrightarrow> length (dev h i) = unat (msc_block_size m)"
    and read10: "idle h \<Longrightarrow> 0 < unat n \<Longrightarrow> unat n * unat (msc_block_size m) \<le> 8192 \<Longrightarrow>
      unat lba + unat n \<le> unat (msc_block_count m) \<Longrightarrow>
      \<exists>h1 h2 h3.
        bulk_out x (msc_slot m) (out_dci m)
          (cbw_bytes tag (n * msc_block_size m) True (rw10_cdb False lba n)) h = Some (Ok (), h1) \<and>
        bulk_in x (msc_slot m) (in_dci m) (n * msc_block_size m) h1
          = Some (Ok (blocks (dev h) (unat lba) (unat n)), h2) \<and>
        bulk_in x (msc_slot m) (in_dci m) 13 h2 = Some (Ok (csw_bytes tag 0), h3) \<and>
        idle h3 \<and> dev h3 = dev h"
    and write10: "idle h \<Longrightarrow> 0 < unat n \<Longrightarrow> unat n * unat (msc_block_size m) \<le> 8192 \<Longrightarrow>
      unat lba + unat n \<le> unat (msc_block_count m) \<Longrightarrow> length buf = unat n * unat (msc_block_size m) \<Longrightarrow>
      \<exists>h1 h2 h3.
        bulk_out x (msc_slot m) (out_dci m)
          (cbw_bytes tag (n * msc_block_size m) False (rw10_cdb True lba n)) h = Some (Ok (), h1) \<and>
        bulk_out x (msc_slot m) (out_dci m) buf h1 = Some (Ok (), h2) \<and>
        bulk_in x (msc_slot m) (in_dci m) 13 h2 = Some (Ok (csw_bytes tag 0), h3) \<and>
        idle h3 \<and> dev h3 = put_blocks (unat (msc_block_size m)) (dev h) (unat lba) (unat n) buf"

definition usb_ok :: "('h \<Rightarrow> bool) \<Rightarrow> 'h usb_state \<Rightarrow> bool" where
  "usb_ok idle s \<longleftrightarrow> idle (hw s) \<and> length (g_bounce s) = 8192 \<and> length (g_csw s) = 13"

definition usb_blk :: "('h \<Rightarrow> nat \<Rightarrow> bytes) \<Rightarrow> 'h usb_state \<Rightarrow> nat \<Rightarrow> bytes" where
  "usb_blk dev s = dev (hw s)"

lemma csw_fields:
  "get_le32 (csw_bytes tag st) 0 = CSW_SIG" "get_le32 (csw_bytes tag st) 4 = tag"
  "byte_at (csw_bytes tag st) 12 = st" "length (csw_bytes tag st) = 13"
  using le32_join [of CSW_SIG] le32_join [of tag]
  by (simp_all add: csw_bytes_def get_le32_def byte_at_def le32_def)

lemma put_bytes_all: "length xs = length buf \<Longrightarrow> put_bytes buf 0 xs = xs"
  by (simp add: put_bytes_def)

lemma rw10_step:
  "rw10 x m wr lba nblk p out =
    (if nblk = 0 then ret out else
     (let per = BOUNCE_BYTES div msc_block_size m;
          chunk = (if nblk < per then nblk else per);
          len = chunk * msc_block_size m;
          cdb = rw10_cdb wr lba chunk in
      bnd (if wr then modify (\<lambda>s. s\<lparr> g_bounce := put_bytes (g_bounce s) 0 (take (unat len) p) \<rparr>)
           else ret ()) (\<lambda>_.
      bnd (bot_xfer x m cdb (\<not> wr) len) (\<lambda>st.
      if st \<noteq> 0 then err else
      bnd (gets g_bounce) (\<lambda>b.
      rw10 x m wr (lba + ucast chunk) (nblk - chunk) (drop (unat len) p)
        (if wr then out else out @ take (unat len) b))))))"
  by (rule ext) (simp add: rw10.simps [of x m wr lba nblk p out] Let_def)

text \<open>One pass of the loop moves this many blocks, at least one and at most a bounce buffer full.\<close>

definition rw_chunk :: "msc \<Rightarrow> u32 \<Rightarrow> u32" where
  "rw_chunk m nblk = (let per = BOUNCE_BYTES div msc_block_size m in if nblk < per then nblk else per)"

context bot_device begin

abbreviation med :: "(nat \<Rightarrow> bytes) \<Rightarrow> 'h usb_state \<Rightarrow> bool" where
  "med B \<equiv> (\<lambda>s. usb_ok idle s \<and> usb_blk dev s = B)"

lemma len_no_wrap:
  assumes "unat n * unat (msc_block_size m) \<le> 8192"
  shows "unat (n * msc_block_size m) = unat n * unat (msc_block_size m)"
  using assms by (intro unat_mult_no_wrap) simp

lemma bot_read:
  assumes "0 < unat n" and len: "unat n * unat (msc_block_size m) \<le> 8192"
    and lba: "unat lba + unat n \<le> unat (msc_block_count m)"
  shows "runs (med B) (bot_xfer x m (rw10_cdb False lba n) True (n * msc_block_size m)) 0
    (\<lambda>s. med B s \<and> take (unat n * unat (msc_block_size m)) (g_bounce s) = blocks B (unat lba) (unat n))"
proof (rule runsI)
  fix s assume s: "med B s"
  then have idle: "idle (hw s)" and B: "dev (hw s) = B" by (simp_all add: usb_ok_def usb_blk_def)
  from read10 [OF idle assms, of "g_tag s"] obtain h1 h2 h3 where
    h: "bulk_out x (msc_slot m) (out_dci m)
        (cbw_bytes (g_tag s) (n * msc_block_size m) True (rw10_cdb False lba n)) (hw s) = Some (Ok (), h1)"
      "bulk_in x (msc_slot m) (in_dci m) (n * msc_block_size m) h1
        = Some (Ok (blocks B (unat lba) (unat n)), h2)"
      "bulk_in x (msc_slot m) (in_dci m) 13 h2 = Some (Ok (csw_bytes (g_tag s) 0), h3)"
      "idle h3" "dev h3 = B"
    using B by auto
  have data: "length (blocks B (unat lba) (unat n)) = unat n * unat (msc_block_size m)"
    using length_dev [OF idle] B lba by (intro length_blocks) auto
  have "n * msc_block_size m \<noteq> 0"
    using len_no_wrap [OF len] assms(1) block_size_ok by (metis mult_is_0 not_numeral_le_zero less_irrefl unat_0)
  with s h data len show "\<exists>s'. bot_xfer x m (rw10_cdb False lba n) True (n * msc_block_size m) s = Some (Ok 0, s') \<and>
      med B s' \<and> take (unat n * unat (msc_block_size m)) (g_bounce s') = blocks B (unat lba) (unat n)"
    by (auto simp: bot_xfer_def bnd_def gets_def modify_def on_hw_def ret_def usb_ok_def usb_blk_def
        put_bytes_all csw_fields)
      (simp_all add: put_bytes_def)
qed

lemma bot_write:
  assumes "0 < unat n" and len: "unat n * unat (msc_block_size m) \<le> 8192"
    and lba: "unat lba + unat n \<le> unat (msc_block_count m)"
    and buf: "length buf = unat n * unat (msc_block_size m)"
  shows "runs (\<lambda>s. med B s \<and> take (unat n * unat (msc_block_size m)) (g_bounce s) = buf)
    (bot_xfer x m (rw10_cdb True lba n) False (n * msc_block_size m)) 0
    (med (put_blocks (unat (msc_block_size m)) B (unat lba) (unat n) buf))"
proof (rule runsI)
  fix s assume s: "med B s \<and> take (unat n * unat (msc_block_size m)) (g_bounce s) = buf"
  then have idle: "idle (hw s)" and B: "dev (hw s) = B" by (simp_all add: usb_ok_def usb_blk_def)
  from write10 [OF idle assms, of "g_tag s"] obtain h1 h2 h3 where
    h: "bulk_out x (msc_slot m) (out_dci m)
        (cbw_bytes (g_tag s) (n * msc_block_size m) False (rw10_cdb True lba n)) (hw s) = Some (Ok (), h1)"
      "bulk_out x (msc_slot m) (out_dci m) buf h1 = Some (Ok (), h2)"
      "bulk_in x (msc_slot m) (in_dci m) 13 h2 = Some (Ok (csw_bytes (g_tag s) 0), h3)"
      "idle h3" "dev h3 = put_blocks (unat (msc_block_size m)) B (unat lba) (unat n) buf"
    using B by auto
  have "n * msc_block_size m \<noteq> 0"
    using len_no_wrap [OF len] assms(1) block_size_ok by (metis mult_is_0 not_numeral_le_zero less_irrefl unat_0)
  with s h show "\<exists>s'. bot_xfer x m (rw10_cdb True lba n) False (n * msc_block_size m) s = Some (Ok 0, s') \<and>
      med (put_blocks (unat (msc_block_size m)) B (unat lba) (unat n) buf) s'"
    by (auto simp: bot_xfer_def bnd_def gets_def modify_def on_hw_def ret_def usb_ok_def usb_blk_def
        put_bytes_all csw_fields len_no_wrap [OF len])
qed

lemma chunk_bounds:
  assumes "nblk \<noteq> 0"
  shows "0 < unat (rw_chunk m nblk)" and "unat (rw_chunk m nblk) * unat (msc_block_size m) \<le> 8192"
    and "unat (rw_chunk m nblk) \<le> unat nblk" and "unat (nblk - rw_chunk m nblk) = unat nblk - unat (rw_chunk m nblk)"
proof -
  have per: "unat (BOUNCE_BYTES div msc_block_size m) = 8192 div unat (msc_block_size m)"
    by (simp add: unat_div_distrib BOUNCE_BYTES_def)
  have "0 < 8192 div unat (msc_block_size m)"
    using block_size_ok by (simp add: div_greater_zero_iff)
  moreover have "0 < unat nblk" using assms by (simp add: unat_gt_0)
  ultimately show "0 < unat (rw_chunk m nblk)" by (simp add: rw_chunk_def Let_def per)
  show le: "unat (rw_chunk m nblk) \<le> unat nblk"
    by (simp add: rw_chunk_def Let_def word_less_nat_alt)
  have "unat (rw_chunk m nblk) \<le> 8192 div unat (msc_block_size m)"
    using per by (simp add: rw_chunk_def Let_def word_less_nat_alt)
  then show "unat (rw_chunk m nblk) * unat (msc_block_size m) \<le> 8192"
    by (metis div_times_less_eq_dividend le_trans mult_le_mono1)
  show "unat (nblk - rw_chunk m nblk) = unat nblk - unat (rw_chunk m nblk)"
    using le by (simp add: unat_sub_no_wrap word_le_nat_alt)
qed

lemma chunk_lba:
  fixes lba :: u64
  assumes "nblk \<noteq> 0" and "unat lba + unat nblk \<le> unat (msc_block_count m)"
  shows "unat (lba + ucast (rw_chunk m nblk)) = unat lba + unat (rw_chunk m nblk)"
  using assms(2) block_count_ok chunk_bounds(3) [OF assms(1)]
  by (subst unat_add_no_wrap) simp_all

lemma rw10_chunk:
  assumes "nblk \<noteq> 0"
  shows "rw10 x m wr lba nblk p out =
    (let n = rw_chunk m nblk; len = n * msc_block_size m in
      bnd (if wr then modify (\<lambda>s. s\<lparr> g_bounce := put_bytes (g_bounce s) 0 (take (unat len) p) \<rparr>)
           else ret ()) (\<lambda>_.
      bnd (bot_xfer x m (rw10_cdb wr lba n) (\<not> wr) len) (\<lambda>st.
      if st \<noteq> 0 then err else
      bnd (gets g_bounce) (\<lambda>b.
      rw10 x m wr (lba + ucast n) (nblk - n) (drop (unat len) p)
        (if wr then out else out @ take (unat len) b)))))"
  using assms by (subst rw10_step) (simp add: rw_chunk_def Let_def)

lemma rw10_read_runs:
  "unat lba + unat nblk \<le> unat (msc_block_count m) \<Longrightarrow>
     runs (med B) (rw10 x m False lba nblk p out) (out @ blocks B (unat lba) (unat nblk)) (med B)"
proof (induction "unat nblk" arbitrary: lba nblk p out rule: less_induct)
  case less
  show ?case
  proof (cases "nblk = 0")
    case True
    then show ?thesis by (subst rw10_step) (simp add: runs_ret blocks_def)
  next
    case False
    let ?n = "rw_chunk m nblk" and ?bs = "unat (msc_block_size m)"
    note n = chunk_bounds [OF False] and lba = chunk_lba [OF False less.prems]
    note len = len_no_wrap [OF n(2)]
    let ?out = "out @ blocks B (unat lba) (unat ?n)"
    have "runs (med B) (rw10 x m False (lba + ucast ?n) (nblk - ?n) (drop (unat (?n * msc_block_size m)) p) ?out)
        (?out @ blocks B (unat (lba + ucast ?n)) (unat (nblk - ?n))) (med B)"
      by (rule less.hyps) (use n lba less.prems in simp_all)
    then have rest: "runs (med B) (rw10 x m False (lba + ucast ?n) (nblk - ?n) (drop (unat (?n * msc_block_size m)) p) ?out)
        (out @ blocks B (unat lba) (unat nblk)) (med B)"
      using blocks_add [of B "unat lba" "unat ?n" "unat nblk - unat ?n"] n by (simp add: lba)
    have bounce: "runs (\<lambda>s. med B s \<and> take (unat ?n * ?bs) (g_bounce s) = blocks B (unat lba) (unat ?n))
        (bnd (gets g_bounce) (\<lambda>b. rw10 x m False (lba + ucast ?n) (nblk - ?n)
          (drop (unat (?n * msc_block_size m)) p) (out @ take (unat (?n * msc_block_size m)) b)))
        (out @ blocks B (unat lba) (unat nblk)) (med B)"
      using rest by (auto simp: runs_def bnd_def gets_def len)
    have "runs (med B) (bot_xfer x m (rw10_cdb False lba ?n) True (?n * msc_block_size m)) 0
        (\<lambda>s. med B s \<and> take (unat ?n * ?bs) (g_bounce s) = blocks B (unat lba) (unat ?n))"
      by (rule bot_read) (use n less.prems in simp_all)
    then show ?thesis
      unfolding rw10_chunk [OF False] Let_def if_False not_False_eq_True bnd_ret
      by (rule runs_bnd) (simp only: simp_thms if_False, rule bounce)
  qed
qed

lemma rw10_write_runs:
  "unat lba + unat nblk \<le> unat (msc_block_count m) \<Longrightarrow> length p = unat nblk * unat (msc_block_size m) \<Longrightarrow>
     runs (med B) (rw10 x m True lba nblk p out) out
       (med (put_blocks (unat (msc_block_size m)) B (unat lba) (unat nblk) p))"
proof (induction "unat nblk" arbitrary: lba nblk p B rule: less_induct)
  case less
  show ?case
  proof (cases "nblk = 0")
    case True
    moreover have "put_blocks (unat (msc_block_size m)) B (unat lba) 0 p = B"
      by (auto simp: put_blocks_def fun_eq_iff)
    ultimately show ?thesis by (subst rw10_step) (simp add: runs_ret)
  next
    case False
    let ?n = "rw_chunk m nblk" and ?bs = "unat (msc_block_size m)"
    note n = chunk_bounds [OF False] and lba = chunk_lba [OF False less.prems(1)]
    note len = len_no_wrap [OF n(2)]
    let ?buf = "take (unat ?n * ?bs) p" and ?p = "drop (unat ?n * ?bs) p"
    let ?B1 = "put_blocks ?bs B (unat lba) (unat ?n) ?buf"
    have part: "unat ?n * ?bs \<le> length p" using n(3) less.prems(2) by simp
    have "runs (med ?B1) (rw10 x m True (lba + ucast ?n) (nblk - ?n) ?p out) out
        (med (put_blocks ?bs ?B1 (unat (lba + ucast ?n)) (unat (nblk - ?n)) ?p))"
      by (rule less.hyps) (use n lba less.prems in \<open>simp_all add: diff_mult_distrib\<close>)
    moreover have "put_blocks ?bs ?B1 (unat (lba + ucast ?n)) (unat (nblk - ?n)) ?p
        = put_blocks ?bs B (unat lba) (unat nblk) p"
      using put_blocks_add [of p "unat ?n" "unat nblk - unat ?n" ?bs B "unat lba"] n less.prems(2)
      by (simp add: lba)
    ultimately have rest: "runs (med ?B1) (bnd (gets g_bounce) (\<lambda>b.
        rw10 x m True (lba + ucast ?n) (nblk - ?n) ?p out)) out
        (med (put_blocks ?bs B (unat lba) (unat nblk) p))"
      by (simp add: runs_def bnd_def gets_def)
    have load: "runs (med B) (modify (\<lambda>s. s\<lparr> g_bounce := put_bytes (g_bounce s) 0 ?buf \<rparr>)) ()
        (\<lambda>s. med B s \<and> take (unat ?n * ?bs) (g_bounce s) = ?buf)"
      using part n(2) by (auto simp: runs_def modify_def usb_ok_def usb_blk_def put_bytes_def)
    have "runs (\<lambda>s. med B s \<and> take (unat ?n * ?bs) (g_bounce s) = ?buf)
        (bot_xfer x m (rw10_cdb True lba ?n) False (?n * msc_block_size m)) 0 (med ?B1)"
      by (rule bot_write) (use n less.prems part in simp_all)
    note xfer = this
    show ?thesis
      unfolding rw10_chunk [OF False] Let_def if_True not_True_eq_False len
      by (rule runs_bnd [OF load], rule runs_bnd [OF xfer], simp only: simp_thms if_False, rule rest)
  qed
qed

text \<open>The driver is a block device for requests of any size.\<close>

sublocale usb: block_device "usb_disk x i m" "usb_blk dev" "usb_ok idle" "2 ^ 32" for i
proof
  show "0 < unat (block_size (usb_disk x i m))" using block_size_ok by (simp add: usb_disk_def)
  show "0 < (2 :: nat) ^ 32" by simp
  fix s k assume "usb_ok idle s" and "k < unat (block_count (usb_disk x i m))"
  then show "length (usb_blk dev s k) = unat (block_size (usb_disk x i m))"
    using length_dev by (simp add: usb_ok_def usb_blk_def usb_disk_def)
next
  fix n :: u32 and lba :: u64 and B
  assume "unat lba + unat n \<le> unat (block_count (usb_disk x i m))"
  then show "runs (med B) (dread (usb_disk x i m) lba n) (blocks B (unat lba) (unat n)) (med B)"
    using rw10_read_runs [of lba n B "[]" "[]"] by (simp add: dread_def usb_disk_def usb_read_def)
next
  fix n :: u32 and lba :: u64 and buf :: bytes and B
  assume "unat lba + unat n \<le> unat (block_count (usb_disk x i m))"
    and "length buf = unat n * unat (block_size (usb_disk x i m))"
  then have "runs (med B) (rw10 x m True lba n buf []) []
      (med (put_blocks (unat (msc_block_size m)) B (unat lba) (unat n) buf))"
    by (intro rw10_write_runs) (simp_all add: usb_disk_def)
  then show "runs (med B) (dwrite (usb_disk x i m) lba n buf) ()
      (med (put_blocks (unat (block_size (usb_disk x i m))) B (unat lba) (unat n) buf))"
    by (simp add: dwrite_def usb_disk_def usb_write_def) (erule runs_bnd, rule runs_ret)
qed

end

section \<open>A USB stick\<close>

text \<open>A device that follows the Bulk-Only Transport: 128 blocks of 512 bytes behind endpoints 3 (IN)
  and 4 (OUT) of slot 1. It stalls on anything but the two transfer commands.\<close>

datatype stick_phase = Phase_Idle | Phase_Data_In bytes u32 | Phase_Data_Out nat nat u32 | Phase_Status u32

record stick =
  st_blocks :: "bytes list"
  st_phase :: stick_phase

definition stick_msc :: msc where
  "stick_msc = \<lparr> msc_slot = 1, in_dci = 3, out_dci = 4, msc_block_size = 512, msc_block_count = 128 \<rparr>"

definition stick_dev :: "stick \<Rightarrow> nat \<Rightarrow> bytes" where
  "stick_dev h i = (if i < length (st_blocks h) then st_blocks h ! i else [])"

definition stick_idle :: "stick \<Rightarrow> bool" where
  "stick_idle h \<longleftrightarrow> st_phase h = Phase_Idle \<and> length (st_blocks h) = 128 \<and>
     list_all (\<lambda>b. length b = 512) (st_blocks h)"

definition stick_command :: "bytes \<Rightarrow> (stick, unit) prog" where
  "stick_command cbw = (\<lambda>h.
    (let tag = get_le32 cbw 4; op = byte_at cbw 15; lba = unat (get_be32 cbw 17);
         n = unat (byte_at cbw 22) * 256 + unat (byte_at cbw 23) in
     if length cbw \<noteq> 31 \<or> get_le32 cbw 0 \<noteq> CBW_SIG \<or> length (st_blocks h) < lba + n then Some (Err, h)
     else if op = SCSI_READ10 then
       Some (Ok (), h\<lparr> st_phase := Phase_Data_In (blocks (stick_dev h) lba n) tag \<rparr>)
     else if op = SCSI_WRITE10 then Some (Ok (), h\<lparr> st_phase := Phase_Data_Out lba n tag \<rparr>)
     else Some (Err, h)))"

definition stick_bulk_out :: "u8 \<Rightarrow> u8 \<Rightarrow> bytes \<Rightarrow> (stick, unit) prog" where
  "stick_bulk_out slt dci buf = (\<lambda>h.
    if slt \<noteq> 1 \<or> dci \<noteq> 4 then Some (Err, h) else
    (case st_phase h of
       Phase_Idle \<Rightarrow> stick_command buf h
     | Phase_Data_Out lba n tag \<Rightarrow>
         if length buf \<noteq> n * 512 then Some (Err, h)
         else Some (Ok (), h\<lparr> st_blocks := map (put_blocks 512 (stick_dev h) lba n buf) [0 ..< length (st_blocks h)],
                             st_phase := Phase_Status tag \<rparr>)
     | _ \<Rightarrow> Some (Err, h)))"

definition stick_bulk_in :: "u8 \<Rightarrow> u8 \<Rightarrow> u32 \<Rightarrow> (stick, bytes) prog" where
  "stick_bulk_in slt dci len = (\<lambda>h.
    if slt \<noteq> 1 \<or> dci \<noteq> 3 then Some (Err, h) else
    (case st_phase h of
       Phase_Data_In d tag \<Rightarrow> Some (Ok (take (unat len) d), h\<lparr> st_phase := Phase_Status tag \<rparr>)
     | Phase_Status tag \<Rightarrow> Some (Ok (take (unat len) (csw_bytes tag 0)), h\<lparr> st_phase := Phase_Idle \<rparr>)
     | _ \<Rightarrow> Some (Err, h)))"

definition stick_xhci :: "stick xhci" where
  "stick_xhci = \<lparr> bulk_out = stick_bulk_out, bulk_in = stick_bulk_in \<rparr>"

lemma be32_join:
  "push_bit 24 (ucast (ucast (drop_bit 24 v) :: u8)) OR push_bit 16 (ucast (ucast (drop_bit 16 v) :: u8))
     OR push_bit 8 (ucast (ucast (drop_bit 8 v) :: u8)) OR ucast (ucast v :: u8) = (v :: u32)"
  using le32_join [of v] by (simp add: or.commute or.left_commute or.assoc)

lemma unat_ucast_64_32: "unat (v :: u64) < 2 ^ 32 \<Longrightarrow> unat (ucast v :: u32) = unat v"
  by (simp add: unsigned_ucast_eq take_bit_nat_eq_self_iff)

lemma cbw_fields:
  fixes lba :: u64
  shows "length (cbw_bytes tag dlen dir (rw10_cdb wr lba n)) = 31"
    and "get_le32 (cbw_bytes tag dlen dir (rw10_cdb wr lba n)) 0 = CBW_SIG"
    and "get_le32 (cbw_bytes tag dlen dir (rw10_cdb wr lba n)) 4 = tag"
    and "byte_at (cbw_bytes tag dlen dir (rw10_cdb wr lba n)) 15 = (if wr then SCSI_WRITE10 else SCSI_READ10)"
    and "get_be32 (cbw_bytes tag dlen dir (rw10_cdb wr lba n)) 17 = ucast lba"
    and "byte_at (cbw_bytes tag dlen dir (rw10_cdb wr lba n)) 22 = ucast (drop_bit 8 n)"
    and "byte_at (cbw_bytes tag dlen dir (rw10_cdb wr lba n)) 23 = ucast n"
  using le32_join [of CBW_SIG] le32_join [of tag] be32_join [of "ucast lba"]
  by (simp_all add: cbw_bytes_def rw10_cdb_def get_le32_def get_be32_def byte_at_def le32_def put_be32_def
      nth_append)

lemma small_count:
  assumes "unat (n :: u32) \<le> 16"
  shows "unat (ucast (drop_bit 8 n) :: u8) * 256 + unat (ucast n :: u8) = unat n"
proof -
  have "unat n < 256" using assms by simp
  then have "unat (drop_bit 8 n) = 0" by (simp add: drop_bit_eq_div unat_div_distrib)
  then have "drop_bit 8 n = 0" by (simp add: word_unat_eq_iff)
  moreover have "unat (ucast n :: u8) = unat n"
    using assms by (simp add: unsigned_ucast_eq take_bit_nat_eq_self_iff)
  ultimately show ?thesis by simp
qed

lemma length_stick_blocks:
  assumes "stick_idle h" and "lba + n \<le> 128"
  shows "length (blocks (stick_dev h) lba n) = n * 512"
  using assms by (intro length_blocks) (auto simp: stick_dev_def stick_idle_def list_all_length)

lemma stick_read_command:
  assumes "stick_idle h" and "unat n \<le> 16" and "unat lba + unat n \<le> 128"
  shows "stick_bulk_out 1 4 (cbw_bytes tag dlen True (rw10_cdb False lba n)) h
    = Some (Ok (), h\<lparr> st_phase := Phase_Data_In (blocks (stick_dev h) (unat lba) (unat n)) tag \<rparr>)"
  using assms
  by (simp add: stick_bulk_out_def stick_command_def Let_def cbw_fields small_count unat_ucast_64_32
      stick_idle_def)

lemma stick_write_command:
  assumes "stick_idle h" and "unat n \<le> 16" and "unat lba + unat n \<le> 128"
  shows "stick_bulk_out 1 4 (cbw_bytes tag dlen False (rw10_cdb True lba n)) h
    = Some (Ok (), h\<lparr> st_phase := Phase_Data_Out (unat lba) (unat n) tag \<rparr>)"
  using assms
  by (simp add: stick_bulk_out_def stick_command_def Let_def cbw_fields small_count unat_ucast_64_32
      stick_idle_def SCSI_WRITE10_def SCSI_READ10_def)

lemma stick_dev_written:
  assumes "stick_idle h" and "lba + n \<le> 128" and "length buf = n * 512"
  shows "stick_dev (h\<lparr> st_blocks := map (put_blocks 512 (stick_dev h) lba n buf) [0 ..< length (st_blocks h)],
      st_phase := p \<rparr>) = put_blocks 512 (stick_dev h) lba n buf"
    and "list_all (\<lambda>b. length b = 512) (map (put_blocks 512 (stick_dev h) lba n buf) [0 ..< length (st_blocks h)])"
proof -
  from assms(1) have 128: "length (st_blocks h) = 128" by (simp add: stick_idle_def)
  show "stick_dev (h\<lparr> st_blocks := map (put_blocks 512 (stick_dev h) lba n buf) [0 ..< length (st_blocks h)],
      st_phase := p \<rparr>) = put_blocks 512 (stick_dev h) lba n buf"
    using assms(2) 128 by (auto simp: fun_eq_iff stick_dev_def put_blocks_def)
  have "length (stick_dev h i) = 512" if "i < length (st_blocks h)" for i
    using assms(1) that by (simp add: stick_dev_def stick_idle_def list_all_length)
  then show "list_all (\<lambda>b. length b = 512) (map (put_blocks 512 (stick_dev h) lba n buf) [0 ..< length (st_blocks h)])"
    using length_put_blocks [OF assms(3)] by (auto simp: list_all_iff)
qed

interpretation stick: bot_device stick_xhci stick_msc stick_dev stick_idle
proof
  show "512 \<le> unat (msc_block_size stick_msc)" "unat (msc_block_size stick_msc) \<le> 4096"
    "unat (msc_block_count stick_msc) \<le> 2 ^ 32"
    by (simp_all add: stick_msc_def)
  fix h i assume "stick_idle h" and "i < unat (msc_block_count stick_msc)"
  then show "length (stick_dev h i) = unat (msc_block_size stick_msc)"
    by (simp add: stick_dev_def stick_idle_def stick_msc_def list_all_length)
next
  fix h and n :: u32 and lba :: u64 and tag
  assume h: "stick_idle h" and "0 < unat n" and "unat n * unat (msc_block_size stick_msc) \<le> 8192"
    and lba: "unat lba + unat n \<le> unat (msc_block_count stick_msc)"
  then have n: "unat n \<le> 16" and lba': "unat lba + unat n \<le> 128" by (simp_all add: stick_msc_def)
  have "unat (n * 512) = unat n * 512" using n by (subst unat_mult_no_wrap) simp_all
  then show "\<exists>h1 h2 h3.
        bulk_out stick_xhci (msc_slot stick_msc) (out_dci stick_msc)
          (cbw_bytes tag (n * msc_block_size stick_msc) True (rw10_cdb False lba n)) h = Some (Ok (), h1) \<and>
        bulk_in stick_xhci (msc_slot stick_msc) (in_dci stick_msc) (n * msc_block_size stick_msc) h1
          = Some (Ok (blocks (stick_dev h) (unat lba) (unat n)), h2) \<and>
        bulk_in stick_xhci (msc_slot stick_msc) (in_dci stick_msc) 13 h2 = Some (Ok (csw_bytes tag 0), h3) \<and>
        stick_idle h3 \<and> stick_dev h3 = stick_dev h"
    using stick_read_command [OF h n lba', of tag] length_stick_blocks [OF h lba'] h
    by (simp add: stick_xhci_def stick_msc_def stick_bulk_in_def csw_fields)
      (simp add: stick_idle_def stick_dev_def fun_eq_iff)
next
  fix h and n :: u32 and lba :: u64 and buf :: bytes and tag
  assume h: "stick_idle h" and "0 < unat n" and "unat n * unat (msc_block_size stick_msc) \<le> 8192"
    and lba: "unat lba + unat n \<le> unat (msc_block_count stick_msc)"
    and "length buf = unat n * unat (msc_block_size stick_msc)"
  then have n: "unat n \<le> 16" and lba': "unat lba + unat n \<le> 128" and buf: "length buf = unat n * 512"
    by (simp_all add: stick_msc_def)
  let ?blocks = "map (put_blocks 512 (stick_dev h) (unat lba) (unat n) buf) [0 ..< length (st_blocks h)]"
  let ?h1 = "h\<lparr> st_phase := Phase_Data_Out (unat lba) (unat n) tag \<rparr>"
  let ?h2 = "h\<lparr> st_blocks := ?blocks, st_phase := Phase_Status tag \<rparr>"
  let ?h3 = "h\<lparr> st_blocks := ?blocks, st_phase := Phase_Idle \<rparr>"
  have dev1: "stick_dev ?h1 = stick_dev h" by (simp add: stick_dev_def fun_eq_iff)
  have "stick_bulk_out 1 4 buf ?h1 = Some (Ok (), ?h2)"
    using buf by (simp add: stick_bulk_out_def dev1)
  moreover have "stick_bulk_in 1 3 13 ?h2 = Some (Ok (csw_bytes tag 0), ?h3)"
    by (simp add: stick_bulk_in_def csw_fields)
  moreover have "stick_idle ?h3"
    using h stick_dev_written(2) [OF h lba' buf] by (simp add: stick_idle_def)
  ultimately show "\<exists>h1 h2 h3.
        bulk_out stick_xhci (msc_slot stick_msc) (out_dci stick_msc)
          (cbw_bytes tag (n * msc_block_size stick_msc) False (rw10_cdb True lba n)) h = Some (Ok (), h1) \<and>
        bulk_out stick_xhci (msc_slot stick_msc) (out_dci stick_msc) buf h1 = Some (Ok (), h2) \<and>
        bulk_in stick_xhci (msc_slot stick_msc) (in_dci stick_msc) 13 h2 = Some (Ok (csw_bytes tag 0), h3) \<and>
        stick_idle h3 \<and>
        stick_dev h3 = put_blocks (unat (msc_block_size stick_msc)) (stick_dev h) (unat lba) (unat n) buf"
    using stick_write_command [OF h n lba', of tag "n * 512"] stick_dev_written(1) [OF h lba' buf, of Phase_Idle]
    by (intro exI [of _ ?h1] exI [of _ ?h2] exI [of _ ?h3]) (simp add: stick_xhci_def stick_msc_def)
qed

section \<open>Reading back what was written\<close>

text \<open>C20: on a device that follows the transport, \<open>usb_write\<close> and \<open>usb_read\<close> succeed for a request of any
  number of blocks inside the medium, however many commands it is cut into: the read returns what
  was written, and every other block keeps its contents.\<close>

theorem usb_write_then_usb_read:
  assumes "bot_device x m dev idle" and "usb_ok idle s"
    and "unat lba + unat n \<le> unat (msc_block_count m)" and "length buf = unat n * unat (msc_block_size m)"
  shows "\<exists>s1 s2. usb_write x m lba n buf s = Some (Ok (), s1) \<and> usb_read x m lba n s1 = Some (Ok buf, s2) \<and>
    usb_ok idle s2 \<and> (\<forall>i. \<not> (unat lba \<le> i \<and> i < unat lba + unat n) \<longrightarrow> usb_blk dev s2 i = usb_blk dev s i)"
proof -
  let ?B = "put_blocks (unat (msc_block_size m)) (usb_blk dev s) (unat lba) (unat n) buf"
  have "usb_ok idle s \<and> usb_blk dev s = usb_blk dev s" using assms(2) by simp
  from runsE [OF bot_device.rw10_write_runs [OF assms(1, 3, 4)] this] obtain s1
    where s1: "rw10 x m True lba n buf [] s = Some (Ok [], s1)" "usb_ok idle s1 \<and> usb_blk dev s1 = ?B" .
  from runsE [OF bot_device.rw10_read_runs [OF assms(1, 3), of ?B "[]" "[]"] s1(2)] obtain s2
    where "rw10 x m False lba n [] [] s1 = Some (Ok buf, s2)" "usb_ok idle s2 \<and> usb_blk dev s2 = ?B"
    using blocks_put_blocks [OF assms(4)] by auto
  with s1 show ?thesis
    by (auto simp: usb_write_def usb_read_def bnd_def ret_def put_blocks_def)
qed

text \<open>The image is written through the driver in two commands, since the bounce buffer holds 16 blocks.\<close>

theorem usb_write_then_usb_read_witness:
  "\<exists>s1 s2. usb_write stick_xhci stick_msc 8 17 (replicate 8704 7)
      \<lparr> g_tag = 1, g_csw = replicate 13 0, g_bounce = replicate 8192 0,
        hw = \<lparr> st_blocks = replicate 128 (replicate 512 0), st_phase = Phase_Idle \<rparr> \<rparr> = Some (Ok (), s1) \<and>
    usb_read stick_xhci stick_msc 8 17 s1 = Some (Ok (replicate 8704 7), s2) \<and>
    usb_ok stick_idle s2 \<and>
    (\<forall>i. \<not> (unat (8 :: u64) \<le> i \<and> i < unat (8 :: u64) + unat (17 :: u32)) \<longrightarrow> usb_blk stick_dev s2 i
      = usb_blk stick_dev \<lparr> g_tag = 1, g_csw = replicate 13 0, g_bounce = replicate 8192 0,
          hw = \<lparr> st_blocks = replicate 128 (replicate 512 0), st_phase = Phase_Idle \<rparr> \<rparr> i)"
  by (rule usb_write_then_usb_read [OF stick.bot_device_axioms])
    (simp_all add: usb_ok_def stick_idle_def stick_msc_def list_all_iff)

end
