(* ===== verification/Fat32_Stick.thy ===== *)
theory Fat32_Stick
  imports Fat32_Tree Usb_Storage
begin

text \<open>
  A FAT32 volume on a USB stick: the contract of \<open>fat_volume\<close> holds for the USB mass-storage driver
  of \<open>hal/disk/usb_storage.c\<close> below the FAT32 code, with an image of an empty volume on the stick.
\<close>

definition stick_disk :: "stick usb_state canboot_disk" where
  "stick_disk = usb_disk stick_xhci 0 stick_msc"

definition stick_fs :: "stick usb_state canboot_fat32" where
  "stick_fs = \<lparr> disk = stick_disk, bytes_per_sector = 512, sectors_per_cluster = 1,
     bytes_per_cluster = 512, reserved_sectors = 1, num_fats = 2, sectors_per_fat = 1,
     root_cluster = 2, fat_start_lba = 1, data_start_lba = 3, total_clusters = 61 \<rparr>"

interpretation stick_vol: fat_volume stick_fs "usb_blk stick_dev" "usb_ok stick_idle" "2 ^ 32"
proof -
  have disk: "disk stick_fs = usb_disk stick_xhci 0 stick_msc"
    by (simp add: stick_fs_def stick_disk_def)
  have "block_device (disk stick_fs) (usb_blk stick_dev) (usb_ok stick_idle) (2 ^ 32)"
    unfolding disk by (rule stick.usb.block_device_axioms)
  moreover have "fat_volume_axioms stick_fs (2 ^ 32)"
    by (rule fat_volume_axioms.intro)
      (simp_all add: fat_geometry_def stick_fs_def stick_disk_def usb_disk_def stick_msc_def EOC_def)
  ultimately show "fat_volume stick_fs (usb_blk stick_dev) (usb_ok stick_idle) (2 ^ 32)"
    by (rule fat_volume.intro)
qed

text \<open>The image: a boot sector, the two FATs with the root directory in use, and zeros.\<close>

definition stick_boot :: bytes where
  "stick_boot = replicate 11 0 @ le16 512 @ [1] @ le16 1 @ [2] @ le16 0 @ le16 64 @ [0xF8] @ le16 0
     @ replicate 12 0 @ le32 1 @ replicate 4 0 @ le32 2 @ replicate 464 0"

definition stick_image :: "bytes list" where
  "stick_image = [stick_boot, format_fat0, format_fat0] @ replicate 125 (replicate 512 0)"

definition stick_state :: "bytes list \<Rightarrow> stick usb_state" where
  "stick_state bs = \<lparr> g_tag = 1, g_csw = replicate 13 0, g_bounce = replicate 8192 0,
     hw = \<lparr> st_blocks = bs, st_phase = Phase_Idle \<rparr> \<rparr>"

definition stick_F :: "bytes list \<Rightarrow> u32 \<Rightarrow> u32" where
  "stick_F bs = fat_entry stick_fs 0 (usb_blk stick_dev (stick_state bs))"

definition stick_C :: "bytes list \<Rightarrow> u32 \<Rightarrow> bytes" where
  "stick_C bs = clus_data stick_fs (usb_blk stick_dev (stick_state bs))"

definition good_image :: "bytes list \<Rightarrow> bool" where
  "good_image bs \<longleftrightarrow> length bs = 128 \<and> list_all (\<lambda>b. length b = 512) bs"

lemma stick_volume:
  "good_image bs \<Longrightarrow>
     volume stick_fs (usb_blk stick_dev) (usb_ok stick_idle) (stick_F bs) (stick_C bs) (stick_state bs)"
  by (simp add: volume_def stick_F_def stick_C_def usb_ok_def stick_idle_def stick_state_def good_image_def)

lemma stick_C_block: "stick_C bs c = (if unat c + 1 < length bs then bs ! (3 + (unat c - 2)) else [])"
  if "2 \<le> unat c"
  using that
  by (auto simp: stick_C_def clus_data_def clus_blk_def stick_fs_def blocks_def usb_blk_def stick_state_def
      stick_dev_def)

lemma stick_F_entry:
  assumes "2 \<le> unat c" and "unat c < 128" and "1 < length bs"
  shows "stick_F bs c = get_le32 (bs ! 1) (unat c * 4) AND 0x0FFFFFFF"
  using assms
  by (simp add: stick_F_def fat_entry_def fat_raw_def fat_blk_def fat_off_def stick_fs_def usb_blk_def
      stick_state_def stick_dev_def)

lemma good_stick_image: "good_image stick_image"
  by (simp add: good_image_def stick_image_def stick_boot_def format_fat0_def list_all_iff)

lemma stick_F_root: "stick_F stick_image 2 = 0x0FFFFFF8"
  by (simp add: stick_F_entry stick_image_def format_fat0_def get_le32_def byte_at_def le32_def nth_append)

lemma stick_F_free:
  assumes "3 \<le> unat c" and "unat c < 63"
  shows "stick_F stick_image c = 0"
proof -
  have "byte_at format_fat0 k = 0" if "12 \<le> k" for k
  proof -
    from that obtain j where "k = 12 + j" using le_Suc_ex by blast
    then show ?thesis by (simp add: byte_at_def format_fat0_def nth_append)
  qed
  then have "get_le32 format_fat0 (unat c * 4) = 0"
    using assms by (simp add: get_le32_def)
  with assms show ?thesis by (simp add: stick_F_entry stick_image_def)
qed

lemma stick_C_zero:
  assumes "2 \<le> unat c" and "unat c < 63"
  shows "stick_C stick_image c = replicate 512 0"
  using assms by (simp add: stick_C_block stick_image_def nth_append nth_Cons split: nat.split)

lemma stick_valid: "valid_cluster stick_fs c \<longleftrightarrow> 2 \<le> unat c \<and> unat c < 63"
  by (simp add: valid_cluster_def stick_fs_def)

lemma stick_free_list: "free_list stick_fs (stick_F stick_image) = map of_nat [3 ..< 63]"
proof -
  have "clusters stick_fs = 2 # map of_nat [3 ..< 63]"
    by (simp add: clusters_def stick_fs_def upt_conv_Cons [of 2] del: upt_Suc)
  moreover have "filter (\<lambda>c. stick_F stick_image c = 0) (map of_nat [3 ..< 63]) = map of_nat [3 ..< 63]"
    by (rule filter_True) (auto simp: stick_F_free unat_of_nat)
  ultimately show ?thesis by (simp add: free_list_def stick_F_root del: upt_Suc)
qed

lemma stick_root_chain: "chain stick_fs (stick_F stick_image) 2 [2]"
  by (simp add: stick_valid stick_F_root EOC_def)

lemma stick_root_empty:
  "\<forall>sl \<in> set (dir_slots stick_fs (stick_C stick_image) [2]). \<not> not_end sl"
  using zero_slots [of "stick_C stick_image" 2 512] by (auto simp: dir_slots_def stick_C_zero)

lemma stick_root_lookup: "lookup t (dir_slots stick_fs (stick_C stick_image) [2]) = None"
proof -
  have "takeWhile not_end sls = []" if "\<forall>sl \<in> set sls. \<not> not_end sl" for sls
    using that by (cases sls) auto
  with stick_root_empty show ?thesis by (simp add: lookup_def)
qed

lemma stick_root_tidy: "tidy (dir_slots stick_fs (stick_C stick_image) [2])"
  using stick_root_empty by (auto simp: tidy_def list_all_iff dest: set_dropWhileD)

lemma stick_resolves_root:
  "path_comps p = [] \<Longrightarrow> resolves stick_fs F C (root_cluster stick_fs) (path_comps p) 2 {}"
  by (simp add: stick_fs_def resolves_Nil)

section \<open>Images with one entry in the root directory\<close>

definition entry_image :: "fat_dir \<Rightarrow> bytes list" where
  "entry_image e = stick_image[3 := put_bytes (replicate 512 0) (0 * DIR_ENTRY_SIZE) (dirent_bytes e)]"

lemma first_slot:
  assumes "C c = put_bytes (replicate 512 0) (0 * DIR_ENTRY_SIZE) (dirent_bytes e)" and "length (de_name e) = 11"
  shows "\<exists>rest. dir_slots stick_fs C [c] = (e, c, 0) # rest \<and> (\<forall>sl \<in> set rest. \<not> not_end sl)"
proof -
  have "not_end (dirent_at (C c) i, c, i) = False" if "i \<noteq> 0" for i
    using dirent_at_put_other [OF that assms(2), of "replicate 512 0"] assms(1)
    by (simp add: dirent_at_zeros not_end_def name0_def byte_at_def)
  moreover have "dirent_at (C c) 0 = e"
    using dirent_at_put_same [OF assms(2), of 0 "replicate 512 0"] assms(1) by simp
  moreover have "[0 ..< dir_entries stick_fs] = 0 # [1 ..< 16]"
    by (simp add: dir_entries_def stick_fs_def DIR_ENTRY_SIZE_def upt_conv_Cons)
  ultimately show ?thesis
    by (intro exI [of _ "map (\<lambda>i. (dirent_at (C c) i, c, i)) [1 ..< 16]"])
      (auto simp: dir_slots_def cluster_slots_def)
qed

lemma good_entry_image: "length (de_name e) = 11 \<Longrightarrow> good_image (entry_image e)"
  using good_stick_image
  by (auto simp: good_image_def entry_image_def list_all_length nth_list_update length_dirent_bytes)

lemma entry_F:
  "2 \<le> unat c \<Longrightarrow> unat c < 128 \<Longrightarrow> stick_F (entry_image e) c = stick_F stick_image c"
  by (simp add: stick_F_entry entry_image_def stick_image_def)

lemma entry_chain: "chain stick_fs (stick_F (entry_image e)) 2 [2]"
  using stick_root_chain by (simp add: entry_F)

lemma entry_C: "stick_C (entry_image e) 2 = put_bytes (replicate 512 0) (0 * DIR_ENTRY_SIZE) (dirent_bytes e)"
  by (simp add: stick_C_block entry_image_def stick_image_def)

lemma entry_slots:
  assumes "length (de_name e) = 11"
  obtains rest where "dir_slots stick_fs (stick_C (entry_image e)) [2] = (e, 2, 0) # rest"
    and "\<forall>sl \<in> set rest. \<not> not_end sl"
  using first_slot [where C = "stick_C (entry_image e)", OF entry_C assms] by blast

lemma entry_lookup:
  assumes "length (de_name e) = 11" and "visible (e, 2, 0)"
  shows "lookup (de_name e) (dir_slots stick_fs (stick_C (entry_image e)) [2]) = Some (e, 2, 0)"
    and "unique_name (de_name e) (dir_slots stick_fs (stick_C (entry_image e)) [2])"
proof -
  obtain rest where slots: "dir_slots stick_fs (stick_C (entry_image e)) [2] = (e, 2, 0) # rest"
    and rest: "\<forall>sl \<in> set rest. \<not> not_end sl" by (rule entry_slots [OF assms(1)])
  then have "takeWhile not_end rest = []" by (cases rest) auto
  with slots assms(2) visible_not_end [OF assms(2)]
  show "lookup (de_name e) (dir_slots stick_fs (stick_C (entry_image e)) [2]) = Some (e, 2, 0)"
    and "unique_name (de_name e) (dir_slots stick_fs (stick_C (entry_image e)) [2])"
    by (simp_all add: lookup_simps unique_name_def)
qed

text \<open>The same with a file whose data is cluster 3.\<close>

definition file_fat :: bytes where
  "file_fat = put_bytes format_fat0 12 (le32 0x0FFFFFF8)"

definition file_image :: "fat_dir \<Rightarrow> bytes list" where
  "file_image e = (entry_image e)[1 := file_fat, 2 := file_fat]"

lemma good_file_image: "length (de_name e) = 11 \<Longrightarrow> good_image (file_image e)"
  using good_entry_image [of e]
  by (auto simp: good_image_def file_image_def list_all_length nth_list_update file_fat_def format_fat0_def)

lemma file_chains: "chain stick_fs (stick_F (file_image e)) 2 [2]" "chain stick_fs (stick_F (file_image e)) 3 [3]"
  by (simp_all add: stick_valid stick_F_entry file_image_def entry_image_def stick_image_def file_fat_def put_bytes_def
      format_fat0_def get_le32_def byte_at_def le32_def nth_append EOC_def)

lemma file_slots:
  "dir_slots stick_fs (stick_C (file_image e)) [2] = dir_slots stick_fs (stick_C (entry_image e)) [2]"
  by (simp add: dir_slots_def cluster_slots_def stick_C_block file_image_def entry_image_def stick_image_def)

end
