(* ===== verification/Fat32_Properties.thy ===== *)
theory Fat32_Properties
  imports Fat32_Stick
begin

text \<open>
  The properties of the FAT32 code on a mounted volume, each with an instance on the USB stick of
  \<open>Fat32_Stick\<close>.
\<close>

section \<open>Facts for the instances\<close>

lemma stick_path_a: "split_last (ascii ''/a'') 256 16 = Some (ascii ''/'', ascii ''a'')"
  by code_simp

lemma stick_path_root: "path_comps (ascii ''/'') = []"
  by code_simp

lemma stick_name_a: "to_83 (ascii ''a'') = ascii ''A          ''"
  by code_simp

lemma stick_name_a0: "to_83 (ascii ''a'') ! 0 = 0x41"
  by code_simp

lemma stick_need_1: "clusters_for stick_fs (length [1, 2, 3 :: u8]) = 1"
  by (simp add: clusters_for_def stick_fs_def)

section \<open>Files\<close>

text \<open>C1: a file written with \<open>canboot_fat32_write_path\<close>, new or replaced, in any directory, is read
  back by \<open>canboot_fat32_read_path\<close> byte for byte, whenever the volume has room for its clusters and
  one more.\<close>

theorem write_path_then_read_path:
  assumes "fat_volume fs blk ok max_req" and s: "volume fs blk ok F C s"
    and "split_last path 256 16 = Some (parent, leaf)"
    and "resolves fs F C (root_cluster fs) (path_comps parent) d W"
    and "chain fs F d ds" and "ds \<noteq> []"
    and "replaces fs F (lookup (to_83 leaf) (dir_slots fs C ds)) old"
    and "set old \<inter> set ds = {}" and "W \<inter> (set ds \<union> set old) = {}"
    and "to_83 leaf ! 0 \<noteq> 0" and "to_83 leaf ! 0 \<noteq> 0xE5"
    and len: "unat len = length data" and small: "clusters_for fs (length data) \<le> 256"
    and "clusters_for fs (length data) < length (free_list fs F)"
    and buf: "length buf = unat buf_size" and "length data \<le> unat buf_size"
  shows "\<exists>s1 s2. canboot_fat32_write_path (Some fs) (Some path) data len s = Some (Ok (), s1) \<and>
    canboot_fat32_read_path (Some fs) (Some path) buf buf_size s1
      = Some (Ok (len, len, put_bytes buf 0 data), s2)"
proof -
  note vol = assms(1)
  obtain F' C' ds' cs where
    w: "runs (volume fs blk ok F C) (canboot_fat32_write_path (Some fs) (Some path) data len) () (volume fs blk ok F' C')"
    and r: "resolves fs F' C' (root_cluster fs) (path_comps parent) d W" "chain fs F' d ds'"
      "holds_file fs F' C' ds' (to_83 leaf) data cs"
    using fat_volume.write_path_runs [OF vol assms(3-13, 14) fat_volume.length_cluster [OF vol s]] by blast
  have "length data \<le> 256 * 8192"
    using fat_volume.clusters_for_covers [OF vol, of "length data"] small fat_volume.bpc_max [OF vol]
    by (meson le_trans mult_le_mono)
  then have "runs (volume fs blk ok F' C') (canboot_fat32_read_path (Some fs) (Some path) buf buf_size)
      (of_nat (min (length data) (unat buf_size)), of_nat (length data), put_bytes buf 0 (take (unat buf_size) data))
      (volume fs blk ok F' C')"
    by (intro fat_volume.read_path_runs [OF vol assms(3) r _ buf]) simp
  moreover have "of_nat (length data) = len" using len [symmetric] by simp
  ultimately have "runs (volume fs blk ok F' C') (canboot_fat32_read_path (Some fs) (Some path) buf buf_size)
      (len, len, put_bytes buf 0 data) (volume fs blk ok F' C')"
    using assms(16) by (simp add: min_def)
  with w s show ?thesis by (metis runsE)
qed

theorem write_path_then_read_path_witness:
  "\<exists>s1 s2. canboot_fat32_write_path (Some stick_fs) (Some (ascii ''/a'')) [1, 2, 3] 3 (stick_state stick_image)
      = Some (Ok (), s1) \<and>
    canboot_fat32_read_path (Some stick_fs) (Some (ascii ''/a'')) [0, 0, 0, 0] 4 s1
      = Some (Ok (3, 3, [1, 2, 3, 0]), s2)"
proof -
  have "\<exists>s1 s2. canboot_fat32_write_path (Some stick_fs) (Some (ascii ''/a'')) [1, 2, 3] 3 (stick_state stick_image)
      = Some (Ok (), s1) \<and>
    canboot_fat32_read_path (Some stick_fs) (Some (ascii ''/a'')) [0, 0, 0, 0] 4 s1
      = Some (Ok (3, 3, put_bytes [0, 0, 0, 0] 0 [1, 2, 3]), s2)"
    by (rule write_path_then_read_path [OF stick_vol.fat_volume_axioms stick_volume [OF good_stick_image]
          stick_path_a stick_resolves_root [OF stick_path_root] stick_root_chain, where old = "[]"])
      (simp_all only: stick_need_1 stick_free_list, simp_all add: stick_root_lookup replaces_def stick_name_a0)
  then show ?thesis by (simp add: put_bytes_def)
qed

text \<open>C2: what \<open>canboot_fat32_write_path\<close> changes. The parent still resolves, the directory still is a
  chain and holds the file; every cluster in use outside the directory and the replaced file keeps
  its FAT entry and its contents; and every other name of the directory is found as before, when no
  entry of the directory stands behind its end marker.\<close>

theorem write_path_changes_only_the_file:
  assumes "fat_volume fs blk ok max_req" and s: "volume fs blk ok F C s"
    and "split_last path 256 16 = Some (parent, leaf)"
    and "resolves fs F C (root_cluster fs) (path_comps parent) d W"
    and "chain fs F d ds" and "ds \<noteq> []"
    and "replaces fs F (lookup (to_83 leaf) (dir_slots fs C ds)) old"
    and "set old \<inter> set ds = {}" and "W \<inter> (set ds \<union> set old) = {}"
    and "to_83 leaf ! 0 \<noteq> 0" and "to_83 leaf ! 0 \<noteq> 0xE5"
    and "unat len = length data" and "clusters_for fs (length data) \<le> 256"
    and "clusters_for fs (length data) < length (free_list fs F)"
    and "tidy (dir_slots fs C ds)"
  shows "\<exists>s' F' C' ds' cs.
    canboot_fat32_write_path (Some fs) (Some path) data len s = Some (Ok (), s') \<and> volume fs blk ok F' C' s' \<and>
    resolves fs F' C' (root_cluster fs) (path_comps parent) d W \<and> chain fs F' d ds' \<and>
    holds_file fs F' C' ds' (to_83 leaf) data cs \<and> unchanged F C (set ds \<union> set old) F' C' \<and>
    (\<forall>t. t \<noteq> to_83 leaf \<longrightarrow> lookup t (dir_slots fs C' ds') = lookup t (dir_slots fs C ds))"
proof -
  note vol = assms(1)
  obtain F' C' ds' cs where
    w: "runs (volume fs blk ok F C) (canboot_fat32_write_path (Some fs) (Some path) data len) () (volume fs blk ok F' C')"
    and r: "resolves fs F' C' (root_cluster fs) (path_comps parent) d W" "chain fs F' d ds'"
      "holds_file fs F' C' ds' (to_83 leaf) data cs" "unchanged F C (set ds \<union> set old) F' C'"
      "tidy (dir_slots fs C ds) \<longrightarrow> (\<forall>t. t \<noteq> to_83 leaf \<longrightarrow>
         lookup t (dir_slots fs C' ds') = lookup t (dir_slots fs C ds))"
    using fat_volume.write_path_runs [OF vol assms(3-13, 14) fat_volume.length_cluster [OF vol s]] by blast
  from runsE [OF w s] obtain s' where "canboot_fat32_write_path (Some fs) (Some path) data len s = Some (Ok (), s')"
    and "volume fs blk ok F' C' s'" .
  with r assms(15) show ?thesis by blast
qed

theorem write_path_changes_only_the_file_witness:
  "\<exists>s' F' C' ds' cs.
    canboot_fat32_write_path (Some stick_fs) (Some (ascii ''/a'')) [1, 2, 3] 3 (stick_state stick_image)
      = Some (Ok (), s') \<and>
    volume stick_fs (usb_blk stick_dev) (usb_ok stick_idle) F' C' s' \<and>
    resolves stick_fs F' C' (root_cluster stick_fs) (path_comps (ascii ''/'')) 2 {} \<and> chain stick_fs F' 2 ds' \<and>
    holds_file stick_fs F' C' ds' (to_83 (ascii ''a'')) [1, 2, 3] cs \<and>
    unchanged (stick_F stick_image) (stick_C stick_image) (set [2] \<union> set []) F' C' \<and>
    (\<forall>t. t \<noteq> to_83 (ascii ''a'') \<longrightarrow>
       lookup t (dir_slots stick_fs C' ds') = lookup t (dir_slots stick_fs (stick_C stick_image) [2]))"
  by (rule write_path_changes_only_the_file [OF stick_vol.fat_volume_axioms stick_volume [OF good_stick_image]
        stick_path_a stick_resolves_root [OF stick_path_root] stick_root_chain, where old = "[]"])
    (simp_all only: stick_need_1 stick_free_list,
     simp_all add: stick_root_lookup replaces_def stick_name_a0 stick_root_tidy)

section \<open>Chains\<close>

text \<open>C7: \<open>alloc_chain\<close> takes the \<open>n\<close> lowest free clusters and makes them a chain in that order: they
  are distinct, were free, and no other FAT entry and no cluster changes.\<close>

theorem alloc_chain_links_lowest_free:
  assumes "fat_volume fs blk ok max_req" and s: "volume fs blk ok F C s"
    and "n \<noteq> 0" and "n \<le> FAT32_MAX_CHAIN" and "unat n \<le> length (free_list fs F)"
  shows "\<exists>s' F' cs. alloc_chain fs n s = Some (Ok cs, s') \<and> volume fs blk ok F' C s' \<and>
    cs = take (unat n) (free_list fs F) \<and> length cs = unat n \<and> distinct cs \<and> chain fs F' (hd cs) cs \<and>
    (\<forall>x. F' x \<noteq> F x \<longrightarrow> x \<in> set cs \<and> F x = 0)"
proof -
  note vol = assms(1)
  let ?cs = "take (unat n) (free_list fs F)" and ?F = "link_fat F (take (unat n) (free_list fs F))"
  from runsE [OF fat_volume.alloc_chain_runs [OF vol assms(3-5) refl] s] obtain s'
    where run: "alloc_chain fs n s = Some (Ok ?cs, s')" "volume fs blk ok ?F C s'" .
  have dist: "distinct ?cs" using fat_volume.distinct_free_list [OF vol] by simp
  have "0 < unat n" using assms(3) by (simp add: unat_gt_0)
  with assms(5) obtain c cs where cs: "?cs = c # cs" by (cases ?cs) auto
  have "chain fs ?F (hd ?cs) ?cs"
    unfolding cs list.sel using dist fat_volume.free_list_valid [OF vol]
    by (intro chain_link_fat) (auto simp: cs [symmetric] dest: in_set_takeD)
  moreover have "x \<in> set ?cs \<and> F x = 0" if "?F x \<noteq> F x" for x
  proof -
    have "x \<in> set ?cs" using that link_fat_other by metis
    moreover from this have "x \<in> set (free_list fs F)" by (rule in_set_takeD)
    ultimately show ?thesis by (simp add: free_list_def)
  qed
  moreover have "length ?cs = unat n" using assms(5) by simp
  ultimately show ?thesis using run dist by blast
qed

theorem alloc_chain_links_lowest_free_witness:
  "\<exists>s' F' cs. alloc_chain stick_fs 3 (stick_state stick_image) = Some (Ok cs, s') \<and>
    volume stick_fs (usb_blk stick_dev) (usb_ok stick_idle) F' (stick_C stick_image) s' \<and>
    cs = [3, 4, 5] \<and> length cs = 3 \<and> distinct cs \<and> chain stick_fs F' (hd cs) cs \<and>
    (\<forall>x. F' x \<noteq> stick_F stick_image x \<longrightarrow> x \<in> set cs \<and> stick_F stick_image x = 0)"
proof -
  have "take 3 (map of_nat [3 ..< 63]) = [3, 4, 5 :: u32]" by (simp add: upt_conv_Cons)
  then show ?thesis
    using alloc_chain_links_lowest_free [OF stick_vol.fat_volume_axioms stick_volume [OF good_stick_image], of 3]
    by (simp add: FAT32_MAX_CHAIN_def stick_free_list del: upt_Suc)
qed

text \<open>C8: \<open>free_chain\<close> returns from every valid starting cluster when all FAT entries are valid clusters
  or stop marks, even if the chain runs in a circle, and then exactly the clusters the chain visits
  are free.\<close>

theorem free_chain_returns:
  assumes "fat_volume fs blk ok max_req" and "volume fs blk ok F C s"
    and "fat_closed fs F" and "valid_cluster fs c"
  shows "\<exists>s'. free_chain fs c s = Some (Ok (), s') \<and>
    volume fs blk ok (\<lambda>x. if reach fs F c x then 0 else F x) C s'"
  using fat_volume.free_chain_reach [OF assms(1, 3), of c C] assms(2, 4) by (auto simp: runs_def)

text \<open>The FAT of an image whose cluster 5 leads back to itself.\<close>

definition loop_image :: "bytes list" where
  "loop_image = [stick_boot,
     le32 0x0FFFFFF8 @ le32 0x0FFFFFFF @ le32 0x0FFFFFF8 @ le32 0 @ le32 0 @ le32 5 @ replicate 488 0,
     format_fat0] @ replicate 125 (replicate 512 0)"

lemma good_loop_image: "good_image loop_image"
  by (simp add: good_image_def loop_image_def stick_boot_def format_fat0_def list_all_iff)

lemma loop_F:
  assumes "2 \<le> unat c" and "unat c < 63"
  shows "stick_F loop_image c = (if c = 2 then 0x0FFFFFF8 else if c = 5 then 5 else 0)"
proof -
  let ?fat = "le32 0x0FFFFFF8 @ le32 0x0FFFFFFF @ le32 0x0FFFFFF8 @ le32 0 @ le32 0 @ le32 5 @ replicate 488 0"
  have F: "stick_F loop_image c = get_le32 ?fat (unat c * 4) AND 0x0FFFFFFF"
    using assms by (simp add: stick_F_entry loop_image_def)
  consider "c = 2" | "c = 3" | "c = 4" | "c = 5" | "6 \<le> unat c"
    using assms(1) by (auto simp: word_unat_eq_iff) linarith
  then have "get_le32 ?fat (unat c * 4) AND 0x0FFFFFFF = (if c = 2 then 0x0FFFFFF8 else if c = 5 then 5 else 0)"
  proof cases
    case 5
    then have "byte_at ?fat (unat c * 4 + k) = 0" for k
    proof -
      from 5 obtain j where "unat c * 4 + k = 24 + j" using le_Suc_ex [of 24 "unat c * 4 + k"] by fastforce
      then show ?thesis by (simp add: byte_at_def nth_append)
    qed
    from this [of 0] this [of 1] this [of 2] this [of 3] 5 show ?thesis
      by (auto simp: get_le32_def simp del: append.simps)
  qed (simp_all add: get_le32_def byte_at_def le32_def nth_append)
  with F show ?thesis by simp
qed

theorem free_chain_returns_witness:
  "\<exists>s'. free_chain stick_fs 5 (stick_state loop_image) = Some (Ok (), s') \<and>
    volume stick_fs (usb_blk stick_dev) (usb_ok stick_idle)
      (\<lambda>x. if reach stick_fs (stick_F loop_image) 5 x then 0 else stick_F loop_image x) (stick_C loop_image) s'"
proof (rule free_chain_returns [OF stick_vol.fat_volume_axioms stick_volume [OF good_loop_image]])
  show "fat_closed stick_fs (stick_F loop_image)"
    by (auto simp: fat_closed_def stick_valid loop_F walk_stops_def EOC_def)
qed (simp add: stick_valid)

text \<open>C10: every copy of the FAT is kept: after \<open>write_fat_entry\<close> all copies still agree, and the entry
  has the new value in each of them.\<close>

theorem write_fat_entry_mirrors:
  assumes "fat_volume fs blk ok max_req" and "volume fs blk ok F C s" and "mirrored fs blk s"
    and "valid_cluster fs c"
  shows "\<exists>s'. write_fat_entry fs c v s = Some (Ok (), s') \<and> mirrored fs blk s' \<and>
    volume fs blk ok (F(c := v AND 0x0FFFFFFF)) C s' \<and>
    (\<forall>k < unat (num_fats fs). fat_entry fs k (blk s') c = v AND 0x0FFFFFFF)"
proof -
  from runsE [OF fat_volume.write_fat_entry_mirrored [OF assms(1, 4), of F C v]] assms(2, 3)
  obtain s' where s': "write_fat_entry fs c v s = Some (Ok (), s')"
    "volume fs blk ok (F(c := v AND 0x0FFFFFFF)) C s'" "mirrored fs blk s'" by blast
  then have "fat_entry fs 0 (blk s') c = v AND 0x0FFFFFFF"
    using assms(4) by (auto simp: volume_def)
  moreover have "fat_entry fs k (blk s') c = fat_entry fs 0 (blk s') c" if "k < unat (num_fats fs)" for k
    using s'(3) that assms(4) unfolding mirrored_def by blast
  ultimately show ?thesis using s' by auto
qed

theorem write_fat_entry_mirrors_witness:
  "\<exists>s'. write_fat_entry stick_fs 7 9 (stick_state stick_image) = Some (Ok (), s') \<and>
    mirrored stick_fs (usb_blk stick_dev) s' \<and>
    volume stick_fs (usb_blk stick_dev) (usb_ok stick_idle)
      ((stick_F stick_image)(7 := 9 AND 0x0FFFFFFF)) (stick_C stick_image) s' \<and>
    (\<forall>k < unat (num_fats stick_fs). fat_entry stick_fs k (usb_blk stick_dev s') 7 = 9 AND 0x0FFFFFFF)"
proof (rule write_fat_entry_mirrors [OF stick_vol.fat_volume_axioms stick_volume [OF good_stick_image]])
  have blk: "usb_blk stick_dev (stick_state stick_image) (fat_blk stick_fs k c) = format_fat0"
    if "k < 2" and "valid_cluster stick_fs c" for k c
  proof -
    have "unat c * 4 div 512 = 0" using that(2) by (simp add: stick_valid)
    with that(1) show ?thesis
      by (auto simp: fat_blk_def usb_blk_def stick_state_def stick_dev_def stick_fs_def stick_image_def
          less_2_cases_iff simp del: div_mult2_eq)
  qed
  have "unat (num_fats stick_fs) = 2" by (simp add: stick_fs_def)
  then show "mirrored stick_fs (usb_blk stick_dev) (stick_state stick_image)"
    by (simp add: mirrored_def fat_entry_def fat_raw_def blk)
qed (simp add: stick_valid)

section \<open>Removing files, making and removing directories\<close>

definition file_a :: fat_dir where
  "file_a = make_entry (ascii ''A          '') 0x20 3 300"

definition dir_a :: fat_dir where
  "dir_a = make_entry (ascii ''A          '') ATTR_DIRECTORY 2 0"

lemma entry_a:
  "length (de_name file_a) = 11" "visible (file_a, 2, 0)" "length (de_name dir_a) = 11" "visible (dir_a, 2, 0)"
  by code_simp+

text \<open>C12: \<open>canboot_fat32_unlink_path\<close> frees the file's clusters and only those, its name is not found any
  more, the other names of the directory are found as before, and no cluster outside the directory
  changes.\<close>

theorem unlink_path_removes_file:
  assumes "fat_volume fs blk ok max_req" and s: "volume fs blk ok F C s"
    and "split_last path 256 16 = Some (parent, leaf)"
    and "resolves fs F C (root_cluster fs) (path_comps parent) d W" and ds: "chain fs F d ds"
    and look: "lookup (to_83 leaf) (dir_slots fs C ds) = Some (e, c, i)"
    and "replaces fs F (Some (e, c, i)) old" and uniq: "unique_name (to_83 leaf) (dir_slots fs C ds)"
  shows "\<exists>s' C'. canboot_fat32_unlink_path (Some fs) (Some path) s = Some (Ok (), s') \<and>
    volume fs blk ok (\<lambda>x. if x \<in> set old then 0 else F x) C' s' \<and>
    lookup (to_83 leaf) (dir_slots fs C' ds) = None \<and>
    (\<forall>t. t \<noteq> to_83 leaf \<longrightarrow> lookup t (dir_slots fs C' ds) = lookup t (dir_slots fs C ds)) \<and>
    (\<forall>x. x \<notin> set ds \<longrightarrow> C' x = C x)"
proof -
  note vol = assms(1)
  let ?C = "C(c := (C c)[i * DIR_ENTRY_SIZE := 0xE5])"
  from runsE [OF fat_volume.unlink_path_runs [OF vol assms(3-7)] s] obtain s' where
    "canboot_fat32_unlink_path (Some fs) (Some path) s = Some (Ok (), s')"
    "volume fs blk ok (\<lambda>x. if x \<in> set old then 0 else F x) ?C s'" .
  moreover note fat_volume.mark_deleted_lookup [OF vol ds look fat_volume.length_cluster [OF vol s] refl]
  moreover have "c \<in> set ds" using lookup_in [OF look] by (simp add: in_dir_slots)
  ultimately show ?thesis using uniq by (intro exI [of _ s'] exI [of _ ?C]) auto
qed

theorem unlink_path_removes_file_witness:
  "\<exists>s' C'. canboot_fat32_unlink_path (Some stick_fs) (Some (ascii ''/a'')) (stick_state (file_image file_a))
      = Some (Ok (), s') \<and>
    volume stick_fs (usb_blk stick_dev) (usb_ok stick_idle)
      (\<lambda>x. if x \<in> set [3] then 0 else stick_F (file_image file_a) x) C' s' \<and>
    lookup (to_83 (ascii ''a'')) (dir_slots stick_fs C' [2]) = None \<and>
    (\<forall>t. t \<noteq> to_83 (ascii ''a'') \<longrightarrow>
       lookup t (dir_slots stick_fs C' [2]) = lookup t (dir_slots stick_fs (stick_C (file_image file_a)) [2])) \<and>
    (\<forall>x. x \<notin> set [2] \<longrightarrow> C' x = stick_C (file_image file_a) x)"
proof (rule unlink_path_removes_file [OF stick_vol.fat_volume_axioms stick_volume [OF good_file_image [OF entry_a(1)]]
      stick_path_a stick_resolves_root [OF stick_path_root] file_chains(1)])
  have t: "to_83 (ascii ''a'') = de_name file_a" by code_simp
  show "lookup (to_83 (ascii ''a'')) (dir_slots stick_fs (stick_C (file_image file_a)) [2]) = Some (file_a, 2, 0)"
    and "unique_name (to_83 (ascii ''a'')) (dir_slots stick_fs (stick_C (file_image file_a)) [2])"
    unfolding t file_slots using entry_lookup [OF entry_a(1, 2)] by simp_all
  have "de_attr file_a AND ATTR_DIRECTORY = 0" "entry_first_cluster file_a = 3" by code_simp+
  then show "replaces stick_fs (stick_F (file_image file_a)) (Some (file_a, 2, 0)) [3]"
    using file_chains(2) by (simp add: replaces_def del: chain.simps)
qed

text \<open>C18: after \<open>canboot_fat32_mkdir\<close> the path leads to a new directory in the lowest free cluster, that
  directory is empty for \<open>dir_is_empty\<close>, and no cluster in use outside the parent changes.\<close>

theorem mkdir_makes_empty_directory:
  assumes "fat_volume fs blk ok max_req" and s: "volume fs blk ok F C s"
    and "split_last path 256 16 = Some (parent, leaf)"
    and "resolves fs F C (root_cluster fs) (path_comps parent) d W"
    and "chain fs F d ds" and "ds \<noteq> []"
    and "lookup (to_83 leaf) (dir_slots fs C ds) = None" and "W \<inter> set ds = {}"
    and "to_83 leaf ! 0 \<noteq> 0" and "to_83 leaf ! 0 \<noteq> 0xE5"
    and "free_list fs F = dc # nc # rest" and two: "2 \<le> dir_entries fs"
  shows "\<exists>s1 s2 s3 F' C'.
    canboot_fat32_mkdir (Some fs) (Some path) s = Some (Ok (), s1) \<and> volume fs blk ok F' C' s1 \<and>
    resolve_comps fs (root_cluster fs) (path_comps parent @ [leaf]) s1 = Some (Ok dc, s2) \<and>
    dir_is_empty fs dc s1 = Some (Ok True, s3) \<and> unchanged F C (set ds) F' C'"
proof -
  note vol = assms(1)
  obtain F' C' ds' p where
    w: "runs (volume fs blk ok F C) (canboot_fat32_mkdir (Some fs) (Some path)) () (volume fs blk ok F' C')"
    and r: "resolves fs F' C' (root_cluster fs) (path_comps parent) d W" "chain fs F' d ds'"
    and look: "lookup (to_83 leaf) (dir_slots fs C' ds') = Some (make_entry (to_83 leaf) ATTR_DIRECTORY dc 0, p)"
    and dc: "chain fs F' dc [dc]" "C' dc = new_dir_cluster fs dc d" and un: "unchanged F C (set ds) F' C'"
    using fat_volume.mkdir_runs [OF vol assms(3-12) fat_volume.length_cluster [OF vol s]] by blast
  have "dc \<noteq> 0" using dc(1) by (auto simp: valid_cluster_def)
  then have "resolves fs F' C' d [leaf] dc (set ds' \<union> {})"
    by (intro resolves_Cons [OF r(2) look]) (simp_all add: ATTR_DIRECTORY_def resolves_Nil)
  from fat_volume.resolve_comps_runs [OF vol resolves_append [OF r(1) this]]
  have resolve: "runs (volume fs blk ok F' C') (resolve_comps fs (root_cluster fs) (path_comps parent @ [leaf])) dc
      (volume fs blk ok F' C')" .
  have "only_dots (dir_slots fs C' [dc])" by (rule new_dir_only_dots(1) [OF two, of C' dc d]) (rule dc(2))
  then have empty: "runs (volume fs blk ok F' C') (dir_is_empty fs dc) True (volume fs blk ok F' C')"
    using fat_volume.dir_is_empty_runs [OF vol dc(1), of C'] by simp
  from runsE [OF w s] obtain s1 where s1: "canboot_fat32_mkdir (Some fs) (Some path) s = Some (Ok (), s1)"
    "volume fs blk ok F' C' s1" .
  with un runsE [OF resolve s1(2)] runsE [OF empty s1(2)] show ?thesis by metis
qed

theorem mkdir_makes_empty_directory_witness:
  "\<exists>s1 s2 s3 F' C'.
    canboot_fat32_mkdir (Some stick_fs) (Some (ascii ''/a'')) (stick_state stick_image) = Some (Ok (), s1) \<and>
    volume stick_fs (usb_blk stick_dev) (usb_ok stick_idle) F' C' s1 \<and>
    resolve_comps stick_fs (root_cluster stick_fs) (path_comps (ascii ''/'') @ [ascii ''a'']) s1 = Some (Ok 3, s2) \<and>
    dir_is_empty stick_fs 3 s1 = Some (Ok True, s3) \<and>
    unchanged (stick_F stick_image) (stick_C stick_image) (set [2]) F' C'"
proof (rule mkdir_makes_empty_directory [OF stick_vol.fat_volume_axioms stick_volume [OF good_stick_image]
      stick_path_a stick_resolves_root [OF stick_path_root] stick_root_chain])
  show "free_list stick_fs (stick_F stick_image) = 3 # 4 # map of_nat [5 ..< 63]"
    by (simp add: stick_free_list upt_conv_Cons)
qed (simp_all add: stick_root_lookup stick_name_a0, simp add: dir_entries_def stick_fs_def DIR_ENTRY_SIZE_def)

text \<open>\<open>canboot_fat32_rmdir\<close> refuses a directory that holds anything besides its dot entries, and
  leaves the volume as it was.\<close>

theorem rmdir_refuses_nonempty:
  assumes "fat_volume fs blk ok max_req" and "volume fs blk ok F C s"
    and "split_last path 256 16 = Some (parent, leaf)"
    and "resolves fs F C (root_cluster fs) (path_comps parent) d W" and "chain fs F d ds"
    and "lookup (to_83 leaf) (dir_slots fs C ds) = Some (e, c, i)"
    and "chain fs F (entry_first_cluster e) es" and "\<not> only_dots (dir_slots fs C es)"
  shows "\<exists>s'. canboot_fat32_rmdir (Some fs) (Some path) s = Some (Err, s') \<and> volume fs blk ok F C s'"
  using fat_volume.rmdir_nonempty_fails [OF assms(1, 3-8)] assms(2) by (auto simp: fails_def)

theorem rmdir_refuses_nonempty_witness:
  "\<exists>s'. canboot_fat32_rmdir (Some stick_fs) (Some (ascii ''/a'')) (stick_state (entry_image dir_a)) = Some (Err, s') \<and>
    volume stick_fs (usb_blk stick_dev) (usb_ok stick_idle)
      (stick_F (entry_image dir_a)) (stick_C (entry_image dir_a)) s'"
proof (rule rmdir_refuses_nonempty [OF stick_vol.fat_volume_axioms stick_volume [OF good_entry_image [OF entry_a(3)]]
      stick_path_a stick_resolves_root [OF stick_path_root] entry_chain])
  have t: "to_83 (ascii ''a'') = de_name dir_a" by code_simp
  show "lookup (to_83 (ascii ''a'')) (dir_slots stick_fs (stick_C (entry_image dir_a)) [2]) = Some (dir_a, 2, 0)"
    unfolding t using entry_lookup [OF entry_a(3, 4)] by simp
  have "entry_first_cluster dir_a = 2" by (simp add: dir_a_def)
  then show "chain stick_fs (stick_F (entry_image dir_a)) (entry_first_cluster dir_a) [2]"
    using entry_chain [of dir_a] by simp
  obtain rest where slots: "dir_slots stick_fs (stick_C (entry_image dir_a)) [2] = (dir_a, 2, 0) # rest"
    using entry_slots [OF entry_a(3)] by metis
  moreover have "not_end (dir_a, 2, 0)" and "\<not> unused (dir_a, 2, 0)" and "de_attr dir_a \<noteq> ATTR_LFN"
    and "\<not> is_dot_entry dir_a" by code_simp+
  ultimately show "\<not> only_dots (dir_slots stick_fs (stick_C (entry_image dir_a)) [2])"
    by (simp add: only_dots_def)
qed

section \<open>Walks that do not end, and names\<close>

text \<open>C39: a directory whose chain runs in a circle without an end marker is searched forever:
  \<open>dir_find\<close> does not return for a name that is not there.\<close>

theorem dir_find_hangs_on_cycle:
  assumes "fat_volume fs blk ok max_req" and "volume fs blk ok F C s" and "c \<in> L"
    and L: "\<And>x. x \<in> L \<Longrightarrow> valid_cluster fs x \<and> F x \<in> L \<and>
      find_scan (C x) t [0 ..< dir_entries fs] = Next_Cluster"
  shows "dir_find fs c t s = None"
proof -
  note vol = assms(1)
  let ?P = "\<lambda>fs' tt cl st y. \<not> (cl \<in> L \<and> volume fs blk ok F C st \<and> tt = t \<and> fs' = fs)"
  have "?P fs' tt cl st y" if "dir_find_loop fs' tt cl st = Some y" for fs' tt cl st y
  proof (rule dir_find_loop.raw_induct [where P = ?P, OF _ that], rule notI)
    fix loop fs' tt cl st y
    assume hyp: "\<And>fs' tt cl st y. loop fs' tt cl st = Some y \<Longrightarrow> ?P fs' tt cl st y"
      and body: "(if 2 \<le> cl \<and> cl < EOC
        then bnd (read_cluster fs' cl) (\<lambda>buf. case find_scan buf tt [0 ..< dir_entries fs'] of
            Hit i \<Rightarrow> ret (Some (dirent_at buf i, cl, i)) | End_Of_Dir \<Rightarrow> ret None
          | Next_Cluster \<Rightarrow> bnd (read_fat_entry fs' cl) (loop fs' tt)) st
        else ret None st) = Some y"
      and *: "cl \<in> L \<and> volume fs blk ok F C st \<and> tt = t \<and> fs' = fs"
    then have cl: "valid_cluster fs cl" "F cl \<in> L" and st: "volume fs blk ok F C st" using L by auto
    have guard: "2 \<le> cl \<and> cl < EOC" using fat_volume.valid_below_EOC [OF vol cl(1)] by simp
    obtain st1 where r1: "read_cluster fs cl st = Some (Ok (C cl), st1)" "volume fs blk ok F C st1"
      using runsE [OF fat_volume.read_cluster_runs [OF vol cl(1)] st] .
    obtain st2 where r2: "read_fat_entry fs cl st1 = Some (Ok (F cl), st2)" "volume fs blk ok F C st2"
      using runsE [OF fat_volume.read_fat_entry_runs [OF vol cl(1)] r1(2)] .
    from body * guard r1 r2 L [of cl] have "loop fs tt (F cl) st2 = Some y"
      by (simp add: bnd_def)
    from hyp [OF this] * cl(2) r2(2) show False by blast
  qed
  note never = this
  have "dir_find_loop fs t c s = None"
    using never [of fs t c s] assms(2, 3) by (cases "dir_find_loop fs t c s") blast+
  then show ?thesis using fat_volume.not_too_big [OF vol] by (simp add: dir_find_def)
qed

text \<open>The image whose root directory is full of deleted entries and whose chain is a circle.\<close>

definition cycle_image :: "bytes list" where
  "cycle_image = [stick_boot,
     le32 0x0FFFFFF8 @ le32 0x0FFFFFFF @ le32 2 @ replicate 500 0, format_fat0,
     replicate 512 0xE5] @ replicate 124 (replicate 512 0)"

theorem dir_find_hangs_on_cycle_witness:
  "dir_find stick_fs 2 (ascii ''A          '') (stick_state cycle_image) = None"
proof (rule dir_find_hangs_on_cycle [OF stick_vol.fat_volume_axioms stick_volume])
  show "good_image cycle_image"
    by (simp add: good_image_def cycle_image_def stick_boot_def format_fat0_def list_all_iff)
  show "2 \<in> {2 :: u32}" by simp
  have F: "stick_F cycle_image 2 = 2"
    by (simp add: stick_F_entry cycle_image_def get_le32_def byte_at_def le32_def nth_append)
  have C: "stick_C cycle_image 2 = replicate 512 0xE5"
    by (simp add: stick_C_block cycle_image_def)
  have "name0 (dirent_at (replicate 512 0xE5) i) = 0xE5" if "i < 16" for i
    using that by (simp add: name0_def dirent_at_def Let_def byte_at_def DIR_ENTRY_SIZE_def)
  then have "find_scan (replicate 512 0xE5) t is = Next_Cluster" if "\<forall>i \<in> set is. i < 16" for t "is"
    using that by (induction "is") (simp_all add: Let_def)
  then show "valid_cluster stick_fs x \<and> stick_F cycle_image x \<in> {2} \<and>
      find_scan (stick_C cycle_image x) (ascii ''A          '') [0 ..< dir_entries stick_fs] = Next_Cluster"
    if "x \<in> {2}" for x
    using that F C by (simp add: stick_valid) (simp add: dir_entries_def stick_fs_def DIR_ENTRY_SIZE_def)
qed

text \<open>\<open>to_83\<close> and \<open>name_from_83\<close> agree: a name of at most 8 characters with an extension of at most 3,
  without spaces or further dots, comes back upper-cased.\<close>

theorem name_83_round_trip:
  assumes "length base \<le> 8" and "length ext \<le> 3" and "ext \<noteq> []"
    and "0x2E \<notin> set base" and "0x20 \<notin> set base \<union> set ext"
  shows "name_from_83 (to_83 (base @ 0x2E # ext)) = map upcase base @ 0x2E # map upcase ext"
proof -
  have up: "upcase c \<noteq> 0x20" if "c \<noteq> 0x20" for c
  proof (cases "0x61 \<le> c \<and> c \<le> 0x7A")
    case True
    then have "unat (c - 32) = unat c - 32"
      using unat_sub_no_wrap [of 32 c] by (simp add: word_le_nat_alt)
    then have "unat (c - 32) \<noteq> unat (0x20 :: u8)" using True by (auto simp: word_le_nat_alt)
    with True show ?thesis by (auto simp: upcase_def)
  qed (use that in \<open>auto simp: upcase_def\<close>)
  have base: "takeWhile (\<lambda>c. c \<noteq> 0x2E) (base @ 0x2E # ext) = base"
    using assms(4) by (auto simp: takeWhile_append)
  have spaces: "takeWhile (\<lambda>c. c \<noteq> 0x20) (map upcase xs @ replicate n 0x20) = map upcase xs"
    if "0x20 \<notin> set xs" for xs n
    using that up by (induction xs) (auto simp: takeWhile_replicate)
  have "to_83 (base @ 0x2E # ext) = pad 8 (map upcase base) @ pad 3 (map upcase ext)"
    using assms(1, 2) by (simp add: to_83_def base Let_def)
  moreover have "length (pad 8 (map upcase base)) = 8" "length (pad 3 (map upcase ext)) = 3"
    using assms(1, 2) by (simp_all add: pad_def)
  moreover obtain x xs where "ext = x # xs" using assms(3) by (cases ext) auto
  moreover have "upcase x \<noteq> 0x20" if "x \<in> set ext" for x using up [of x] that assms(5) by blast
  ultimately show ?thesis
    using assms(5) spaces [of base] spaces [of ext] by (simp add: name_from_83_def Let_def pad_def)
qed

theorem name_83_round_trip_witness:
  "name_from_83 (to_83 (ascii ''init'' @ 0x2E # ascii ''cdo''))
     = map upcase (ascii ''init'') @ 0x2E # map upcase (ascii ''cdo'')"
  by (rule name_83_round_trip) code_simp+

section \<open>Mounting\<close>

text \<open>Mounting a disk whose boot sector passes the three checks of \<open>canboot_fat32_open\<close> but has a zero
  \<open>sectors_per_cluster\<close> byte divides by zero: the call does not return.\<close>

theorem open_divides_by_zero:
  assumes "block_device d blk ok max_req" and "ok s" and "0 < unat (block_count d)"
    and "unat (block_size d) \<le> 4096"
    and "get_le16 (blk s 0) 11 \<noteq> 0" and "get_le16 (blk s 0) 22 = 0" and "get_le16 (blk s 0) 17 = 0"
    and "byte_at (blk s 0) 13 = 0"
  shows "canboot_fat32_open (Some d) s = None"
proof -
  have "runs (\<lambda>t. ok t \<and> blk t = blk s) (dread d 0 1) (blk s 0) (\<lambda>t. ok t \<and> blk t = blk s)"
    using block_device.read_law [OF assms(1), of 1 0 "blk s"] block_device.max_req_pos [OF assms(1)] assms(3)
    by simp
  from runsE [OF this] assms(2) obtain s' where "dread d 0 1 s = Some (Ok (blk s 0), s')" by blast
  moreover have "\<not> 4096 < block_size d" using assms(4) by (simp add: word_less_nat_alt)
  moreover have "block_size d \<noteq> 0" using block_device.block_size_pos [OF assms(1)] by auto
  ultimately show ?thesis
    using assms(5-8) by (simp add: canboot_fat32_open_def disk_read_sector_def bnd_def bpb_of_def Let_def no_return_apply)
qed

definition zero_spc_image :: "bytes list" where
  "zero_spc_image = stick_image[0 := replicate 11 0 @ le16 512 @ replicate 499 0]"

theorem open_divides_by_zero_witness:
  "canboot_fat32_open (Some (usb_disk stick_xhci 0 stick_msc)) (stick_state zero_spc_image) = None"
proof (rule open_divides_by_zero [OF stick.usb.block_device_axioms])
  have blk: "usb_blk stick_dev (stick_state zero_spc_image) 0 = replicate 11 0 @ le16 512 @ replicate 499 0"
    by (simp add: usb_blk_def stick_state_def stick_dev_def zero_spc_image_def stick_image_def)
  show "usb_ok stick_idle (stick_state zero_spc_image)"
    using good_stick_image
    by (auto simp: usb_ok_def stick_idle_def stick_state_def zero_spc_image_def good_image_def list_all_length nth_list_update)
  show "get_le16 (usb_blk stick_dev (stick_state zero_spc_image) 0) 11 \<noteq> 0"
    "get_le16 (usb_blk stick_dev (stick_state zero_spc_image) 0) 22 = 0"
    "get_le16 (usb_blk stick_dev (stick_state zero_spc_image) 0) 17 = 0"
    "byte_at (usb_blk stick_dev (stick_state zero_spc_image) 0) 13 = 0"
    unfolding blk by (simp_all add: get_le16_def byte_at_def le16_def nth_append)
qed (simp_all add: usb_disk_def stick_msc_def)

end
