(* ===== verification/Partition.thy ===== *)
theory Partition
  imports Disk
begin

text \<open>
  Partition tables (\<open>fs/partition.c\<close>): CRC-32, MBR and GPT. Packed structs are records with their
  byte layout. Each function of the C file that handles the GPT entry array has a static 16 KiB
  buffer of its own; its contents on entry are a parameter \<open>tbl0\<close>, since a table shorter than the
  buffer leaves the rest as it was. Where the C code would leave that buffer, or read past a
  92-byte header, the model has no result.
\<close>

section \<open>Layout\<close>

definition GPT_SIG :: u64 where "GPT_SIG = 0x5452415020494645"
definition GPT_HDR_LBA :: u64 where "GPT_HDR_LBA = 1"
definition GPT_TBL_LBA :: u64 where "GPT_TBL_LBA = 2"
definition GPT_TBL_BYTES :: u32 where "GPT_TBL_BYTES = 16384"
definition GPT_ENTRIES :: u32 where "GPT_ENTRIES = 128"
definition GPT_ENTRY_SIZE :: u32 where "GPT_ENTRY_SIZE = 128"
definition MBR_SIG :: u16 where "MBR_SIG = 0xAA55"
definition MBR_TYPE_PROTECTIVE :: u8 where "MBR_TYPE_PROTECTIVE = 0xEE"
definition CANBOOT_PART_TYPE_LINUX :: u8 where "CANBOOT_PART_TYPE_LINUX = 0x83"
definition CANBOOT_PART_NAME_MAX :: nat where "CANBOOT_PART_NAME_MAX = 36"

definition CANBOOT_GPT_TYPE_BASIC_DATA :: bytes where
  "CANBOOT_GPT_TYPE_BASIC_DATA =
     [0xA2, 0xA0, 0xD0, 0xEB, 0xE5, 0xB9, 0x33, 0x44, 0x87, 0xC0, 0x68, 0xB6, 0xB7, 0x26, 0x99, 0xC7]"

datatype part_scheme = CANBOOT_PART_SCHEME_NONE | CANBOOT_PART_SCHEME_MBR | CANBOOT_PART_SCHEME_GPT

record canboot_partition =
  pt_start_lba :: u64
  pt_end_lba :: u64
  pt_size_lba :: u64
  pt_type_mbr :: u32
  pt_type_gpt :: bytes
  pt_name :: bytes
  pt_bootable_mbr :: u8
  pt_scheme :: part_scheme

record mbr_entry =
  me_bootable :: u8
  me_chs_start :: bytes
  me_type :: u8
  me_chs_end :: bytes
  me_lba_start :: u32
  me_lba_count :: u32

definition mbr_off :: "nat \<Rightarrow> nat" where
  "mbr_off i = 446 + i * 16"

definition mbr_entry_at :: "bytes \<Rightarrow> nat \<Rightarrow> mbr_entry" where
  "mbr_entry_at buf i = \<lparr>
     me_bootable = byte_at buf (mbr_off i),
     me_chs_start = map (\<lambda>k. byte_at buf (mbr_off i + 1 + k)) [0 ..< 3],
     me_type = byte_at buf (mbr_off i + 4),
     me_chs_end = map (\<lambda>k. byte_at buf (mbr_off i + 5 + k)) [0 ..< 3],
     me_lba_start = get_le32 buf (mbr_off i + 8), me_lba_count = get_le32 buf (mbr_off i + 12) \<rparr>"

text \<open>The 92 bytes of a GPT header.\<close>

record gpt_header =
  gh_signature :: u64
  gh_revision :: u32
  gh_header_size :: u32
  gh_header_crc32 :: u32
  gh_reserved :: u32
  gh_current_lba :: u64
  gh_backup_lba :: u64
  gh_first_usable :: u64
  gh_last_usable :: u64
  gh_disk_guid :: bytes
  gh_table_lba :: u64
  gh_entry_count :: u32
  gh_entry_size :: u32
  gh_table_crc32 :: u32

definition gpt_header_bytes :: "gpt_header \<Rightarrow> bytes" where
  "gpt_header_bytes h =
     le64 (gh_signature h) @ le32 (gh_revision h) @ le32 (gh_header_size h) @ le32 (gh_header_crc32 h)
     @ le32 (gh_reserved h) @ le64 (gh_current_lba h) @ le64 (gh_backup_lba h)
     @ le64 (gh_first_usable h) @ le64 (gh_last_usable h) @ gh_disk_guid h @ le64 (gh_table_lba h)
     @ le32 (gh_entry_count h) @ le32 (gh_entry_size h) @ le32 (gh_table_crc32 h)"

definition gpt_header_of :: "bytes \<Rightarrow> gpt_header" where
  "gpt_header_of buf = \<lparr>
     gh_signature = get_le64 buf 0, gh_revision = get_le32 buf 8, gh_header_size = get_le32 buf 12,
     gh_header_crc32 = get_le32 buf 16, gh_reserved = get_le32 buf 20,
     gh_current_lba = get_le64 buf 24, gh_backup_lba = get_le64 buf 32,
     gh_first_usable = get_le64 buf 40, gh_last_usable = get_le64 buf 48,
     gh_disk_guid = map (\<lambda>k. byte_at buf (56 + k)) [0 ..< 16], gh_table_lba = get_le64 buf 72,
     gh_entry_count = get_le32 buf 80, gh_entry_size = get_le32 buf 84, gh_table_crc32 = get_le32 buf 88 \<rparr>"

text \<open>The 128 bytes of a GPT entry, at a byte offset of the table.\<close>

record gpt_entry =
  ge_type_guid :: bytes
  ge_part_guid :: bytes
  ge_start_lba :: u64
  ge_end_lba :: u64
  ge_attributes :: u64
  ge_name_utf16 :: "u16 list"

definition gpt_entry_at :: "bytes \<Rightarrow> nat \<Rightarrow> gpt_entry" where
  "gpt_entry_at tbl o0 = \<lparr>
     ge_type_guid = map (\<lambda>k. byte_at tbl (o0 + k)) [0 ..< 16],
     ge_part_guid = map (\<lambda>k. byte_at tbl (o0 + 16 + k)) [0 ..< 16],
     ge_start_lba = get_le64 tbl (o0 + 32), ge_end_lba = get_le64 tbl (o0 + 40),
     ge_attributes = get_le64 tbl (o0 + 48),
     ge_name_utf16 = map (\<lambda>k. get_le16 tbl (o0 + 56 + 2 * k)) [0 ..< 36] \<rparr>"

definition gpt_entry_bytes :: "gpt_entry \<Rightarrow> bytes" where
  "gpt_entry_bytes e = ge_type_guid e @ ge_part_guid e @ le64 (ge_start_lba e) @ le64 (ge_end_lba e)
     @ le64 (ge_attributes e) @ concat (map le16 (ge_name_utf16 e))"

definition gpt_entry_empty :: "gpt_entry \<Rightarrow> bool" where
  "gpt_entry_empty e \<longleftrightarrow> list_all (\<lambda>b. b = 0) (ge_type_guid e)"

section \<open>CRC-32\<close>

definition crc_step :: "u32 \<Rightarrow> u32" where
  "crc_step c = (if c AND 1 \<noteq> 0 then 0xEDB88320 XOR drop_bit 1 c else drop_bit 1 c)"

text \<open>The table the first call builds.\<close>

definition crc_table :: "u32 \<Rightarrow> u32" where
  "crc_table i = (crc_step ^^ 8) i"

definition crc32_buf :: "bytes \<Rightarrow> u32" where
  "crc32_buf data = foldl (\<lambda>c b. crc_table ((c XOR ucast b) AND 0xFF) XOR drop_bit 8 c) 0xFFFFFFFF data
     XOR 0xFFFFFFFF"

section \<open>Reading\<close>

definition read_lba :: "'s canboot_disk \<Rightarrow> u64 \<Rightarrow> u32 \<Rightarrow> ('s, bytes) prog" where
  "read_lba d lba n_blocks = dread d lba n_blocks"

definition write_lba :: "'s canboot_disk \<Rightarrow> u64 \<Rightarrow> bytes \<Rightarrow> u32 \<Rightarrow> ('s, unit) prog" where
  "write_lba d lba buf n_blocks = (if \<not> writable d then err else dwrite d lba n_blocks buf)"

text \<open>\<open>read_lba(d, 0, buf, 1)\<close> into a buffer of 512 bytes: a larger block overruns it.\<close>

definition read_sector0 :: "'s canboot_disk \<Rightarrow> ('s, bytes) prog" where
  "read_sector0 d = bnd (read_lba d 0 1) (\<lambda>buf. if 512 < length buf then no_return else ret buf)"

definition read_gpt_header :: "'s canboot_disk \<Rightarrow> ('s, gpt_header) prog" where
  "read_gpt_header d =
    (if 512 < block_size d then err else
     bnd (read_lba d GPT_HDR_LBA 1) (\<lambda>buf.
     let h = gpt_header_of buf in
     if gh_signature h \<noteq> GPT_SIG then err else
     if gh_header_size h < 92 \<or> block_size d < gh_header_size h then err else
     if crc32_buf (take (unat (gh_header_size h)) (put_bytes buf 16 (le32 0))) \<noteq> gh_header_crc32 h then err
     else ret h))"

definition read_gpt_table :: "'s canboot_disk \<Rightarrow> gpt_header \<Rightarrow> bytes \<Rightarrow> ('s, bytes) prog" where
  "read_gpt_table d h tbl0 =
    (let len0 = gh_entry_count h * gh_entry_size h;
         len = (if GPT_TBL_BYTES < len0 then GPT_TBL_BYTES else len0);
         n_sect = (len + block_size d - 1) div block_size d in
     bnd (read_lba d (gh_table_lba h) n_sect) (\<lambda>got.
     if unat GPT_TBL_BYTES < length got then no_return else ret (put_bytes tbl0 0 got)))"

definition canboot_part_detect :: "'s canboot_disk option \<Rightarrow> ('s, part_scheme) prog" where
  "canboot_part_detect dp = (case dp of None \<Rightarrow> ret CANBOOT_PART_SCHEME_NONE | Some d \<Rightarrow>
     bnd (attempt (read_gpt_header d)) (\<lambda>r.
     case r of Ok _ \<Rightarrow> ret CANBOOT_PART_SCHEME_GPT | Err \<Rightarrow>
     bnd (attempt (read_sector0 d)) (\<lambda>r2.
     case r2 of Err \<Rightarrow> ret CANBOOT_PART_SCHEME_NONE | Ok buf \<Rightarrow>
     if get_le16 buf 510 \<noteq> MBR_SIG then ret CANBOOT_PART_SCHEME_NONE
     else if list_ex (\<lambda>i. me_type (mbr_entry_at buf i) \<noteq> 0) [0 ..< 4] then ret CANBOOT_PART_SCHEME_MBR
     else ret CANBOOT_PART_SCHEME_NONE)))"

primrec list_mbr_loop :: "bytes \<Rightarrow> nat \<Rightarrow> nat list \<Rightarrow> canboot_partition list \<Rightarrow> canboot_partition list" where
  "list_mbr_loop buf mx [] out = out"
| "list_mbr_loop buf mx (i # is) out =
    (if mx \<le> length out then out else
     (let e = mbr_entry_at buf i in
      if me_type e = 0 \<or> me_lba_count e = 0 then list_mbr_loop buf mx is out
      else list_mbr_loop buf mx is (out @ [\<lparr>
        pt_start_lba = ucast (me_lba_start e),
        pt_end_lba = ucast (me_lba_start e) + ucast (me_lba_count e) - 1,
        pt_size_lba = ucast (me_lba_count e), pt_type_mbr = ucast (me_type e),
        pt_type_gpt = replicate 16 0, pt_name = [],
        pt_bootable_mbr = (if me_bootable e = 0x80 then 1 else 0),
        pt_scheme = CANBOOT_PART_SCHEME_MBR \<rparr>])))"

definition list_mbr :: "'s canboot_disk \<Rightarrow> nat \<Rightarrow> ('s, canboot_partition list) prog" where
  "list_mbr d mx = bnd (read_sector0 d) (\<lambda>buf. ret (list_mbr_loop buf mx [0 ..< 4] []))"

text \<open>\<open>n\<close> input units into a buffer of \<open>cap\<close> bytes; the result is the string without its terminator.\<close>

definition utf16le_to_ascii :: "u16 list \<Rightarrow> nat \<Rightarrow> bytes" where
  "utf16le_to_ascii src cap =
     map (\<lambda>c. if c < 0x80 then ucast c else 0x3F) (take (cap - 1) (takeWhile (\<lambda>c. c \<noteq> 0) src))"

definition gpt_partition :: "gpt_entry \<Rightarrow> canboot_partition" where
  "gpt_partition e = \<lparr>
     pt_start_lba = ge_start_lba e, pt_end_lba = ge_end_lba e,
     pt_size_lba = ge_end_lba e - ge_start_lba e + 1, pt_type_mbr = 0,
     pt_type_gpt = ge_type_guid e,
     pt_name = utf16le_to_ascii (ge_name_utf16 e) (CANBOOT_PART_NAME_MAX + 1),
     pt_bootable_mbr = 0, pt_scheme = CANBOOT_PART_SCHEME_GPT \<rparr>"

text \<open>The byte offset of entry \<open>i\<close>; \<open>None\<close> where its 128 bytes leave the buffer.\<close>

definition gpt_offset :: "gpt_header \<Rightarrow> u32 \<Rightarrow> nat option" where
  "gpt_offset h i = (let o0 = unat (i * gh_entry_size h) in
     if o0 + 128 \<le> unat GPT_TBL_BYTES then Some o0 else None)"

primrec list_gpt_loop :: "gpt_header \<Rightarrow> bytes \<Rightarrow> nat \<Rightarrow> nat list \<Rightarrow> canboot_partition list
    \<Rightarrow> ('s, canboot_partition list) prog" where
  "list_gpt_loop h tbl mx [] out = ret out"
| "list_gpt_loop h tbl mx (i # is) out =
    (if mx \<le> length out then ret out else
     (case gpt_offset h (of_nat i) of None \<Rightarrow> no_return
      | Some o0 \<Rightarrow>
          let e = gpt_entry_at tbl o0 in
          if gpt_entry_empty e then list_gpt_loop h tbl mx is out
          else list_gpt_loop h tbl mx is (out @ [gpt_partition e])))"

definition list_gpt :: "'s canboot_disk \<Rightarrow> bytes \<Rightarrow> nat \<Rightarrow> ('s, canboot_partition list) prog" where
  "list_gpt d tbl0 mx =
     bnd (read_gpt_header d) (\<lambda>h.
     bnd (read_gpt_table d h tbl0) (\<lambda>tbl.
     list_gpt_loop h tbl mx [0 ..< unat (gh_entry_count h)] []))"

definition canboot_part_list ::
    "'s canboot_disk option \<Rightarrow> bytes \<Rightarrow> u32 \<Rightarrow> ('s, canboot_partition list) prog" where
  "canboot_part_list dp tbl0 mx = (case dp of None \<Rightarrow> err | Some d \<Rightarrow>
     bnd (canboot_part_detect (Some d)) (\<lambda>scheme.
     case scheme of
       CANBOOT_PART_SCHEME_GPT \<Rightarrow> list_gpt d tbl0 (unat mx)
     | CANBOOT_PART_SCHEME_MBR \<Rightarrow> list_mbr d (unat mx)
     | CANBOOT_PART_SCHEME_NONE \<Rightarrow> ret []))"

section \<open>Writing\<close>

definition canboot_part_init_mbr :: "'s canboot_disk option \<Rightarrow> ('s, unit) prog" where
  "canboot_part_init_mbr dp = (case dp of None \<Rightarrow> err | Some d \<Rightarrow>
     if \<not> writable d then err else write_lba d 0 (replicate 510 0 @ [0x55, 0xAA]) 1)"

text \<open>\<open>crc32_buf(h, h->header_size)\<close> with the CRC field zero.\<close>

definition seal_header :: "gpt_header \<Rightarrow> gpt_header" where
  "seal_header h = h\<lparr> gh_header_crc32 :=
     crc32_buf (take (unat (gh_header_size h)) (gpt_header_bytes (h\<lparr> gh_header_crc32 := 0 \<rparr>))) \<rparr>"

definition header_sector :: "gpt_header \<Rightarrow> bytes" where
  "header_sector h = put_bytes (replicate 512 0) 0 (take (unat (gh_header_size h)) (gpt_header_bytes h))"

definition write_gpt_pair :: "'s canboot_disk \<Rightarrow> gpt_header \<Rightarrow> bytes \<Rightarrow> u32 \<Rightarrow> ('s, unit) prog" where
  "write_gpt_pair d h tbl table_sectors =
    (if 92 < gh_header_size h \<or> length tbl < unat (gh_entry_count h * gh_entry_size h) then no_return else
     let primary = seal_header
           (h\<lparr> gh_table_crc32 := crc32_buf (take (unat (gh_entry_count h * gh_entry_size h)) tbl) \<rparr>);
         backup = seal_header (primary\<lparr> gh_current_lba := gh_backup_lba primary,
           gh_backup_lba := gh_current_lba primary,
           gh_table_lba := gh_backup_lba primary - ucast table_sectors \<rparr>) in
     bnd (write_lba d (gh_table_lba primary) tbl table_sectors) (\<lambda>_.
     bnd (write_lba d (gh_current_lba primary) (header_sector primary) 1) (\<lambda>_.
     bnd (write_lba d (gh_table_lba backup) tbl table_sectors) (\<lambda>_.
     write_lba d (gh_current_lba backup) (header_sector backup) 1))))"

definition table_sectors :: "'s canboot_disk \<Rightarrow> u32" where
  "table_sectors d = (GPT_TBL_BYTES + block_size d - 1) div block_size d"

definition protective_mbr :: "u64 \<Rightarrow> bytes" where
  "protective_mbr nblk = replicate 446 0 @ [0, 0, 0, 0, MBR_TYPE_PROTECTIVE, 0, 0, 0] @ le32 1
     @ le32 (if 0xFFFFFFFF < nblk - 1 then 0xFFFFFFFF else ucast (nblk - 1))
     @ replicate 48 0 @ [0x55, 0xAA]"

definition fresh_gpt_header :: "'s canboot_disk \<Rightarrow> gpt_header" where
  "fresh_gpt_header d = (let nblk = block_count d; ts = table_sectors d in \<lparr>
     gh_signature = GPT_SIG, gh_revision = 0x00010000, gh_header_size = 92, gh_header_crc32 = 0,
     gh_reserved = 0, gh_current_lba = GPT_HDR_LBA, gh_backup_lba = nblk - 1,
     gh_first_usable = GPT_TBL_LBA + ucast ts, gh_last_usable = nblk - 1 - ucast ts - 1,
     gh_disk_guid = le64 0x63616e626f6f742d @ le64 nblk, gh_table_lba = GPT_TBL_LBA,
     gh_entry_count = GPT_ENTRIES, gh_entry_size = GPT_ENTRY_SIZE, gh_table_crc32 = 0 \<rparr>)"

definition canboot_part_init_gpt :: "'s canboot_disk option \<Rightarrow> ('s, unit) prog" where
  "canboot_part_init_gpt dp = (case dp of None \<Rightarrow> err | Some d \<Rightarrow>
     if \<not> writable d then err else
     if block_size d \<noteq> 512 then err else
     if block_count d < 64 then err else
     bnd (write_lba d 0 (protective_mbr (block_count d)) 1) (\<lambda>_.
     write_gpt_pair d (fresh_gpt_header d) (replicate (unat GPT_TBL_BYTES) 0) (table_sectors d)))"

text \<open>The entries of an MBR sector: where a new partition goes, and writing one.\<close>

definition put_mbr_entry :: "bytes \<Rightarrow> nat \<Rightarrow> u8 \<Rightarrow> u32 \<Rightarrow> u32 \<Rightarrow> bytes" where
  "put_mbr_entry buf i ty start cnt =
     put_bytes (put_bytes (buf[mbr_off i := 0, mbr_off i + 4 := ty, 510 := 0x55, 511 := 0xAA])
       (mbr_off i + 8) (le32 start)) (mbr_off i + 12) (le32 cnt)"

primrec create_mbr_loop ::
    "'s canboot_disk \<Rightarrow> bytes \<Rightarrow> u8 \<Rightarrow> u64 \<Rightarrow> u64 \<Rightarrow> nat list \<Rightarrow> ('s, nat) prog" where
  "create_mbr_loop d buf ty start_lba end_lba [] = err"
| "create_mbr_loop d buf ty start_lba end_lba (i # is) =
    (if me_type (mbr_entry_at buf i) \<noteq> 0 then create_mbr_loop d buf ty start_lba end_lba is
     else bnd (write_lba d 0 (put_mbr_entry buf i (if ty \<noteq> 0 then ty else CANBOOT_PART_TYPE_LINUX)
                 (ucast start_lba) (ucast (end_lba - start_lba + 1))) 1) (\<lambda>_. ret i))"

text \<open>A C string is the list of its bytes before the terminator.\<close>

definition new_gpt_entry :: "nat \<Rightarrow> u64 \<Rightarrow> u64 \<Rightarrow> bytes option \<Rightarrow> gpt_entry" where
  "new_gpt_entry i start_lba end_lba name_or_null = \<lparr>
     ge_type_guid = CANBOOT_GPT_TYPE_BASIC_DATA,
     ge_part_guid = le64 (0x706172742d312300 OR of_nat i) @ le64 start_lba,
     ge_start_lba = start_lba, ge_end_lba = end_lba, ge_attributes = 0,
     ge_name_utf16 = (case name_or_null of None \<Rightarrow> replicate 36 0
       | Some nm \<Rightarrow> map ucast (take 35 nm) @ replicate (36 - length (take 35 nm)) 0) \<rparr>"

primrec create_gpt_loop :: "'s canboot_disk \<Rightarrow> gpt_header \<Rightarrow> bytes \<Rightarrow> u64 \<Rightarrow> u64 \<Rightarrow> bytes option
    \<Rightarrow> nat list \<Rightarrow> ('s, nat) prog" where
  "create_gpt_loop d h tbl start_lba end_lba nm [] = err"
| "create_gpt_loop d h tbl start_lba end_lba nm (i # is) =
    (case gpt_offset h (of_nat i) of None \<Rightarrow> no_return
     | Some o0 \<Rightarrow>
         if \<not> gpt_entry_empty (gpt_entry_at tbl o0) then create_gpt_loop d h tbl start_lba end_lba nm is
         else bnd (write_gpt_pair d h
                (put_bytes tbl o0 (gpt_entry_bytes (new_gpt_entry i start_lba end_lba nm)))
                (table_sectors d)) (\<lambda>_. ret i))"

definition canboot_part_create :: "'s canboot_disk option \<Rightarrow> bytes \<Rightarrow> u64 \<Rightarrow> u64 \<Rightarrow> u8 \<Rightarrow> bytes option
    \<Rightarrow> ('s, nat) prog" where
  "canboot_part_create dp tbl0 start_lba end_lba type_or_zero name_or_null =
    (case dp of None \<Rightarrow> err | Some d \<Rightarrow>
     if \<not> writable d then err else
     if end_lba < start_lba then err else
     bnd (canboot_part_detect (Some d)) (\<lambda>scheme0.
     bnd (if scheme0 = CANBOOT_PART_SCHEME_NONE
          then bnd (canboot_part_init_gpt (Some d)) (\<lambda>_. ret CANBOOT_PART_SCHEME_GPT)
          else ret scheme0) (\<lambda>scheme.
     if scheme = CANBOOT_PART_SCHEME_MBR then
       bnd (read_sector0 d) (\<lambda>buf. create_mbr_loop d buf type_or_zero start_lba end_lba [0 ..< 4])
     else
       bnd (read_gpt_header d) (\<lambda>h.
       bnd (read_gpt_table d h tbl0) (\<lambda>tbl.
       create_gpt_loop d h tbl start_lba end_lba name_or_null [0 ..< unat (gh_entry_count h)])))))"

definition canboot_part_delete :: "'s canboot_disk option \<Rightarrow> bytes \<Rightarrow> u32 \<Rightarrow> ('s, unit) prog" where
  "canboot_part_delete dp tbl0 idx = (case dp of None \<Rightarrow> err | Some d \<Rightarrow>
     if \<not> writable d then err else
     bnd (canboot_part_detect (Some d)) (\<lambda>scheme.
     case scheme of
       CANBOOT_PART_SCHEME_MBR \<Rightarrow>
         if 4 \<le> idx then err else
         bnd (read_sector0 d) (\<lambda>buf.
         write_lba d 0 (put_bytes buf (mbr_off (unat idx)) (replicate 16 0)) 1)
     | CANBOOT_PART_SCHEME_GPT \<Rightarrow>
         bnd (read_gpt_header d) (\<lambda>h.
         if gh_entry_count h \<le> idx then err else
         bnd (read_gpt_table d h tbl0) (\<lambda>tbl.
         case gpt_offset h idx of None \<Rightarrow> no_return
         | Some o0 \<Rightarrow> write_gpt_pair d h (put_bytes tbl o0 (replicate 128 0)) (table_sectors d)))
     | CANBOOT_PART_SCHEME_NONE \<Rightarrow> err))"

definition canboot_part_resize :: "'s canboot_disk option \<Rightarrow> bytes \<Rightarrow> u32 \<Rightarrow> u64 \<Rightarrow> ('s, unit) prog" where
  "canboot_part_resize dp tbl0 idx new_end_lba = (case dp of None \<Rightarrow> err | Some d \<Rightarrow>
     if \<not> writable d then err else
     bnd (canboot_part_detect (Some d)) (\<lambda>scheme.
     case scheme of
       CANBOOT_PART_SCHEME_MBR \<Rightarrow>
         if 4 \<le> idx then err else
         bnd (read_sector0 d) (\<lambda>buf.
         let e = mbr_entry_at buf (unat idx) in
         if me_type e = 0 then err else
         if new_end_lba < ucast (me_lba_start e) then err else
         let new_count = new_end_lba - ucast (me_lba_start e) + 1 in
         if 0xFFFFFFFF < new_count then err else
         write_lba d 0 (put_bytes buf (mbr_off (unat idx) + 12) (le32 (ucast new_count))) 1)
     | CANBOOT_PART_SCHEME_GPT \<Rightarrow>
         bnd (read_gpt_header d) (\<lambda>h.
         if gh_entry_count h \<le> idx then err else
         bnd (read_gpt_table d h tbl0) (\<lambda>tbl.
         case gpt_offset h idx of None \<Rightarrow> no_return
         | Some o0 \<Rightarrow>
             let e = gpt_entry_at tbl o0 in
             if gpt_entry_empty e then err else
             if new_end_lba < ge_start_lba e then err else
             write_gpt_pair d h (put_bytes tbl (o0 + 40) (le64 new_end_lba)) (table_sectors d)))
     | CANBOOT_PART_SCHEME_NONE \<Rightarrow> err))"

end
