(* ===== verification/Crc32.thy ===== *)
theory Crc32
  imports Partition
begin

text \<open>
  The checksum \<open>crc32_buf\<close> of \<open>fs/partition.c\<close>: it is the CRC-32 of IEEE 802.3, given here as the remainder
  of a polynomial division, and it detects any change of one byte.
\<close>

section \<open>The standard\<close>

text \<open>The generator polynomial without its leading term, from the coefficient of the 31st power down.\<close>

definition generator :: "bool list" where
  "generator = map (\<lambda>e. e \<in> {26, 23, 22, 16, 12, 11, 10, 8, 7, 5, 4, 2, 1, 0}) (rev [0 ..< 32])"

text \<open>Long division of polynomials over the two-element field: the remainder of the division by the generator.\<close>

function poly_rem :: "bool list \<Rightarrow> bool list" where
  "poly_rem (b # bs) =
    (if length bs < 32 then b # bs
     else if b then poly_rem (map2 (\<noteq>) (take 32 bs) generator @ drop 32 bs)
     else poly_rem bs)"
| "poly_rem [] = []"
  by pat_completeness auto
termination by (relation "measure length") (auto simp: generator_def)

text \<open>The message is the bits of the bytes, least significant first, followed by 32 zeros. Its first 32 bits
  are complemented, it is divided by the generator, and the complement of the remainder is the checksum, with
  its first bit as the least significant one.\<close>

definition message_bits :: "bytes \<Rightarrow> bool list" where
  "message_bits data = concat (map (\<lambda>b. map (bit b) [0 ..< 8]) data)"

definition crc32_ieee :: "bytes \<Rightarrow> u32" where
  "crc32_ieee data =
    (let m = message_bits data @ replicate 32 False in
     horner_sum of_bool 2 (map Not (poly_rem (map Not (take 32 m) @ drop 32 m))))"

section \<open>The table\<close>

lemma xor_right_cancel: "a XOR c = b XOR c \<longleftrightarrow> a = (b :: 'a::len word)"
proof
  assume "a XOR c = b XOR c"
  then have "(a XOR c) XOR c = (b XOR c) XOR c" by (rule arg_cong)
  then show "a = b" by (simp add: xor.assoc)
qed simp

lemma xor_left_cancel: "c XOR a = c XOR b \<longleftrightarrow> a = (b :: 'a::len word)"
  by (simp add: xor.commute [of c] xor_right_cancel)

lemma crc_step_bit0: "crc_step c = (if bit c 0 then 0xEDB88320 XOR drop_bit 1 c else drop_bit 1 c)"
  by (simp add: crc_step_def and_one_eq bit_0 odd_iff_mod_2_eq_one)

lemma crc_step_xor: "crc_step (a XOR b) = crc_step a XOR crc_step b"
  by (cases "bit a 0"; cases "bit b 0")
    (simp_all add: crc_step_bit0 bit_xor_iff drop_bit_xor xor.left_commute xor.commute flip: xor.assoc)

lemma crc_steps_xor: "(crc_step ^^ n) (a XOR b) = (crc_step ^^ n) a XOR (crc_step ^^ n) b"
  by (induction n) (simp_all add: crc_step_xor)

lemma crc_steps_shift: "(\<And>k. k < n \<Longrightarrow> \<not> bit x k) \<Longrightarrow> (crc_step ^^ n) x = drop_bit n x"
  by (induction n) (simp_all add: crc_step_bit0 bit_simps)

lemma crc_steps_8: "(crc_step ^^ 8) x = crc_table (x AND 0xFF) XOR drop_bit 8 x"
proof -
  have "(0xFF :: u32) = mask 8" by (simp add: mask_eq_exp_minus_1)
  then have ff: "bit (0xFF :: u32) k \<longleftrightarrow> k < 8" for k
    by (simp only: bit_mask_iff possible_bit_word) auto
  have x: "(x AND 0xFF) XOR (x AND NOT 0xFF) = x"
    by (rule bit_word_eqI) (auto simp: bit_simps)
  have "(crc_step ^^ 8) (x AND NOT 0xFF) = drop_bit 8 (x AND NOT 0xFF)"
    by (rule crc_steps_shift) (simp only: bit_and_iff bit_not_iff ff simp_thms)
  also have "\<dots> = drop_bit 8 x"
    by (rule bit_word_eqI)
      (auto simp only: bit_drop_bit_eq bit_and_iff bit_not_iff ff o_apply possible_bit_word
        dest: bit_imp_le_length)
  finally show ?thesis
    using crc_steps_xor [of 8 "x AND 0xFF" "x AND NOT 0xFF"] by (simp only: x crc_table_def)
qed

lemma crc_byte: "crc_table ((c XOR ucast (b :: u8)) AND 0xFF) XOR drop_bit 8 c = (crc_step ^^ 8) (c XOR ucast b)"
proof -
  have "drop_bit 8 (c XOR ucast b) = drop_bit 8 c"
    by (rule bit_word_eqI) (auto simp: bit_simps dest: bit_imp_le_length)
  then show ?thesis by (simp only: crc_steps_8)
qed

lemma crc_foldl:
  "foldl (\<lambda>c b. crc_table ((c XOR ucast b) AND 0xFF) XOR drop_bit 8 c) c data
    = foldl (\<lambda>c b. (crc_step ^^ 8) (c XOR ucast (b :: u8))) c data"
  by (induction data arbitrary: c) (simp_all only: foldl.simps crc_byte)

lemma inj_crc_step: "inj crc_step"
proof (rule injI)
  fix a b assume "crc_step a = crc_step b"
  then have z: "crc_step (a XOR b) = 0" by (simp add: crc_step_xor)
  have "a XOR b = 0"
  proof (cases "bit (a XOR b) 0")
    case True
    with z have "bit (0xEDB88320 XOR drop_bit 1 (a XOR b)) 31 = bit (0 :: u32) 31"
      by (simp add: crc_step_bit0)
    then show ?thesis by (simp add: bit_simps impossible_bit)
  next
    case False
    with z have z': "drop_bit 1 (a XOR b) = 0" by (simp add: crc_step_bit0)
    show ?thesis
    proof (rule bit_word_eqI)
      fix n assume "n < LENGTH(32)"
      show "bit (a XOR b) n = bit (0 :: u32) n"
      proof (cases n)
        case 0
        with False show ?thesis by simp
      next
        case (Suc k)
        with arg_cong [OF z', of "\<lambda>w. bit w k"] show ?thesis
          by (simp add: bit_drop_bit_eq bit_xor_iff)
      qed
    qed
  qed
  then have "a XOR b = b XOR b" by simp
  then show "a = b" by (simp only: xor_right_cancel)
qed

lemma inj_crc_steps: "inj (crc_step ^^ n)"
proof (induction n)
  case (Suc n)
  then show ?case unfolding funpow.simps by (rule inj_compose [OF inj_crc_step])
qed simp

lemma crc_suffix_inj:
  "foldl (\<lambda>c b. (crc_step ^^ 8) (c XOR ucast (b :: u8))) c data
    = foldl (\<lambda>c b. (crc_step ^^ 8) (c XOR ucast b)) c' data \<Longrightarrow> c = c'"
proof (induction data arbitrary: c c')
  case (Cons b data)
  from Cons.prems have "(crc_step ^^ 8) (c XOR ucast b) = (crc_step ^^ 8) (c' XOR ucast b)"
    unfolding foldl.simps by (rule Cons.IH)
  then show ?case by (simp only: inj_eq [OF inj_crc_steps] xor_right_cancel)
qed simp

text \<open>\<open>crc32_buf\<close> detects every change of a single byte, wherever it is.\<close>

lemma crc32_byte_change:
  assumes "b \<noteq> b'"
  shows "crc32_buf (xs @ b # ys) \<noteq> crc32_buf (xs @ b' # ys)"
proof
  let ?f = "\<lambda>c b. (crc_step ^^ 8) (c XOR ucast (b :: u8)) :: u32"
  let ?c = "foldl ?f 0xFFFFFFFF xs"
  assume "crc32_buf (xs @ b # ys) = crc32_buf (xs @ b' # ys)"
  then have "foldl ?f (?f ?c b) ys = foldl ?f (?f ?c b') ys"
    by (simp only: crc32_buf_def crc_foldl foldl_append foldl.simps xor_right_cancel)
  then have "?f ?c b = ?f ?c b'" by (rule crc_suffix_inj)
  then have "(ucast b :: u32) = ucast b'" by (simp only: inj_eq [OF inj_crc_steps] xor_left_cancel)
  then have "unat (ucast b :: u32) = unat (ucast b' :: u32)" by (rule arg_cong)
  with assms show False by (simp add: unsigned_word_eqI)
qed

lemma crc32_update:
  assumes "p < length xs" and "b \<noteq> xs ! p"
  shows "crc32_buf (xs[p := b]) \<noteq> crc32_buf xs"
proof -
  have "crc32_buf (take p xs @ b # drop (Suc p) xs) \<noteq> crc32_buf (take p xs @ xs ! p # drop (Suc p) xs)"
    using assms(2) by (rule crc32_byte_change)
  then show ?thesis
    using assms(1) by (simp add: upd_conv_take_nth_drop id_take_nth_drop [symmetric])
qed

section \<open>The code computes the standard\<close>

text \<open>A dividend whose first bits have been combined with the register \<open>c\<close>.\<close>

definition combined :: "u32 \<Rightarrow> bool list \<Rightarrow> bool list" where
  "combined c ns = map (\<lambda>i. bit c i \<noteq> ns ! i) [0 ..< length ns]"

lemma generator_bits: "generator = map (bit (0xEDB88320 :: u32)) [0 ..< 32]"
  by code_simp

lemma combined_Cons: "combined c (n # ns) = (bit c 0 \<noteq> n) # combined (drop_bit 1 c) ns"
proof -
  have "[0 ..< length (n # ns)] = 0 # map Suc [0 ..< length ns]"
    by (simp add: map_Suc_upt upt_conv_Cons del: upt_Suc)
  then show ?thesis by (simp add: combined_def bit_drop_bit_eq)
qed

lemma combined_xor:
  "32 \<le> length ns \<Longrightarrow> length p = 32 \<Longrightarrow> (\<And>i. i < 32 \<Longrightarrow> p ! i = bit q i) \<Longrightarrow>
    map2 (\<noteq>) (take 32 (combined c ns)) p @ drop 32 (combined c ns) = combined (q XOR c) ns"
  by (intro nth_equalityI) (auto simp: combined_def nth_append bit_xor_iff dest: bit_imp_le_length)

lemma combined_step:
  assumes "32 \<le> length ns"
  shows "poly_rem (combined c (n # ns)) = poly_rem (combined (crc_step (c XOR of_bool n)) ns)"
proof -
  let ?d = "combined (drop_bit 1 c) ns"
  have "length ?d = length ns" by (simp add: combined_def)
  then have "poly_rem (combined c (n # ns)) =
      (if bit c 0 \<noteq> n then poly_rem (map2 (\<noteq>) (take 32 ?d) generator @ drop 32 ?d) else poly_rem ?d)"
    using assms by (simp add: combined_Cons)
  also have "map2 (\<noteq>) (take 32 ?d) generator @ drop 32 ?d = combined (0xEDB88320 XOR drop_bit 1 c) ns"
  proof (rule combined_xor [OF assms])
    show "length generator = 32" by (simp add: generator_def)
    show "generator ! i = bit (0xEDB88320 :: u32) i" if "i < 32" for i
      using that unfolding generator_bits by (simp only: nth_map_upt diff_zero add_0)
  qed
  also have "(if bit c 0 \<noteq> n then poly_rem (combined (0xEDB88320 XOR drop_bit 1 c) ns) else poly_rem ?d)
      = poly_rem (combined (crc_step (c XOR of_bool n)) ns)"
  proof -
    have "drop_bit 1 (c XOR of_bool n) = drop_bit 1 c"
      by (rule bit_word_eqI) (simp add: bit_drop_bit_eq bit_xor_iff bit_of_bool_iff)
    moreover have "bit (c XOR of_bool n) 0 = (bit c 0 \<noteq> n)"
      by (simp only: bit_xor_iff bit_of_bool_iff)  simp
    ultimately show ?thesis unfolding crc_step_bit0 by (simp only: if_distrib [of "\<lambda>x. poly_rem (combined x ns)"])
  qed
  finally show ?thesis .
qed

lemma combined_bits:
  "poly_rem (combined c (ns @ replicate 32 False)) =
    map (bit (foldl (\<lambda>c n. crc_step (c XOR of_bool n)) c ns)) [0 ..< 32]"
proof (induction ns arbitrary: c)
  case Nil
  have "poly_rem bs = bs" if "length bs = 32" for bs
    using that by (cases bs) simp_all
  then show ?case by (simp add: combined_def)
next
  case (Cons n ns)
  then show ?case by (simp add: combined_step)
qed

lemma crc_bits:
  fixes x :: u32
  assumes "n \<le> 32"
  shows "foldl (\<lambda>c b. crc_step (c XOR of_bool b)) c (map (bit x) [0 ..< n]) = (crc_step ^^ n) (c XOR take_bit n x)"
  using assms
proof (induction n)
  case 0
  then show ?case by simp
next
  case (Suc n)
  let ?b = "of_bool (bit x n) :: u32"
  have "take_bit (Suc n) x = take_bit n x XOR push_bit n ?b"
    by (rule bit_word_eqI) (auto simp: bit_simps less_Suc_eq)
  moreover have "drop_bit n (push_bit n ?b) = ?b"
    using Suc.prems by (intro bit_word_eqI) (auto simp: bit_simps)
  then have "(crc_step ^^ n) (push_bit n ?b) = ?b"
    using crc_steps_shift [of n "push_bit n ?b"] by (simp add: bit_push_bit_iff)
  ultimately have "(crc_step ^^ n) (c XOR take_bit (Suc n) x) = (crc_step ^^ n) (c XOR take_bit n x) XOR ?b"
    by (simp add: crc_steps_xor xor.assoc)
  then show ?case using Suc by simp
qed

lemma crc_bytes:
  "foldl (\<lambda>c b. crc_step (c XOR of_bool b)) c (message_bits data)
    = foldl (\<lambda>c b. (crc_step ^^ 8) (c XOR ucast b)) c data"
proof (induction data arbitrary: c)
  case (Cons b data)
  have eight: "map (bit b) [0 ..< 8] = map (bit (ucast b :: u32)) [0 ..< 8]"
    by (simp add: bit_simps)
  have "take_bit 8 (ucast b :: u32) = ucast b"
    by (rule bit_word_eqI) (auto simp: bit_simps dest: bit_imp_le_length)
  then have "foldl (\<lambda>c b. crc_step (c XOR of_bool b)) c (map (bit b) [0 ..< 8]) = (crc_step ^^ 8) (c XOR ucast b)"
    unfolding eight using crc_bits [of 8 c "ucast b"] by simp
  then show ?case
    using Cons unfolding message_bits_def list.map concat.simps foldl_append foldl.simps by (simp only:)
qed (simp add: message_bits_def)

text \<open>C34: \<open>crc32_buf\<close>, with its table, computes the CRC-32 of IEEE 802.3 for every input: the complemented
  remainder of the polynomial division of the complemented message by the generator of the standard.\<close>

theorem crc32_buf_ieee: "crc32_buf data = crc32_ieee data"
proof -
  let ?m = "message_bits data @ replicate 32 False"
  let ?c = "foldl (\<lambda>c b. crc_table ((c XOR ucast b) AND 0xFF) XOR drop_bit 8 c) 0xFFFFFFFF data"
  have start: "map Not (take 32 m) @ drop 32 m = combined (mask 32) m" if "32 \<le> length m" for m
    using that by (intro nth_equalityI) (auto simp: combined_def nth_append bit_mask_iff)
  have "map Not (take 32 ?m) @ drop 32 ?m = combined (mask 32) ?m" by (rule start) simp
  moreover have ones: "mask 32 = (0xFFFFFFFF :: u32)" by (simp add: mask_eq_exp_minus_1)
  ultimately have "poly_rem (map Not (take 32 ?m) @ drop 32 ?m) = map (bit ?c) [0 ..< 32]"
    using combined_bits [of "0xFFFFFFFF" "message_bits data"] unfolding crc_bytes crc_foldl by simp
  then have "crc32_ieee data = horner_sum of_bool 2 (map Not (map (bit ?c) [0 ..< 32]))"
    by (simp only: crc32_ieee_def Let_def)
  also have "map Not (map (bit ?c) [0 ..< 32]) = map (bit (NOT ?c)) [0 ..< 32]"
    by (simp add: bit_not_iff)
  finally have eq: "crc32_ieee data = horner_sum of_bool 2 (map (bit (NOT ?c)) [0 ..< 32])" .
  have "take_bit 32 w = w" for w :: u32
    by (rule bit_word_eqI) (simp add: bit_take_bit_iff)
  then have "crc32_ieee data = NOT ?c"
    unfolding eq by (simp only: horner_sum_bit_eq_take_bit)
  moreover have "w XOR mask 32 = NOT w" for w :: u32
    by (rule bit_word_eqI) (auto simp: bit_xor_iff bit_not_iff bit_mask_iff)
  ultimately show ?thesis by (simp only: crc32_buf_def flip: ones)
qed

end
