(* ===== verification/Gpt.thy ===== *)
theory Gpt
  imports Crc32
begin

text \<open>
  What the partition code guarantees on a disk that keeps the contract of \<open>block_device\<close>: the headers and
  entries read back as written, and each GPT operation acts on the array of entries as its abstract counterpart does.
\<close>

section \<open>Headers and entries read back\<close>

definition header_ok :: "gpt_header \<Rightarrow> bool" where
  "header_ok h \<longleftrightarrow> gh_signature h = GPT_SIG \<and> gh_header_size h = 92 \<and> length (gh_disk_guid h) = 16"

lemma length_gpt_header_bytes: "length (gh_disk_guid h) = 16 \<Longrightarrow> length (gpt_header_bytes h) = 92"
  by (simp add: gpt_header_bytes_def)

lemma gpt_header_of_bytes:
  assumes "length (gh_disk_guid h) = 16"
  shows "gpt_header_of (gpt_header_bytes h @ rest) = h"
proof -
  have guid: "map (\<lambda>k. byte_at (gpt_header_bytes h @ rest) (56 + k)) [0 ..< 16] = gh_disk_guid h"
    using assms
    by (intro nth_equalityI) (simp_all add: gpt_header_bytes_def byte_at_skip byte_at_def nth_append)
  show ?thesis
    unfolding gpt_header_of_def guid using assms
    by (simp add: gpt_header_bytes_def layout_simps)
qed

lemma zero_header_crc:
  "put_bytes (gpt_header_bytes h @ rest) 16 (le32 0) = gpt_header_bytes (h\<lparr> gh_header_crc32 := 0 \<rparr>) @ rest"
  by (simp add: gpt_header_bytes_def put_bytes_def)

lemma seal_header_twice: "seal_header (seal_header h) = seal_header h"
  by (simp add: seal_header_def)

lemma header_sector_bytes:
  "header_ok h \<Longrightarrow> header_sector h = gpt_header_bytes h @ replicate 420 0"
  by (simp add: header_sector_def header_ok_def put_bytes_def length_gpt_header_bytes)

lemma length_header_sector [simp]: "header_ok h \<Longrightarrow> length (header_sector h) = 512"
  by (simp add: header_sector_bytes header_ok_def length_gpt_header_bytes)

lemma header_ok_seal [simp]: "header_ok (seal_header h) = header_ok h"
  by (simp add: header_ok_def seal_header_def)

lemma sealed_crc:
  assumes "header_ok h"
  shows "crc32_buf (take 92 (put_bytes (header_sector (seal_header h)) 16 (le32 0)))
    = gh_header_crc32 (seal_header h)"
proof -
  have "put_bytes (header_sector (seal_header h)) 16 (le32 0)
      = gpt_header_bytes (h\<lparr> gh_header_crc32 := 0 \<rparr>) @ replicate 420 0"
    using assms by (simp add: header_sector_bytes zero_header_crc) (simp add: seal_header_def)
  then show ?thesis using assms
    by (simp add: seal_header_def header_ok_def length_gpt_header_bytes)
qed

lemma gpt_header_of_sector: "header_ok h \<Longrightarrow> gpt_header_of (header_sector h) = h"
  by (simp add: header_sector_bytes header_ok_def gpt_header_of_bytes)

text \<open>The entry array: 128 slots of 128 bytes.\<close>

definition entry_ok :: "gpt_entry \<Rightarrow> bool" where
  "entry_ok e \<longleftrightarrow> length (ge_type_guid e) = 16 \<and> length (ge_part_guid e) = 16 \<and> length (ge_name_utf16 e) = 36"

definition gpt_entries :: "bytes \<Rightarrow> gpt_entry list" where
  "gpt_entries tbl = map (\<lambda>i. gpt_entry_at tbl (i * 128)) [0 ..< 128]"

lemma length_concat_le16: "length (concat (map le16 xs)) = 2 * length xs"
  by (induction xs) simp_all

lemma length_gpt_entry_bytes: "entry_ok e \<Longrightarrow> length (gpt_entry_bytes e) = 128"
  by (simp add: gpt_entry_bytes_def entry_ok_def length_concat_le16)

lemma get_le16_concat: "k < length xs \<Longrightarrow> get_le16 (concat (map le16 xs) @ ys) (2 * k) = xs ! k"
proof (induction xs arbitrary: k)
  case (Cons x xs)
  then show ?case by (cases k) (simp_all add: get_le16_here get_le16_skip)
qed simp

lemma gpt_entry_at_here:
  assumes "entry_ok e"
  shows "gpt_entry_at (gpt_entry_bytes e @ rest) 0 = e"
proof -
  let ?b = "gpt_entry_bytes e @ rest"
  note e = assms [unfolded entry_ok_def]
  have ty: "map (\<lambda>k. byte_at ?b (0 + k)) [0 ..< 16] = ge_type_guid e"
    using e by (intro nth_equalityI) (simp_all add: gpt_entry_bytes_def byte_at_def nth_append)
  have pg: "map (\<lambda>k. byte_at ?b (0 + 16 + k)) [0 ..< 16] = ge_part_guid e"
    using e by (intro nth_equalityI) (simp_all add: gpt_entry_bytes_def byte_at_skip byte_at_def nth_append)
  have nm: "map (\<lambda>k. get_le16 ?b (0 + 56 + 2 * k)) [0 ..< 36] = ge_name_utf16 e"
    using e by (intro nth_equalityI) (simp_all add: gpt_entry_bytes_def get_le16_skip get_le16_concat)
  show ?thesis
    unfolding gpt_entry_at_def ty pg nm using e by (simp add: gpt_entry_bytes_def layout_simps)
qed

lemma gpt_entry_at_skip:
  "gpt_entry_at (xs @ ys) (length xs + o0) = gpt_entry_at ys o0"
  by (simp add: gpt_entry_at_def layout_simps add.assoc)

lemma gpt_entry_at_put_same:
  assumes "entry_ok e" and "o0 + 128 \<le> length tbl"
  shows "gpt_entry_at (put_bytes tbl o0 (gpt_entry_bytes e)) o0 = e"
proof -
  have "length (take o0 tbl) = o0" using assms(2) by simp
  then show ?thesis
    using gpt_entry_at_skip [of "take o0 tbl" "gpt_entry_bytes e @ drop (o0 + 128) tbl" 0] assms(1)
    by (simp add: put_bytes_def length_gpt_entry_bytes gpt_entry_at_here)
qed

lemma gpt_entry_at_put_other:
  assumes "j + 128 \<le> o0 \<or> o0 + length ys \<le> j" and "o0 + length ys \<le> length tbl"
  shows "gpt_entry_at (put_bytes tbl o0 ys) j = gpt_entry_at tbl j"
  unfolding gpt_entry_at_def using assms
  by (auto simp: get_le64_put_other intro!: map_cong byte_at_put_outside get_le16_put_other)

lemma gpt_entries_put:
  assumes "entry_ok e" and "i < 128" and "length tbl = 16384"
  shows "gpt_entries (put_bytes tbl (i * 128) (gpt_entry_bytes e)) = (gpt_entries tbl)[i := e]"
proof (rule nth_equalityI)
  fix j assume "j < length (gpt_entries (put_bytes tbl (i * 128) (gpt_entry_bytes e)))"
  then have j: "j < 128" by (simp add: gpt_entries_def)
  have fits: "i * 128 + 128 \<le> length tbl" using assms(2, 3) by simp
  show "gpt_entries (put_bytes tbl (i * 128) (gpt_entry_bytes e)) ! j = (gpt_entries tbl)[i := e] ! j"
  proof (cases "j = i")
    case True
    with j fits show ?thesis
      by (simp add: gpt_entries_def gpt_entry_at_put_same [OF assms(1)])
  next
    case False
    then have "j * 128 + 128 \<le> i * 128 \<or> i * 128 + 128 \<le> j * 128" by linarith
    with j False fits show ?thesis
      by (simp add: gpt_entries_def gpt_entry_at_put_other length_gpt_entry_bytes [OF assms(1)])
  qed
qed (simp add: gpt_entries_def)

end
