(* ===== verification/Gpt_Ops.thy ===== *)
theory Gpt_Ops
  imports Gpt
begin

text \<open>
  The GPT operations on a writable disk of 512-byte blocks: what a valid table is, that writing the
  pair of tables establishes it and its mirror and touches nothing else, and what detect, list,
  create, delete and resize do to the array of entries.
\<close>

section \<open>A valid table on the medium\<close>

text \<open>The place of the tables: 32 blocks at \<open>gh_table_lba\<close>, and 32 blocks and a header at the end.\<close>

definition gpt_geometry :: "'s canboot_disk \<Rightarrow> gpt_header \<Rightarrow> bool" where
  "gpt_geometry d h \<longleftrightarrow> header_ok h \<and> gh_current_lba h = 1 \<and> gh_entry_count h = GPT_ENTRIES \<and>
     gh_entry_size h = GPT_ENTRY_SIZE \<and> 2 \<le> unat (gh_table_lba h) \<and>
     unat (gh_table_lba h) + 64 \<le> unat (gh_backup_lba h) \<and> unat (gh_backup_lba h) < unat (block_count d)"

definition gpt_area :: "gpt_header \<Rightarrow> nat \<Rightarrow> bool" where
  "gpt_area h i \<longleftrightarrow> i = 1 \<or> (unat (gh_table_lba h) \<le> i \<and> i < unat (gh_table_lba h) + 32) \<or>
     (unat (gh_backup_lba h) - 32 \<le> i \<and> i \<le> unat (gh_backup_lba h))"

definition backup_header :: "gpt_header \<Rightarrow> gpt_header" where
  "backup_header h = seal_header (h\<lparr> gh_current_lba := gh_backup_lba h, gh_backup_lba := gh_current_lba h,
     gh_table_lba := gh_backup_lba h - 32 \<rparr>)"

definition has_gpt :: "'s canboot_disk \<Rightarrow> (nat \<Rightarrow> bytes) \<Rightarrow> gpt_header \<Rightarrow> bytes \<Rightarrow> bool" where
  "has_gpt d B h tbl \<longleftrightarrow> gpt_geometry d h \<and> seal_header h = h \<and> B 1 = header_sector h \<and>
     length tbl = 16384 \<and> blocks B (unat (gh_table_lba h)) 32 = tbl"

definition has_backup :: "(nat \<Rightarrow> bytes) \<Rightarrow> gpt_header \<Rightarrow> bytes \<Rightarrow> bool" where
  "has_backup B h tbl \<longleftrightarrow> B (unat (gh_backup_lba h)) = header_sector (backup_header h) \<and>
     blocks B (unat (gh_backup_lba h) - 32) 32 = tbl"

definition retable :: "gpt_header \<Rightarrow> bytes \<Rightarrow> gpt_header" where
  "retable h tbl = seal_header (h\<lparr> gh_table_crc32 := crc32_buf tbl \<rparr>)"

text \<open>Writing the pair: the table and its mirror are there afterwards, and nothing else has changed.\<close>

definition paired ::
    "'s canboot_disk \<Rightarrow> gpt_header \<Rightarrow> bytes \<Rightarrow> (nat \<Rightarrow> bytes) \<Rightarrow> (nat \<Rightarrow> bytes) \<Rightarrow> bool" where
  "paired d h tbl B B' \<longleftrightarrow> has_gpt d B' (retable h tbl) tbl \<and> has_backup B' (retable h tbl) tbl \<and>
     (\<forall>i. \<not> gpt_area h i \<longrightarrow> B' i = B i)"

lemma retable_fields [simp]:
  "gh_table_lba (retable h tbl) = gh_table_lba h" "gh_backup_lba (retable h tbl) = gh_backup_lba h"
  "gh_current_lba (retable h tbl) = gh_current_lba h" "gh_entry_count (retable h tbl) = gh_entry_count h"
  "gh_entry_size (retable h tbl) = gh_entry_size h" "gh_signature (retable h tbl) = gh_signature h"
  "gh_header_size (retable h tbl) = gh_header_size h" "gh_disk_guid (retable h tbl) = gh_disk_guid h"
  "gh_table_crc32 (retable h tbl) = crc32_buf tbl"
  by (simp_all add: retable_def seal_header_def)

lemma header_ok_retable [simp]: "header_ok (retable h tbl) = header_ok h"
  by (simp add: header_ok_def)

lemma gpt_geometry_retable [simp]: "gpt_geometry d (retable h tbl) = gpt_geometry d h"
  by (simp add: gpt_geometry_def)

lemma seal_retable [simp]: "seal_header (retable h tbl) = retable h tbl"
  by (simp add: retable_def seal_header_twice)

lemma header_ok_backup [simp]: "header_ok (backup_header h) = header_ok h"
  by (simp add: backup_header_def header_ok_def seal_header_def)

lemma backup_fields [simp]:
  "gh_current_lba (backup_header h) = gh_backup_lba h" "gh_table_lba (backup_header h) = gh_backup_lba h - 32"
  by (simp_all add: backup_header_def seal_header_def)

lemma table_bytes: "(GPT_ENTRIES * GPT_ENTRY_SIZE :: u32) = 16384" "unat GPT_TBL_BYTES = 16384"
  by (simp_all add: GPT_ENTRIES_def GPT_ENTRY_SIZE_def GPT_TBL_BYTES_def)

lemma gpt_offset_entry:
  assumes "gpt_geometry d h" and "i < 128"
  shows "gpt_offset h (of_nat i) = Some (i * 128)"
proof -
  have i: "unat (of_nat i :: u32) = i" using assms(2) by (simp add: unat_of_nat)
  then have "unat (of_nat i * GPT_ENTRY_SIZE) = i * 128"
    using assms(2) by (subst unat_mult_no_wrap) (simp_all add: GPT_ENTRY_SIZE_def)
  then show ?thesis using assms by (simp add: gpt_offset_def gpt_geometry_def table_bytes)
qed

section \<open>The contract used here\<close>

locale gpt_disk = block_device d blk ok max_req
  for d :: "'s canboot_disk" and blk ok max_req +
  assumes gpt_writable: "writable d"
    and gpt_block_size: "block_size d = 512"
    and gpt_room: "32 \<le> max_req"
begin

lemma table_sectors_32: "table_sectors d = 32"
  by (simp add: table_sectors_def gpt_block_size GPT_TBL_BYTES_def)

lemma read_lba_runs:
  assumes "0 < unat n" and "unat n \<le> 32" and "unat lba + unat n \<le> unat (block_count d)"
  shows "runs (\<lambda>s. ok s \<and> blk s = B) (read_lba d lba n) (blocks B (unat lba) (unat n)) (\<lambda>s. ok s \<and> blk s = B)"
  unfolding read_lba_def using assms gpt_room by (intro read_law) simp_all

lemma write_lba_runs:
  assumes "0 < unat n" and "unat n \<le> 32" and "unat lba + unat n \<le> unat (block_count d)"
    and "length buf = unat n * 512"
  shows "runs (\<lambda>s. ok s \<and> blk s = B) (write_lba d lba buf n) ()
    (\<lambda>s. ok s \<and> blk s = put_blocks 512 B (unat lba) (unat n) buf)"
  unfolding write_lba_def using assms gpt_room gpt_writable write_law [of n lba buf B]
  by (simp add: gpt_block_size)

lemma read_header_runs:
  assumes "has_gpt d B h tbl"
  shows "runs (\<lambda>s. ok s \<and> blk s = B) (read_gpt_header d) h (\<lambda>s. ok s \<and> blk s = B)"
proof -
  have h: "header_ok h" "seal_header h = h" "B 1 = header_sector h" "1 < unat (block_count d)"
    using assms by (auto simp: has_gpt_def gpt_geometry_def)
  have read: "runs (\<lambda>s. ok s \<and> blk s = B) (read_lba d GPT_HDR_LBA 1) (header_sector h) (\<lambda>s. ok s \<and> blk s = B)"
    using read_lba_runs [of 1 GPT_HDR_LBA B] h by (simp add: GPT_HDR_LBA_def)
  have crc: "crc32_buf (take 92 (put_bytes (header_sector h) 16 (le32 0))) = gh_header_crc32 h"
    using sealed_crc [OF h(1)] h(2) by simp
  have "runs (\<lambda>s. ok s \<and> blk s = B)
      (let h' = gpt_header_of (header_sector h) in
       if gh_signature h' \<noteq> GPT_SIG then err else
       if gh_header_size h' < 92 \<or> block_size d < gh_header_size h' then err else
       if crc32_buf (take (unat (gh_header_size h')) (put_bytes (header_sector h) 16 (le32 0)))
          \<noteq> gh_header_crc32 h' then err else ret h') h (\<lambda>s. ok s \<and> blk s = B)"
    using h(1) crc runs_ret [of "\<lambda>s. ok s \<and> blk s = B" h]
    by (simp add: gpt_header_of_sector header_ok_def gpt_block_size)
  then show ?thesis
    unfolding read_gpt_header_def using read by (auto simp: gpt_block_size intro: runs_bnd)
qed

lemma read_table_runs:
  assumes "has_gpt d B h tbl" and "length tbl0 = 16384"
  shows "runs (\<lambda>s. ok s \<and> blk s = B) (read_gpt_table d h tbl0) tbl (\<lambda>s. ok s \<and> blk s = B)"
proof -
  have h: "gh_entry_count h * gh_entry_size h = 16384" "unat (gh_table_lba h) + 32 \<le> unat (block_count d)"
    "length tbl = 16384" "blocks B (unat (gh_table_lba h)) 32 = tbl"
    using assms(1) by (auto simp: has_gpt_def gpt_geometry_def table_bytes)
  have read: "runs (\<lambda>s. ok s \<and> blk s = B) (read_lba d (gh_table_lba h) 32) tbl (\<lambda>s. ok s \<and> blk s = B)"
    using read_lba_runs [of 32 "gh_table_lba h" B] h by simp
  have put: "put_bytes tbl0 0 tbl = tbl" using h(3) assms(2) by (simp add: put_bytes_def)
  have ret: "runs (\<lambda>s. ok s \<and> blk s = B)
      (if unat GPT_TBL_BYTES < length tbl then no_return else ret (put_bytes tbl0 0 tbl)) tbl
      (\<lambda>s. ok s \<and> blk s = B)"
    unfolding put using h(3) by (simp add: table_bytes runs_ret)
  show ?thesis
    unfolding read_gpt_table_def h(1) using read ret
    by (auto simp: gpt_block_size GPT_TBL_BYTES_def intro: runs_bnd)
qed

lemma detect_runs:
  assumes "has_gpt d B h tbl"
  shows "runs (\<lambda>s. ok s \<and> blk s = B) (canboot_part_detect (Some d)) CANBOOT_PART_SCHEME_GPT
    (\<lambda>s. ok s \<and> blk s = B)"
  unfolding canboot_part_detect_def option.case
  by (rule runs_bnd, rule runs_attempt, rule read_header_runs [OF assms]) (simp add: runs_ret)

lemma four_writes:
  assumes "gpt_geometry d h" and "length tbl = 16384"
  shows "paired d h tbl B
    ((put_blocks 512 ((put_blocks 512 B (unat (gh_table_lba h)) 32 tbl)(1 := header_sector (retable h tbl)))
       (unat (gh_backup_lba h) - 32) 32 tbl)
     (unat (gh_backup_lba h) := header_sector (backup_header (retable h tbl))))" (is "paired d h tbl B ?B")
proof -
  let ?T = "unat (gh_table_lba h)" and ?K = "unat (gh_backup_lba h)"
  have g: "2 \<le> ?T" "?T + 64 \<le> ?K" using assms(1) by (simp_all add: gpt_geometry_def)
  have "blocks ?B ?T 32 = blocks (put_blocks 512 B ?T 32 tbl) ?T 32"
    using g by (intro blocks_cong) (simp add: put_blocks_outside)
  then have table: "blocks ?B ?T 32 = tbl" using assms(2) by (simp add: blocks_put_blocks)
  have "blocks ?B (?K - 32) 32 = blocks (put_blocks 512
      ((put_blocks 512 B ?T 32 tbl)(1 := header_sector (retable h tbl))) (?K - 32) 32 tbl) (?K - 32) 32"
    using g by (intro blocks_cong) simp
  then have mirror: "blocks ?B (?K - 32) 32 = tbl" using assms(2) by (simp add: blocks_put_blocks)
  have one: "?B 1 = header_sector (retable h tbl)" using g by (simp add: put_blocks_outside)
  have frame: "?B i = B i" if "\<not> gpt_area h i" for i
    using that g by (auto simp: gpt_area_def put_blocks_outside)
  show ?thesis
    unfolding paired_def has_gpt_def has_backup_def retable_fields table mirror one
    using assms frame by simp
qed

lemma write_pair_runs:
  assumes "gpt_geometry d h" and "length tbl = 16384"
  shows "runs (\<lambda>s. ok s \<and> blk s = B) (write_gpt_pair d h tbl 32) () (\<lambda>s. ok s \<and> paired d h tbl B (blk s))"
proof -
  let ?T = "gh_table_lba h" and ?K = "gh_backup_lba h" and ?p = "retable h tbl"
  let ?B1 = "put_blocks 512 B (unat ?T) 32 tbl"
  let ?B2 = "?B1(1 := header_sector ?p)"
  let ?B3 = "put_blocks 512 ?B2 (unat ?K - 32) 32 tbl"
  have g: "2 \<le> unat ?T" "unat ?T + 64 \<le> unat ?K" "unat ?K < unat (block_count d)" "header_ok h"
    "gh_header_size h = 92" "gh_current_lba h = 1" "gh_entry_count h * gh_entry_size h = 16384"
    using assms(1) by (simp_all add: gpt_geometry_def header_ok_def table_bytes)
  have K: "unat (?K - 32) = unat ?K - 32"
    using g by (subst unat_sub_no_wrap) (simp_all add: word_le_nat_alt)
  have w1: "runs (\<lambda>s. ok s \<and> blk s = B) (write_lba d ?T tbl 32) () (\<lambda>s. ok s \<and> blk s = ?B1)"
    using write_lba_runs [of 32 ?T tbl B] g assms(2) by simp
  have w2: "runs (\<lambda>s. ok s \<and> blk s = ?B1) (write_lba d 1 (header_sector ?p) 1) () (\<lambda>s. ok s \<and> blk s = ?B2)"
    using write_lba_runs [of 1 1 "header_sector ?p" ?B1] g by simp
  have w3: "runs (\<lambda>s. ok s \<and> blk s = ?B2) (write_lba d (?K - 32) tbl 32) () (\<lambda>s. ok s \<and> blk s = ?B3)"
    using write_lba_runs [of 32 "?K - 32" tbl ?B2] g K assms(2) by simp
  have w4: "runs (\<lambda>s. ok s \<and> blk s = ?B3) (write_lba d ?K (header_sector (backup_header ?p)) 1) ()
      (\<lambda>s. ok s \<and> paired d h tbl B (blk s))"
    using write_lba_runs [of 1 ?K "header_sector (backup_header ?p)" ?B3] g four_writes [OF assms, of B]
    by (auto elim!: runs_conseq)
  have body: "write_gpt_pair d h tbl 32 = bnd (write_lba d ?T tbl 32) (\<lambda>_.
      bnd (write_lba d 1 (header_sector ?p) 1) (\<lambda>_.
      bnd (write_lba d (?K - 32) tbl 32) (\<lambda>_. write_lba d ?K (header_sector (backup_header ?p)) 1)))"
    using g assms(2)
    by (simp add: write_gpt_pair_def Let_def flip: retable_def)
      (simp add: backup_header_def seal_header_def)
  show ?thesis
    unfolding body by (rule runs_bnd, rule w1, rule runs_bnd, rule w2, rule runs_bnd, rule w3, rule w4)
qed

end

section \<open>List and search over the entries\<close>

lemma list_gpt_loop_value:
  assumes "gpt_geometry d h" and "list_all (\<lambda>i. i < 128) is"
  shows "list_gpt_loop h tbl mx is out = ret (out @ take (mx - length out)
    (map gpt_partition (filter (\<lambda>e. \<not> gpt_entry_empty e) (map (\<lambda>i. gpt_entry_at tbl (i * 128)) is))))"
  using assms(2)
proof (induction "is" arbitrary: out)
  case (Cons i "is")
  then have i: "gpt_offset h (of_nat i) = Some (i * 128)" using gpt_offset_entry [OF assms(1)] by simp
  have "mx - length out = Suc (mx - Suc (length out))" if "\<not> mx \<le> length out" using that by simp
  with Cons i show ?case by (simp add: Let_def)
qed simp

text \<open>The first empty slot.\<close>

definition first_empty :: "gpt_entry list \<Rightarrow> nat option" where
  "first_empty es = find (\<lambda>i. gpt_entry_empty (es ! i)) [0 ..< length es]"

lemma create_gpt_loop_value:
  assumes "gpt_geometry d h" and "list_all (\<lambda>i. i < 128) is"
  shows "create_gpt_loop d h tbl start_lba end_lba nm is =
    (case find (\<lambda>i. gpt_entry_empty (gpt_entry_at tbl (i * 128))) is of None \<Rightarrow> err
     | Some i \<Rightarrow> bnd (write_gpt_pair d h
         (put_bytes tbl (i * 128) (gpt_entry_bytes (new_gpt_entry i start_lba end_lba nm)))
         (table_sectors d)) (\<lambda>_. ret i))"
  using assms(2)
proof (induction "is")
  case (Cons i "is")
  then have "gpt_offset h (of_nat i) = Some (i * 128)" using gpt_offset_entry [OF assms(1)] by simp
  with Cons show ?case by simp
qed simp

lemma find_upt_gpt_entries:
  "find (\<lambda>i. gpt_entry_empty (gpt_entry_at tbl (i * 128))) [0 ..< 128] = first_empty (gpt_entries tbl)"
  unfolding first_empty_def by (rule find_cong) (simp_all add: gpt_entries_def)

text \<open>The two other edits of the array.\<close>

definition zero_entry :: gpt_entry where
  "zero_entry = \<lparr> ge_type_guid = replicate 16 0, ge_part_guid = replicate 16 0, ge_start_lba = 0,
     ge_end_lba = 0, ge_attributes = 0, ge_name_utf16 = replicate 36 0 \<rparr>"

lemma concat_replicate_le16: "concat (map le16 (replicate n 0)) = replicate (2 * n) 0"
  by (induction n) (simp_all add: le16_def)

lemma zero_entry_bytes: "replicate 128 0 = gpt_entry_bytes zero_entry"
proof -
  have "gpt_entry_bytes zero_entry
      = replicate 16 0 @ replicate 16 0 @ replicate 24 0 @ concat (map le16 (replicate 36 0))"
    by (simp add: gpt_entry_bytes_def zero_entry_def le64_def le32_def numeral_eq_Suc)
  also have "\<dots> = replicate (16 + (16 + (24 + 72))) 0"
    unfolding concat_replicate_le16 replicate_add by simp
  finally show ?thesis by simp
qed

lemma entry_ok_zero [simp]: "entry_ok zero_entry"
  by (simp add: entry_ok_def zero_entry_def)

lemma entry_ok_new [simp]: "entry_ok (new_gpt_entry i a b nm)"
  by (cases nm) (auto simp: entry_ok_def new_gpt_entry_def CANBOOT_GPT_TYPE_BASIC_DATA_def)

lemma new_entry_not_empty [simp]: "\<not> gpt_entry_empty (new_gpt_entry i a b nm)"
  by (simp add: gpt_entry_empty_def new_gpt_entry_def CANBOOT_GPT_TYPE_BASIC_DATA_def)

lemma zero_entry_empty [simp]: "gpt_entry_empty zero_entry"
  by (simp add: gpt_entry_empty_def zero_entry_def list_all_iff)

lemma get_le64_le64:
  assumes "i + 8 \<le> length xs"
  shows "get_le64 (put_bytes xs i (le64 v)) i = v"
  using assms get_le64_skip [of "take i xs" i "le64 v @ drop (i + 8) xs"]
  by (simp add: put_bytes_def get_le64_here)

lemma gpt_entry_at_put_end:
  assumes "o0 + 128 \<le> length tbl"
  shows "gpt_entry_at (put_bytes tbl (o0 + 40) (le64 v)) o0 = (gpt_entry_at tbl o0)\<lparr> ge_end_lba := v \<rparr>"
  using assms
  by (simp add: gpt_entry_at_def get_le64_put_other get_le64_le64 byte_at_put_outside get_le16_put_other)

lemma gpt_entries_put_end:
  assumes "i < 128" and "length tbl = 16384"
  shows "gpt_entries (put_bytes tbl (i * 128 + 40) (le64 v))
    = (gpt_entries tbl)[i := (gpt_entries tbl ! i)\<lparr> ge_end_lba := v \<rparr>]"
proof (rule nth_equalityI)
  fix j assume "j < length (gpt_entries (put_bytes tbl (i * 128 + 40) (le64 v)))"
  then have j: "j < 128" by (simp add: gpt_entries_def)
  have fits: "i * 128 + 128 \<le> length tbl" using assms by simp
  show "gpt_entries (put_bytes tbl (i * 128 + 40) (le64 v)) ! j
      = (gpt_entries tbl)[i := (gpt_entries tbl ! i)\<lparr> ge_end_lba := v \<rparr>] ! j"
  proof (cases "j = i")
    case True
    with j fits show ?thesis by (simp add: gpt_entries_def gpt_entry_at_put_end)
  next
    case False
    then have "j * 128 + 128 \<le> i * 128 + 40 \<or> i * 128 + 40 + 8 \<le> j * 128" by linarith
    with j False fits show ?thesis by (simp add: gpt_entries_def gpt_entry_at_put_other)
  qed
qed (simp add: gpt_entries_def)

section \<open>The operations\<close>

definition listed :: "gpt_entry list \<Rightarrow> canboot_partition list" where
  "listed es = map gpt_partition (filter (\<lambda>e. \<not> gpt_entry_empty e) es)"

context gpt_disk
begin

lemma list_runs:
  assumes "has_gpt d B h tbl" and "length tbl0 = 16384"
  shows "runs (\<lambda>s. ok s \<and> blk s = B) (canboot_part_list (Some d) tbl0 mx)
    (take (unat mx) (listed (gpt_entries tbl))) (\<lambda>s. ok s \<and> blk s = B)"
proof -
  have g: "gpt_geometry d h" "unat (gh_entry_count h) = 128"
    using assms(1) by (simp_all add: has_gpt_def gpt_geometry_def GPT_ENTRIES_def)
  have loop: "list_gpt_loop h tbl (unat mx) [0 ..< unat (gh_entry_count h)] []
      = ret (take (unat mx) (listed (gpt_entries tbl)))"
    unfolding g(2) using list_gpt_loop_value [OF g(1), of "[0 ..< 128]" tbl "unat mx" "[]"]
    by (simp add: listed_def gpt_entries_def list_all_iff)
  show ?thesis
    unfolding canboot_part_list_def option.case
    apply (rule runs_bnd, rule detect_runs [OF assms(1)])
    unfolding part_scheme.case list_gpt_def
    apply (rule runs_bnd, rule read_header_runs [OF assms(1)])
    apply (rule runs_bnd, rule read_table_runs [OF assms])
    unfolding loop by (rule runs_ret)
qed

lemma create_runs:
  assumes "has_gpt d B h tbl" and "length tbl0 = 16384" and "start_lba \<le> end_lba"
    and "first_empty (gpt_entries tbl) = Some i"
  shows "runs (\<lambda>s. ok s \<and> blk s = B) (canboot_part_create (Some d) tbl0 start_lba end_lba ty nm) i
    (\<lambda>s. ok s \<and> paired d h
       (put_bytes tbl (i * 128) (gpt_entry_bytes (new_gpt_entry i start_lba end_lba nm))) B (blk s))"
proof -
  let ?e = "new_gpt_entry i start_lba end_lba nm"
  have g: "gpt_geometry d h" "unat (gh_entry_count h) = 128" "length tbl = 16384"
    using assms(1) by (simp_all add: has_gpt_def gpt_geometry_def GPT_ENTRIES_def)
  have i: "i < 128"
    using assms(4) by (auto simp: first_empty_def gpt_entries_def find_Some_iff)
  have len: "length (put_bytes tbl (i * 128) (gpt_entry_bytes ?e)) = 16384"
    using i g(3) by (simp add: length_gpt_entry_bytes)
  have loop: "create_gpt_loop d h tbl start_lba end_lba nm [0 ..< unat (gh_entry_count h)]
      = bnd (write_gpt_pair d h (put_bytes tbl (i * 128) (gpt_entry_bytes ?e)) 32) (\<lambda>_. ret i)"
    unfolding g(2) using create_gpt_loop_value [OF g(1), of "[0 ..< 128]" tbl start_lba end_lba nm]
    by (simp add: list_all_iff find_upt_gpt_entries assms(4) table_sectors_32)
  have le: "\<not> end_lba < start_lba" using assms(3) by (simp add: not_less)
  show ?thesis
    unfolding canboot_part_create_def option.case if_not_P [OF le]
    apply (simp only: gpt_writable not_True_eq_False if_False)
    apply (rule runs_bnd, rule detect_runs [OF assms(1)])
    apply (rule runs_bnd, simp, rule runs_ret)
    apply (simp only: part_scheme.distinct if_False)
    apply (rule runs_bnd, rule read_header_runs [OF assms(1)])
    apply (rule runs_bnd, rule read_table_runs [OF assms(1, 2)])
    unfolding loop
    by (rule runs_bnd, rule write_pair_runs [OF g(1) len], rule runs_ret)
qed

lemma delete_runs:
  assumes "has_gpt d B h tbl" and "length tbl0 = 16384" and "i < 128"
  shows "runs (\<lambda>s. ok s \<and> blk s = B) (canboot_part_delete (Some d) tbl0 (of_nat i)) ()
    (\<lambda>s. ok s \<and> paired d h (put_bytes tbl (i * 128) (gpt_entry_bytes zero_entry)) B (blk s))"
proof -
  have g: "gpt_geometry d h" "gh_entry_count h = 128" "length tbl = 16384"
    using assms(1) by (simp_all add: has_gpt_def gpt_geometry_def GPT_ENTRIES_def)
  have idx: "\<not> gh_entry_count h \<le> of_nat i"
    using assms(3) by (simp add: g(2) word_le_nat_alt unat_of_nat)
  have len: "length (put_bytes tbl (i * 128) (gpt_entry_bytes zero_entry)) = 16384"
    using assms(3) g(3) by (simp add: length_gpt_entry_bytes)
  show ?thesis
    unfolding canboot_part_delete_def option.case
    apply (simp only: gpt_writable not_True_eq_False if_False)
    apply (rule runs_bnd, rule detect_runs [OF assms(1)])
    unfolding part_scheme.case
    apply (rule runs_bnd, rule read_header_runs [OF assms(1)])
    unfolding if_not_P [OF idx]
    apply (rule runs_bnd, rule read_table_runs [OF assms(1, 2)])
    unfolding gpt_offset_entry [OF g(1) assms(3)] option.case zero_entry_bytes table_sectors_32
    by (rule write_pair_runs [OF g(1) len])
qed

lemma resize_runs:
  assumes "has_gpt d B h tbl" and "length tbl0 = 16384" and "i < 128"
    and "\<not> gpt_entry_empty (gpt_entries tbl ! i)" and "ge_start_lba (gpt_entries tbl ! i) \<le> new_end"
  shows "runs (\<lambda>s. ok s \<and> blk s = B) (canboot_part_resize (Some d) tbl0 (of_nat i) new_end) ()
    (\<lambda>s. ok s \<and> paired d h (put_bytes tbl (i * 128 + 40) (le64 new_end)) B (blk s))"
proof -
  have g: "gpt_geometry d h" "gh_entry_count h = 128" "length tbl = 16384"
    using assms(1) by (simp_all add: has_gpt_def gpt_geometry_def GPT_ENTRIES_def)
  have idx: "\<not> gh_entry_count h \<le> of_nat i"
    using assms(3) by (simp add: g(2) word_le_nat_alt unat_of_nat)
  have len: "length (put_bytes tbl (i * 128 + 40) (le64 new_end)) = 16384"
    using assms(3) g(3) by simp
  have e: "\<not> gpt_entry_empty (gpt_entry_at tbl (i * 128))" "\<not> new_end < ge_start_lba (gpt_entry_at tbl (i * 128))"
    using assms(3-5) by (simp_all add: gpt_entries_def not_less)
  show ?thesis
    unfolding canboot_part_resize_def option.case
    apply (simp only: gpt_writable not_True_eq_False if_False)
    apply (rule runs_bnd, rule detect_runs [OF assms(1)])
    unfolding part_scheme.case
    apply (rule runs_bnd, rule read_header_runs [OF assms(1)])
    unfolding if_not_P [OF idx]
    apply (rule runs_bnd, rule read_table_runs [OF assms(1, 2)])
    unfolding gpt_offset_entry [OF g(1) assms(3)] option.case Let_def if_not_P [OF e(1)] if_not_P [OF e(2)]
      table_sectors_32
    by (rule write_pair_runs [OF g(1) len])
qed

text \<open>A fresh table needs 67 blocks: two of 33, and the protective MBR.\<close>

lemma fresh_geometry:
  assumes "67 \<le> unat (block_count d)"
  shows "gpt_geometry d (fresh_gpt_header d)"
proof -
  have "unat (block_count d - 1) = unat (block_count d) - 1"
    using assms by (subst unat_sub_no_wrap) (simp_all add: word_le_nat_alt)
  with assms show ?thesis
    by (simp add: gpt_geometry_def fresh_gpt_header_def Let_def header_ok_def GPT_HDR_LBA_def GPT_TBL_LBA_def)
qed

lemma length_protective_mbr: "length (protective_mbr n) = 512"
  by (simp add: protective_mbr_def)

lemma init_runs:
  assumes "67 \<le> unat (block_count d)"
  shows "runs (\<lambda>s. ok s \<and> blk s = B) (canboot_part_init_gpt (Some d)) ()
    (\<lambda>s. ok s \<and> paired d (fresh_gpt_header d) (replicate 16384 0)
       (B(0 := protective_mbr (block_count d))) (blk s))"
proof -
  have big: "\<not> block_count d < 64" using assms by (simp add: word_less_nat_alt)
  have mbr: "runs (\<lambda>s. ok s \<and> blk s = B) (write_lba d 0 (protective_mbr (block_count d)) 1) ()
      (\<lambda>s. ok s \<and> blk s = B(0 := protective_mbr (block_count d)))"
    using write_lba_runs [of 1 0 "protective_mbr (block_count d)" B] assms
    by (simp add: length_protective_mbr)
  show ?thesis
    unfolding canboot_part_init_gpt_def option.case if_not_P [OF big]
    apply (simp only: gpt_writable not_True_eq_False if_False gpt_block_size refl table_sectors_32 table_bytes)
    apply (rule runs_bnd, rule mbr)
    apply (rule write_pair_runs [OF fresh_geometry [OF assms]], simp)
    done
qed

lemma header_refused:
  assumes "1 < unat (block_count d)" and "gh_signature (gpt_header_of (B 1)) \<noteq> GPT_SIG \<or>
      (gh_header_size (gpt_header_of (B 1)) = 92 \<and>
       crc32_buf (take 92 (put_bytes (B 1) 16 (le32 0))) \<noteq> gh_header_crc32 (gpt_header_of (B 1)))"
  shows "fails (\<lambda>s. ok s \<and> blk s = B) (read_gpt_header d) (\<lambda>s. ok s \<and> blk s = B)"
proof -
  have read: "runs (\<lambda>s. ok s \<and> blk s = B) (read_lba d GPT_HDR_LBA 1) (B 1) (\<lambda>s. ok s \<and> blk s = B)"
    using read_lba_runs [of 1 GPT_HDR_LBA B] assms(1) by (simp add: GPT_HDR_LBA_def)
  have "\<not> 512 < block_size d" by (simp add: gpt_block_size)
  then show ?thesis
    unfolding read_gpt_header_def
    apply (simp only: if_False)
    apply (rule fails_bnd, rule read)
    using assms(2) by (auto simp: Let_def fails_err)
qed

lemma detect_none_runs:
  assumes "1 < unat (block_count d)" and "gh_signature (gpt_header_of (B 1)) \<noteq> GPT_SIG"
    and "get_le16 (B 0) 510 \<noteq> MBR_SIG" and "length (B 0) = 512"
  shows "runs (\<lambda>s. ok s \<and> blk s = B) (canboot_part_detect (Some d)) CANBOOT_PART_SCHEME_NONE
    (\<lambda>s. ok s \<and> blk s = B)"
proof -
  have "runs (\<lambda>s. ok s \<and> blk s = B) (read_lba d 0 1) (B 0) (\<lambda>s. ok s \<and> blk s = B)"
    using read_lba_runs [of 1 0 B] assms(1) by simp
  moreover have "runs (\<lambda>s. ok s \<and> blk s = B) (if 512 < length (B 0) then no_return else ret (B 0)) (B 0)
      (\<lambda>s. ok s \<and> blk s = B)"
    using assms(4) by (simp add: runs_ret)
  ultimately have sector0: "runs (\<lambda>s. ok s \<and> blk s = B) (read_sector0 d) (B 0) (\<lambda>s. ok s \<and> blk s = B)"
    unfolding read_sector0_def by (rule runs_bnd)
  show ?thesis
    unfolding canboot_part_detect_def option.case
    apply (rule runs_bnd, rule runs_attempt_Err, rule header_refused)
      apply (rule assms(1))
     apply (rule disjI1, rule assms(2))
    unfolding rc.case
    apply (rule runs_bnd, rule runs_attempt, rule sector0)
    unfolding rc.case if_P [OF assms(3)] by (rule runs_ret)
qed

end

lemma gpt_entries_zero: "gpt_entries (replicate 16384 0) = replicate 128 zero_entry"
proof -
  have zero: "byte_at (replicate n 0) k = 0" for n k by (simp add: byte_at_def)
  then have "gpt_entry_at (replicate 16384 0) o0 = zero_entry" for o0
    by (simp add: gpt_entry_at_def zero_entry_def get_le64_def get_le32_def get_le16_def map_replicate_const)
  then show ?thesis by (simp add: gpt_entries_def map_replicate_const)
qed

lemma first_empty_zero: "first_empty (replicate 128 zero_entry) = Some 0"
  by (simp add: first_empty_def upt_conv_Cons)

lemma first_empty_lt: "first_empty (gpt_entries tbl) = Some i \<Longrightarrow> i < 128"
  by (auto simp: first_empty_def gpt_entries_def find_Some_iff)

lemma listed_first: "\<not> gpt_entry_empty e \<Longrightarrow> listed ((replicate (Suc n) zero_entry)[0 := e]) = [gpt_partition e]"
  by (simp add: listed_def)

lemma listed_zero: "listed (replicate n zero_entry) = []"
  by (simp add: listed_def)

text \<open>A header sector with one byte changed, other than in the size field.\<close>

lemma header_byte_changed:
  assumes "header_ok h" and "seal_header h = h" and "p < 92" and "p < 12 \<or> 16 \<le> p"
    and "b \<noteq> header_sector h ! p"
  defines "buf \<equiv> (header_sector h)[p := b]"
  shows "gh_signature (gpt_header_of buf) \<noteq> GPT_SIG \<or>
    (gh_header_size (gpt_header_of buf) = 92 \<and>
     crc32_buf (take 92 (put_bytes buf 16 (le32 0))) \<noteq> gh_header_crc32 (gpt_header_of buf))"
proof (cases "p < 8")
  case True
  have "le64 (get_le64 buf 0) \<noteq> le64 (get_le64 (header_sector h) 0)"
  proof
    assume "le64 (get_le64 buf 0) = le64 (get_le64 (header_sector h) 0)"
    then have "take 8 buf ! p = take 8 (header_sector h) ! p"
      using assms(1) by (simp add: le64_get_le64 buf_def)
    with True assms(1, 5) show False by (simp add: buf_def)
  qed
  then have "gh_signature (gpt_header_of buf) \<noteq> gh_signature (gpt_header_of (header_sector h))"
    by (auto simp: gpt_header_of_def)
  then show ?thesis using assms(1) by (simp add: gpt_header_of_sector header_ok_def)
next
  case False
  let ?s = "header_sector h"
  have len: "length ?s = 512" using assms(1) by simp
  have put: "buf = put_bytes ?s p [b]"
    using assms(3) len by (simp add: buf_def put_bytes_def upd_conv_take_nth_drop)
  have size: "gh_header_size (gpt_header_of buf) = 92"
  proof -
    have "get_le32 buf 12 = get_le32 ?s 12"
      unfolding put using assms(3, 4) len by (intro get_le32_put_other) auto
    then show ?thesis
      using arg_cong [OF gpt_header_of_sector [OF assms(1)], of gh_header_size] assms(1)
      by (simp add: gpt_header_of_def header_ok_def)
  qed
  have crc: "crc32_buf (take 92 (put_bytes ?s 16 (le32 0))) = get_le32 ?s 16"
    using sealed_crc [OF assms(1)] arg_cong [OF gpt_header_of_sector [OF assms(1)], of gh_header_crc32]
    by (simp add: assms(2) gpt_header_of_def)
  have "crc32_buf (take 92 (put_bytes buf 16 (le32 0))) \<noteq> get_le32 buf 16"
  proof (cases "16 \<le> p \<and> p < 20")
    case True
    then have "put_bytes buf 16 (le32 0) = put_bytes ?s 16 (le32 0)"
      by (simp add: put_bytes_def buf_def)
    moreover have "get_le32 buf 16 \<noteq> get_le32 ?s 16"
    proof
      assume "get_le32 buf 16 = get_le32 ?s 16"
      then have "take 4 (drop 16 buf) ! (p - 16) = take 4 (drop 16 ?s) ! (p - 16)"
        using len le32_get_le32 [of 16 buf] le32_get_le32 [of 16 ?s] by (simp add: buf_def)
      moreover obtain k where "p = 16 + k" using True le_Suc_ex by blast
      ultimately show False using True len assms(5) by (simp add: buf_def)
    qed
    ultimately show ?thesis using crc by simp
  next
    case other: False
    let ?z = "take 92 (put_bytes ?s 16 (le32 0))"
    have "get_le32 buf 16 = get_le32 ?s 16"
      unfolding put using other assms(3) len by (intro get_le32_put_other) auto
    moreover have "take 92 (put_bytes buf 16 (le32 0)) = ?z[p := b]"
      using other assms(3) len
      by (intro nth_equalityI) (auto simp: put_bytes_def buf_def nth_list_update nth_append)
    moreover have "b \<noteq> ?z ! p"
      using other assms(3, 5) len by (auto simp: put_bytes_def nth_append)
    ultimately show ?thesis using crc crc32_update [of p ?z b] assms(3) len by simp
  qed
  then show ?thesis using size by (simp add: gpt_header_of_def)
qed

end
