(* ===== verification/Gpt_Properties.thy ===== *)
theory Gpt_Properties
  imports Gpt_Ops Fat32_Stick
begin

text \<open>
  The properties of the partition code, on any disk that keeps the contract \<open>gpt_disk\<close>, and their
  instances on the USB stick.
\<close>

interpretation stick_gpt: gpt_disk stick_disk "usb_blk stick_dev" "usb_ok stick_idle" "2 ^ 32"
proof -
  have "block_device stick_disk (usb_blk stick_dev) (usb_ok stick_idle) (2 ^ 32)"
    unfolding stick_disk_def by (rule stick.usb.block_device_axioms)
  moreover have "gpt_disk_axioms stick_disk (2 ^ 32)"
    by (rule gpt_disk_axioms.intro) (simp_all add: stick_disk_def usb_disk_def stick_msc_def)
  ultimately show "gpt_disk stick_disk (usb_blk stick_dev) (usb_ok stick_idle) (2 ^ 32)"
    by (rule gpt_disk.intro)
qed

definition blank_image :: "bytes list" where
  "blank_image = replicate 128 (replicate 512 0)"

lemma blank_ok: "usb_ok stick_idle (stick_state blank_image)"
  by (simp add: usb_ok_def stick_idle_def stick_state_def blank_image_def list_all_iff)

lemma stick_blocks: "block_count stick_disk = 128"
  by (simp add: stick_disk_def usb_disk_def stick_msc_def)

lemma stick_with_gpt:
  obtains s h where "usb_ok stick_idle s" and "has_gpt stick_disk (usb_blk stick_dev s) h (replicate 16384 0)"
    and "unat (gh_table_lba h) = 2" and "unat (gh_backup_lba h) = 127" and "gh_first_usable h = 34" and "gh_last_usable h = 94"
proof -
  have "67 \<le> unat (block_count stick_disk)" by (simp add: stick_blocks)
  from runsE [OF stick_gpt.init_runs [OF this], of "stick_state blank_image"] blank_ok
  obtain s where "usb_ok stick_idle s" "paired stick_disk (fresh_gpt_header stick_disk) (replicate 16384 0)
      ((usb_blk stick_dev (stick_state blank_image))(0 := protective_mbr (block_count stick_disk)))
      (usb_blk stick_dev s)" by auto
  then show ?thesis
    by (intro that [of s "retable (fresh_gpt_header stick_disk) (replicate 16384 0)"])
      (simp_all add: paired_def fresh_gpt_header_def Let_def stick_blocks GPT_TBL_LBA_def retable_def seal_header_def
        table_sectors_def GPT_TBL_BYTES_def stick_disk_def usb_disk_def stick_msc_def)
qed



text \<open>\<open>canboot_part_create\<close> does not look at the type, nor at the other partitions, nor at the size of the disk:
  on a valid table with a free slot it stores any range that does not end before it starts, as Basic Data.\<close>

lemma create_any_range:
  fixes name :: "bytes option"
  assumes "gpt_disk d blk ok max_req" and "has_gpt d (blk s) h tbl" and "ok s"
    and "start_lba \<le> end_lba" and "first_empty (gpt_entries tbl) = Some i"
    and "length tbl0 = 16384" and "length tbl1 = 16384"
  defines "es \<equiv> (gpt_entries tbl)[i := new_gpt_entry i start_lba end_lba name]"
  shows "\<exists>s1 h1 tbl'. canboot_part_create (Some d) tbl0 start_lba end_lba ty name s = Some (Ok i, s1) \<and> ok s1 \<and>
    has_gpt d (blk s1) h1 tbl' \<and> has_backup (blk s1) h1 tbl' \<and> gpt_entries tbl' = es \<and>
    (\<exists>s2. canboot_part_list (Some d) tbl1 mx s1 = Some (Ok (take (unat mx) (listed es)), s2)) \<and>
    (\<forall>j. \<not> gpt_area h j \<longrightarrow> blk s1 j = blk s j)"
proof -
  let ?t = "put_bytes tbl (i * 128) (gpt_entry_bytes (new_gpt_entry i start_lba end_lba name))"
  from runsE [OF gpt_disk.create_runs [OF assms(1, 2, 6, 4, 5)], of s] assms(3)
  obtain s1 where s1: "canboot_part_create (Some d) tbl0 start_lba end_lba ty name s = Some (Ok i, s1)" "ok s1"
    and p: "paired d h ?t (blk s) (blk s1)" by blast
  from p have h: "has_gpt d (blk s1) (retable h ?t) ?t" "has_backup (blk s1) (retable h ?t) ?t"
    by (simp_all add: paired_def)
  have es: "gpt_entries ?t = es"
    unfolding es_def using assms(2) first_empty_lt [OF assms(5)]
    by (intro gpt_entries_put) (simp_all add: has_gpt_def)
  from runsE [OF gpt_disk.list_runs [OF assms(1) h(1) assms(7)], of s1 mx] s1(2)
  have "\<exists>s2. canboot_part_list (Some d) tbl1 mx s1 = Some (Ok (take (unat mx) (listed es)), s2)"
    unfolding es by blast
  moreover have "\<forall>j. \<not> gpt_area h j \<longrightarrow> blk s1 j = blk s j" using p by (simp add: paired_def)
  ultimately show ?thesis using s1 h es by blast
qed

text \<open>What a caller may ask for: a range of usable blocks that no partition of the listing touches.\<close>

definition separate :: "canboot_partition \<Rightarrow> canboot_partition \<Rightarrow> bool" where
  "separate p q \<longleftrightarrow> pt_end_lba p < pt_start_lba q \<or> pt_end_lba q < pt_start_lba p"

definition usable :: "gpt_header \<Rightarrow> canboot_partition \<Rightarrow> bool" where
  "usable h p \<longleftrightarrow> gh_first_usable h \<le> pt_start_lba p \<and> pt_start_lba p \<le> pt_end_lba p \<and> pt_end_lba p \<le> gh_last_usable h"

definition well_partitioned :: "gpt_header \<Rightarrow> canboot_partition list \<Rightarrow> bool" where
  "well_partitioned h ps \<longleftrightarrow> list_all (usable h) ps \<and> sorted_wrt separate ps"

text \<open>The partition asked for, with the type GUID EBD0A0A2-B9E5-4433-87C0-68B6B72699C7 (Basic Data).\<close>

definition requested :: "u64 \<Rightarrow> u64 \<Rightarrow> bytes option \<Rightarrow> canboot_partition" where
  "requested start_lba end_lba name = \<lparr>
     pt_start_lba = start_lba, pt_end_lba = end_lba, pt_size_lba = end_lba - start_lba + 1, pt_type_mbr = 0,
     pt_type_gpt = [0xA2, 0xA0, 0xD0, 0xEB, 0xE5, 0xB9, 0x33, 0x44, 0x87, 0xC0, 0x68, 0xB6, 0xB7, 0x26, 0x99, 0xC7],
     pt_name = (case name of None \<Rightarrow> [] | Some nm \<Rightarrow> map (\<lambda>c. if c < 0x80 then c else 0x3F) (take 35 nm)),
     pt_bootable_mbr = 0, pt_scheme = CANBOOT_PART_SCHEME_GPT \<rparr>"

lemma listed_insert:
  assumes "i < length es" "gpt_entry_empty (es ! i)" "\<not> gpt_entry_empty e"
  obtains k where "listed (es[i := e]) = take k (listed es) @ gpt_partition e # drop k (listed es)"
proof
  let ?a = "listed (take i es)" and ?b = "listed (drop (Suc i) es)"
  have "listed es = ?a @ ?b"
    using assms(1, 2) id_take_nth_drop [OF assms(1)] unfolding listed_def
    by (metis (no_types, lifting) append_Nil2 filter.simps(2) filter_append map_append)
  moreover have "listed (es[i := e]) = ?a @ gpt_partition e # ?b"
    using assms(1, 3) by (simp add: upd_conv_take_nth_drop listed_def)
  ultimately show "listed (es[i := e]) = take (length ?a) (listed es) @ gpt_partition e # drop (length ?a) (listed es)"
    by simp
qed

lemma well_partitioned_insert:
  assumes "well_partitioned h ps" "usable h p" "list_all (separate p) ps"
  shows "well_partitioned h (take k ps @ p # drop k ps)"
proof -
  have sym: "separate q p" if "q \<in> set ps" for q
    using assms(3) that by (auto simp: list_all_iff separate_def)
  have "sorted_wrt separate (take k ps @ drop k ps)" using assms(1) by (simp add: well_partitioned_def)
  note parts = this [unfolded sorted_wrt_append]
  have "sorted_wrt separate (take k ps @ p # drop k ps)"
    using parts assms(3) sym by (auto simp: sorted_wrt_append list_all_iff dest: in_set_takeD in_set_dropD)
  then show ?thesis
    using assms(1, 2) by (auto simp: well_partitioned_def list_all_iff dest: in_set_takeD in_set_dropD)
qed

lemma new_entry_requested:
  assumes "\<And>nm. name = Some nm \<Longrightarrow> 0 \<notin> set nm"
  shows "gpt_partition (new_gpt_entry i start_lba end_lba name) = requested start_lba end_lba name"
proof -
  have wide: "unat (ucast c :: u16) = unat c" for c :: u8
    using take_bit_nat_eq_self [of "unat c" 16] less_trans [OF unat_u8_lt [of c], of 65536] by (simp add: unsigned_ucast_eq)
  have low: "(ucast c :: u16) < 0x80 \<longleftrightarrow> c < 0x80" "(ucast c :: u16) = 0 \<longleftrightarrow> c = 0" for c :: u8
    by (simp_all add: word_less_nat_alt word_unat_eq_iff wide)
  have narrow: "ucast (ucast c :: u16) = c" for c :: u8
    by (rule bit_word_eqI) (auto simp: bit_simps)
  have names: "utf16le_to_ascii (map ucast xs @ replicate (36 - length xs) 0) 37 = map (\<lambda>c. if c < 0x80 then c else 0x3F) xs"
    if "0 \<notin> set xs" "length xs \<le> 35" for xs :: bytes
  proof -
    have "takeWhile (\<lambda>c. c \<noteq> 0) (map ucast xs @ replicate (36 - length xs) (0 :: u16)) = map ucast xs"
      using that by (subst takeWhile_append2) (auto simp: low Suc_diff_le takeWhile_replicate)
    then show ?thesis using that(2) by (simp add: utf16le_to_ascii_def low narrow)
  qed
  have "utf16le_to_ascii (ge_name_utf16 (new_gpt_entry i start_lba end_lba name)) (CANBOOT_PART_NAME_MAX + 1) =
      pt_name (requested start_lba end_lba name)"
  proof (cases name)
    case None
    then show ?thesis
      by (simp add: new_gpt_entry_def requested_def utf16le_to_ascii_def CANBOOT_PART_NAME_MAX_def takeWhile_replicate)
  next
    case (Some nm)
    have "0 \<notin> set (take 35 nm)" using assms [OF Some] in_set_takeD by fastforce
    with names [of "take 35 nm"] Some show ?thesis by (simp add: new_gpt_entry_def requested_def CANBOOT_PART_NAME_MAX_def)
  qed
  then show ?thesis
    by (simp add: gpt_partition_def) (simp add: requested_def new_gpt_entry_def CANBOOT_GPT_TYPE_BASIC_DATA_def)
qed

text \<open>C4: On a valid table with a free slot, for a range of usable blocks that no partition touches and the default
  type, \<open>canboot_part_create\<close> returns the first free slot. The listing then has one partition more,
  Basic Data with exactly this range and name; the partitions are again usable and disjoint, the backup
  holds the same table, and no block outside the two table areas has changed.\<close>

theorem create_then_list:
  fixes name :: "bytes option"
  assumes "gpt_disk d blk ok max_req" and "has_gpt d (blk s) h tbl" and "ok s"
    and "first_empty (gpt_entries tbl) = Some i" and "length tbl0 = 16384" and "length tbl1 = 16384"
    and "\<And>nm. name = Some nm \<Longrightarrow> 0 \<notin> set nm"
    and "well_partitioned h (listed (gpt_entries tbl))"
    and "usable h (requested start_lba end_lba name)"
    and "list_all (separate (requested start_lba end_lba name)) (listed (gpt_entries tbl))"
  shows "\<exists>s1 h1 tbl' k. canboot_part_create (Some d) tbl0 start_lba end_lba 0 name s = Some (Ok i, s1) \<and> ok s1 \<and>
    has_gpt d (blk s1) h1 tbl' \<and> has_backup (blk s1) h1 tbl' \<and>
    listed (gpt_entries tbl') = take k (listed (gpt_entries tbl)) @ requested start_lba end_lba name # drop k (listed (gpt_entries tbl)) \<and>
    well_partitioned h (listed (gpt_entries tbl')) \<and>
    (\<exists>s2. canboot_part_list (Some d) tbl1 mx s1 = Some (Ok (take (unat mx) (listed (gpt_entries tbl'))), s2)) \<and>
    (\<forall>j. \<not> gpt_area h j \<longrightarrow> blk s1 j = blk s j)"
proof -
  let ?e = "new_gpt_entry i start_lba end_lba name" and ?p = "requested start_lba end_lba name"
  let ?L = "listed (gpt_entries tbl)"
  have p: "gpt_partition ?e = ?p" using assms(7) by (rule new_entry_requested)
  have "i < length (gpt_entries tbl)" "gpt_entry_empty (gpt_entries tbl ! i)"
    using assms(4) by (auto simp: first_empty_def find_Some_iff)
  from listed_insert [OF this new_entry_not_empty [of i start_lba end_lba name]]
  obtain k where k: "listed ((gpt_entries tbl)[i := ?e]) = take k ?L @ ?p # drop k ?L" unfolding p .
  have "well_partitioned h (take k ?L @ ?p # drop k ?L)" by (rule well_partitioned_insert [OF assms(8-10)])
  moreover have "start_lba \<le> end_lba" using assms(9) by (simp add: usable_def requested_def)
  from create_any_range [OF assms(1-3) this assms(4-6), of 0 name mx]
  obtain s1 h1 tbl' where "canboot_part_create (Some d) tbl0 start_lba end_lba 0 name s = Some (Ok i, s1)" "ok s1"
    "has_gpt d (blk s1) h1 tbl'" "has_backup (blk s1) h1 tbl'" "gpt_entries tbl' = (gpt_entries tbl)[i := ?e]"
    "\<exists>s2. canboot_part_list (Some d) tbl1 mx s1 = Some (Ok (take (unat mx) (listed ((gpt_entries tbl)[i := ?e]))), s2)"
    "\<forall>j. \<not> gpt_area h j \<longrightarrow> blk s1 j = blk s j" by blast
  ultimately show ?thesis using k by metis
qed

theorem create_then_list_witness:
  "\<exists>s s1 s2. usb_ok stick_idle s \<and>
     canboot_part_create (Some stick_disk) (replicate 16384 0) 34 93 0 (Some (ascii ''root'')) s = Some (Ok 0, s1) \<and>
     canboot_part_list (Some stick_disk) (replicate 16384 0) 8 s1
       = Some (Ok [requested 34 93 (Some (ascii ''root''))], s2)"
proof -
  obtain s h where s: "usb_ok stick_idle s" "has_gpt stick_disk (usb_blk stick_dev s) h (replicate 16384 0)"
    and u: "gh_first_usable h = 34" "gh_last_usable h = 94"
    by (rule stick_with_gpt)
  have first: "first_empty (gpt_entries (replicate 16384 0)) = Some 0"
    unfolding gpt_entries_zero by (rule first_empty_zero)
  have none: "listed (gpt_entries (replicate 16384 0)) = []"
    unfolding gpt_entries_zero by (rule listed_zero)
  have root: "0 \<notin> set (ascii ''root'')" by (simp add: ascii_def)
  have "usable h (requested 34 93 (Some (ascii ''root'')))" by (simp add: usable_def requested_def u)
  from create_then_list [OF stick_gpt.gpt_disk_axioms s(2, 1) first _ _ _ _ this, where mx = 8
      and ?tbl0.0 = "replicate 16384 0" and ?tbl1.0 = "replicate 16384 0"] s(1)
  show ?thesis by (auto simp: none well_partitioned_def root)
qed

text \<open>C25: \<open>canboot_part_delete\<close> clears exactly the slot it is given: every other slot, the usable
  blocks and the mirroring of the table stay as they were.\<close>

theorem delete_clears_slot:
  assumes "gpt_disk d blk ok max_req" and "has_gpt d (blk s) h tbl" and "ok s" and "i < 128"
    and "length tbl0 = 16384"
  shows "\<exists>s1 h1 tbl'. canboot_part_delete (Some d) tbl0 (of_nat i) s = Some (Ok (), s1) \<and> ok s1 \<and>
    has_gpt d (blk s1) h1 tbl' \<and> has_backup (blk s1) h1 tbl' \<and>
    gpt_entries tbl' = (gpt_entries tbl)[i := zero_entry] \<and>
    (\<forall>j. \<not> gpt_area h j \<longrightarrow> blk s1 j = blk s j)"
proof -
  let ?t = "put_bytes tbl (i * 128) (gpt_entry_bytes zero_entry)"
  from runsE [OF gpt_disk.delete_runs [OF assms(1, 2, 5, 4)], of s] assms(3)
  obtain s1 where s1: "canboot_part_delete (Some d) tbl0 (of_nat i) s = Some (Ok (), s1)" "ok s1"
    and p: "paired d h ?t (blk s) (blk s1)" by blast
  have "gpt_entries ?t = (gpt_entries tbl)[i := zero_entry]"
    using assms(2, 4) by (intro gpt_entries_put) (simp_all add: has_gpt_def)
  with s1 p show ?thesis by (auto simp: paired_def)
qed

theorem delete_clears_slot_witness:
  "\<exists>s s1. usb_ok stick_idle s \<and> canboot_part_delete (Some stick_disk) (replicate 16384 0) 5 s = Some (Ok (), s1)"
proof -
  obtain s h where s: "usb_ok stick_idle s" "has_gpt stick_disk (usb_blk stick_dev s) h (replicate 16384 0)"
    by (rule stick_with_gpt)
  from delete_clears_slot [OF stick_gpt.gpt_disk_axioms s(2, 1), of 5 "replicate 16384 0"] s(1)
  show ?thesis by auto
qed

text \<open>\<open>canboot_part_resize\<close> changes the last block of the slot it is given and nothing else of
  the table, and it checks neither the other partitions nor the usable range.\<close>

theorem resize_moves_end:
  assumes "gpt_disk d blk ok max_req" and "has_gpt d (blk s) h tbl" and "ok s" and "i < 128"
    and "\<not> gpt_entry_empty (gpt_entries tbl ! i)" and "ge_start_lba (gpt_entries tbl ! i) \<le> new_end"
    and "length tbl0 = 16384"
  shows "\<exists>s1 h1 tbl'. canboot_part_resize (Some d) tbl0 (of_nat i) new_end s = Some (Ok (), s1) \<and> ok s1 \<and>
    has_gpt d (blk s1) h1 tbl' \<and> has_backup (blk s1) h1 tbl' \<and>
    gpt_entries tbl' = (gpt_entries tbl)[i := (gpt_entries tbl ! i)\<lparr> ge_end_lba := new_end \<rparr>] \<and>
    (\<forall>j. \<not> gpt_area h j \<longrightarrow> blk s1 j = blk s j)"
proof -
  let ?t = "put_bytes tbl (i * 128 + 40) (le64 new_end)"
  from runsE [OF gpt_disk.resize_runs [OF assms(1, 2, 7, 4, 5, 6)], of s] assms(3)
  obtain s1 where s1: "canboot_part_resize (Some d) tbl0 (of_nat i) new_end s = Some (Ok (), s1)" "ok s1"
    and p: "paired d h ?t (blk s) (blk s1)" by blast
  have "gpt_entries ?t = (gpt_entries tbl)[i := (gpt_entries tbl ! i)\<lparr> ge_end_lba := new_end \<rparr>]"
    using assms(2, 4) by (intro gpt_entries_put_end) (simp_all add: has_gpt_def)
  with s1 p show ?thesis by (auto simp: paired_def)
qed

lemma stick_with_partition:
  obtains s h tbl where "usb_ok stick_idle s" and "has_gpt stick_disk (usb_blk stick_dev s) h tbl"
    and "gpt_entries tbl ! 0 = new_gpt_entry 0 34 93 None"
proof -
  let ?t = "put_bytes (replicate 16384 0) (0 * 128) (gpt_entry_bytes (new_gpt_entry 0 34 93 None))"
  obtain s h where s: "usb_ok stick_idle s" "has_gpt stick_disk (usb_blk stick_dev s) h (replicate 16384 0)"
    by (rule stick_with_gpt)
  have first: "first_empty (gpt_entries (replicate 16384 0)) = Some 0"
    unfolding gpt_entries_zero by (rule first_empty_zero)
  from runsE [OF stick_gpt.create_runs [OF s(2) _ _ first], of "replicate 16384 0" 34 93 s 0 None] s(1)
  obtain s1 where "usb_ok stick_idle s1" "paired stick_disk h ?t (usb_blk stick_dev s) (usb_blk stick_dev s1)"
    by auto
  moreover have "gpt_entries ?t = (gpt_entries (replicate 16384 0))[0 := new_gpt_entry 0 34 93 None]"
    by (rule gpt_entries_put) simp_all
  ultimately show ?thesis
    by (intro that [of s1 "retable h ?t" ?t]) (simp_all add: paired_def gpt_entries_zero)
qed

theorem resize_moves_end_witness:
  "\<exists>s s1. usb_ok stick_idle s \<and> canboot_part_resize (Some stick_disk) (replicate 16384 0) 0 200 s = Some (Ok (), s1)"
proof -
  obtain s h tbl where s: "usb_ok stick_idle s" "has_gpt stick_disk (usb_blk stick_dev s) h tbl"
    and e: "gpt_entries tbl ! 0 = new_gpt_entry 0 34 93 None" by (rule stick_with_partition)
  have "ge_start_lba (new_gpt_entry 0 34 93 None) \<le> 200" by (simp add: new_gpt_entry_def)
  with resize_moves_end [OF stick_gpt.gpt_disk_axioms s(2, 1), of 0 200 "replicate 16384 0"] s(1) e
  show ?thesis by auto
qed

text \<open>C31: A GPT header of which one byte has changed on the medium, other than in its size field, is
  refused by \<open>read_gpt_header\<close>.\<close>

theorem damaged_header_refused:
  assumes "gpt_disk d blk ok max_req" and "has_gpt d B h tbl" and "p < 92" and "p < 12 \<or> 16 \<le> p"
    and "b \<noteq> B 1 ! p" and "ok s" and "blk s = B(1 := (B 1)[p := b])"
  shows "\<exists>s'. read_gpt_header d s = Some (Err, s') \<and> blk s' = blk s"
proof -
  have h: "header_ok h" "seal_header h = h" "B 1 = header_sector h" "1 < unat (block_count d)"
    using assms(2) by (auto simp: has_gpt_def gpt_geometry_def)
  have "b \<noteq> header_sector h ! p" using assms(5) h(3) by simp
  from header_byte_changed [OF h(1, 2) assms(3, 4) this]
  have "fails (\<lambda>s. ok s \<and> blk s = B(1 := (B 1)[p := b])) (read_gpt_header d)
      (\<lambda>s. ok s \<and> blk s = B(1 := (B 1)[p := b]))"
    using gpt_disk.header_refused [OF assms(1) h(4), of "B(1 := (B 1)[p := b])"]
    unfolding h(3) fun_upd_same by blast
  from failsE [OF this, of s] assms(6, 7) show ?thesis by metis
qed

theorem damaged_header_refused_witness:
  "\<exists>s s'. usb_ok stick_idle s \<and> read_gpt_header stick_disk s = Some (Err, s')"
proof -
  obtain s h where s: "usb_ok stick_idle s" "has_gpt stick_disk (usb_blk stick_dev s) h (replicate 16384 0)"
    by (rule stick_with_gpt)
  let ?B = "usb_blk stick_dev s" and ?hw = "hw s"
  let ?b = "?B 1 ! 56 + 1"
  let ?s = "s\<lparr> hw := ?hw\<lparr> st_blocks := (st_blocks ?hw)[1 := (?B 1)[56 := ?b]] \<rparr> \<rparr>"
  have len: "length (st_blocks ?hw) = 128" "list_all (\<lambda>b. length b = 512) (st_blocks ?hw)"
    using s(1) by (simp_all add: usb_ok_def stick_idle_def)
  have "length (?B 1) = 512" using len by (simp add: usb_blk_def stick_dev_def list_all_length)
  then have "usb_ok stick_idle ?s"
    using s(1) by (auto simp: usb_ok_def stick_idle_def list_all_length nth_list_update)
  moreover have "usb_blk stick_dev ?s = ?B(1 := (?B 1)[56 := ?b])"
    using len by (auto simp: usb_blk_def stick_dev_def fun_eq_iff nth_list_update)
  ultimately show ?thesis
    using damaged_header_refused [OF stick_gpt.gpt_disk_axioms s(2), of 56 ?b ?s] by auto
qed

end
