(* ===== verification/Sched.thy ===== *)
theory Sched
  imports Canboot_Prelude
begin

text \<open>
  The thread scheduler (\<open>rt/sched/sched.c\<close> with \<open>sched.h\<close>, \<open>percpu.h\<close>, \<open>waitq.h\<close>) and the pthread
  shim over it (\<open>rt/pthread_stub/pthread.c\<close>), on up to eight CPUs.

  Everything the C code does between \<open>canboot_sched_lock\<close> and the matching unlock, or the context
  switch, is one step: the global lock \<open>g_sched\<close> covers all of it. A context switch keeps the lock,
  and the thread that resumes continues with it, so the saved context of a thread is what it still
  has to do: a list of \<open>act\<close>s, one per function in progress, the innermost first. A blocking loop
  \<open>while (cond) canboot_sched_block_on(wq)\<close> leaves its act in place and tests its condition
  again when the thread resumes, as the C loop does. The flags word saved by
  \<open>canboot_sched_lock\<close> is a local variable of the caller and so belongs to the thread.
\<close>

section \<open>Threads, CPUs and queues\<close>

text \<open>A \<open>struct canboot_thread *\<close>: a slot of \<open>g_threads\<close> or of \<open>g_idle\<close>.\<close>

datatype tid = Pool nat | Idle nat

datatype canboot_thread_state =
    CANBOOT_TH_FREE | CANBOOT_TH_NEW | CANBOOT_TH_RUNNABLE | CANBOOT_TH_RUNNING
  | CANBOOT_TH_BLOCKED | CANBOOT_TH_EXITED

definition CANBOOT_THREAD_POOL :: nat where "CANBOOT_THREAD_POOL = 16"
definition CANBOOT_THREAD_STACK :: nat where "CANBOOT_THREAD_STACK = 256 * 1024"
definition CANBOOT_IDLE_STACK :: nat where "CANBOOT_IDLE_STACK = 8 * 1024"
definition CANBOOT_THREAD_TLS_SIZE :: nat where "CANBOOT_THREAD_TLS_SIZE = 2048"
definition CANBOOT_NR_CPUS :: nat where "CANBOOT_NR_CPUS = 8"

record canboot_wait_queue =
  wq_head :: "tid option"
  wq_tail :: "tid option"

definition empty_wq :: canboot_wait_queue where
  "empty_wq = \<lparr> wq_head = None, wq_tail = None \<rparr>"

text \<open>The entry function of a thread: \<open>gil_thread_entry\<close> of the pthread shim around a user function,
  a bare user function, or the idle loop.\<close>

datatype entry_fn = Gil_thread_entry u64 | Raw_entry u64 | Idle_entry | No_entry

text \<open>What a thread still has to do. \<open>User vm\<close> is code outside the scheduler, \<open>vm\<close> when it is code
  of the interpreter that needs the GIL.\<close>

datatype act =
    Trampoline
  | User bool
  | Unlock
  | Iret
  | Dead
  | Idle_loop
  | Yield
  | Exit
  | Create entry_fn u64
  | Detach tid
  | Join tid
  | Gil_acquire
  | Gil_release
  | Pthread_join tid
  | Mutex_init nat
  | Mutex_trylock nat
  | Mutex_lock nat
  | Mutex_unlock nat
  | Cond_init nat
  | Cond_wait nat nat
  | Cond_park nat nat
  | Cond_signal nat
  | Cond_broadcast nat
  | Once nat bool
  | Once_wait nat
  | Once_done nat
  | Preempt_disable
  | Preempt_enable
  | Set_preemption bool
  | Arm_irqs

text \<open>The thread-local storage area a thread pointer leads to.\<close>

datatype tls_area = Boot_tls | Thread_tls nat

text \<open>\<open>th_todo\<close> stands for \<open>ctx\<close>, \<open>th_flags\<close> for the saved interrupt flag, \<open>th_rc\<close> and \<open>th_out\<close>
  for what the last call returned
  to the thread, and \<open>th_ret\<close> for what its entry function returned.\<close>

record canboot_thread =
  th_todo :: "act list"
  th_state :: canboot_thread_state
  th_entry :: entry_fn
  th_arg :: u64
  th_retval :: u64
  th_id :: int
  th_detached :: bool
  q_next :: "tid option"
  join_q :: canboot_wait_queue
  th_cpu :: "nat option"
  th_stack :: "nat option"
  stack_size :: nat
  tls_base :: "tls_area option"
  th_flags :: bool
  th_rc :: int
  th_out :: u64
  th_ret :: u64

definition zero_thread :: canboot_thread where
  "zero_thread = \<lparr> th_todo = [], th_state = CANBOOT_TH_FREE, th_entry = No_entry, th_arg = 0,
     th_retval = 0, th_id = 0, th_detached = False, q_next = None, join_q = empty_wq, th_cpu = None,
     th_stack = None, stack_size = 0, tls_base = None, th_flags = False, th_rc = 0, th_out = 0, th_ret = 0 \<rparr>"

text \<open>\<open>irq_on\<close> is the CPU's interrupt flag and \<open>fs_base\<close> its thread-pointer register.\<close>

record canboot_cpu =
  cpu_current :: "tid option"
  cpu_idle :: "tid option"
  preempt_count :: u32
  need_resched :: bool
  cpu_id :: int
  online :: bool
  irq_on :: bool
  fs_base :: "tls_area option"

record pthread_mutex =
  m_locked :: bool
  m_owner :: int
  m_waiters :: canboot_wait_queue

record pthread_cond =
  c_waiters :: canboot_wait_queue
  c_generation :: u32

record pthread_once =
  o_state :: int
  o_waiters :: canboot_wait_queue

record sched =
  thr :: "tid \<Rightarrow> canboot_thread"
  cpus :: "nat \<Rightarrow> canboot_cpu"
  g_sched :: "nat option"
  g_preempt_enabled :: bool
  g_irqs_armed :: bool
  g_ticks :: u64
  g_runq :: canboot_wait_queue
  g_gil_wq :: canboot_wait_queue
  g_gil_owner :: "tid option"
  g_gil_locked :: bool
  g_thread_tls :: "nat \<Rightarrow> bytes"
  mutexes :: "nat \<Rightarrow> pthread_mutex"
  conds :: "nat \<Rightarrow> pthread_cond"
  onces :: "nat \<Rightarrow> pthread_once"

definition upd_thr :: "tid \<Rightarrow> (canboot_thread \<Rightarrow> canboot_thread) \<Rightarrow> sched \<Rightarrow> sched" where
  "upd_thr t f s = s\<lparr> thr := (thr s)(t := f (thr s t)) \<rparr>"

definition upd_cpu :: "nat \<Rightarrow> (canboot_cpu \<Rightarrow> canboot_cpu) \<Rightarrow> sched \<Rightarrow> sched" where
  "upd_cpu c f s = s\<lparr> cpus := (cpus s)(c := f (cpus s c)) \<rparr>"

definition set_state :: "tid \<Rightarrow> canboot_thread_state \<Rightarrow> sched \<Rightarrow> sched" where
  "set_state t st = upd_thr t (\<lambda>x. x\<lparr> th_state := st \<rparr>)"

definition set_todo :: "tid \<Rightarrow> act list \<Rightarrow> sched \<Rightarrow> sched" where
  "set_todo t as = upd_thr t (\<lambda>x. x\<lparr> th_todo := as \<rparr>)"

definition set_rc :: "tid \<Rightarrow> int \<Rightarrow> sched \<Rightarrow> sched" where
  "set_rc t v = upd_thr t (\<lambda>x. x\<lparr> th_rc := v \<rparr>)"

section \<open>Intrusive queues\<close>

text \<open>The places a queue head lives in.\<close>

datatype qid = Q_run | Q_gil | Q_join tid | Q_mutex nat | Q_cond nat | Q_once nat

fun get_q :: "qid \<Rightarrow> sched \<Rightarrow> canboot_wait_queue" where
  "get_q Q_run s = g_runq s"
| "get_q Q_gil s = g_gil_wq s"
| "get_q (Q_join t) s = join_q (thr s t)"
| "get_q (Q_mutex m) s = m_waiters (mutexes s m)"
| "get_q (Q_cond v) s = c_waiters (conds s v)"
| "get_q (Q_once v) s = o_waiters (onces s v)"

fun put_q :: "qid \<Rightarrow> canboot_wait_queue \<Rightarrow> sched \<Rightarrow> sched" where
  "put_q Q_run w s = s\<lparr> g_runq := w \<rparr>"
| "put_q Q_gil w s = s\<lparr> g_gil_wq := w \<rparr>"
| "put_q (Q_join t) w s = upd_thr t (\<lambda>x. x\<lparr> join_q := w \<rparr>) s"
| "put_q (Q_mutex m) w s = s\<lparr> mutexes := (mutexes s)(m := (mutexes s m)\<lparr> m_waiters := w \<rparr>) \<rparr>"
| "put_q (Q_cond v) w s = s\<lparr> conds := (conds s)(v := (conds s v)\<lparr> c_waiters := w \<rparr>) \<rparr>"
| "put_q (Q_once v) w s = s\<lparr> onces := (onces s)(v := (onces s v)\<lparr> o_waiters := w \<rparr>) \<rparr>"

definition set_next :: "tid \<Rightarrow> tid option \<Rightarrow> sched \<Rightarrow> sched" where
  "set_next t n = upd_thr t (\<lambda>x. x\<lparr> q_next := n \<rparr>)"

definition wq_push :: "qid \<Rightarrow> tid \<Rightarrow> sched \<Rightarrow> sched" where
  "wq_push q t s =
    (let s1 = set_next t None s; w = get_q q s1 in
     case wq_tail w of
       Some l \<Rightarrow> put_q q (w\<lparr> wq_tail := Some t \<rparr>) (set_next l (Some t) s1)
     | None \<Rightarrow> put_q q \<lparr> wq_head = Some t, wq_tail = Some t \<rparr> s1)"

definition wq_pop :: "qid \<Rightarrow> sched \<Rightarrow> tid option \<times> sched" where
  "wq_pop q s =
    (let w = get_q q s in
     case wq_head w of None \<Rightarrow> (None, s)
     | Some t \<Rightarrow>
         let h = q_next (thr s t);
             w' = \<lparr> wq_head = h, wq_tail = (if h = None then None else wq_tail w) \<rparr> in
         (Some t, set_next t None (put_q q w' s)))"

text \<open>\<open>g_runq\<close> has the same two operations.\<close>

definition rq_push :: "tid \<Rightarrow> sched \<Rightarrow> sched" where
  "rq_push t s = wq_push Q_run t s"

definition rq_pop :: "sched \<Rightarrow> tid option \<times> sched" where
  "rq_pop s = wq_pop Q_run s"

section \<open>Core switch, lock and wait primitives\<close>

definition reschedule :: "nat \<Rightarrow> sched \<Rightarrow> sched" where
  "reschedule c s =
    (let prev = cpu_current (cpus s c);
         (popped, s1) = rq_pop s;
         next = (case popped of Some t \<Rightarrow> Some t | None \<Rightarrow> cpu_idle (cpus s1 c)) in
     case next of None \<Rightarrow> s1
     | Some n \<Rightarrow>
         if next = prev then set_state n CANBOOT_TH_RUNNING s1
         else
           let s2 = upd_thr n (\<lambda>x. x\<lparr> th_state := CANBOOT_TH_RUNNING, th_cpu := Some c \<rparr>) s1;
               s3 = upd_cpu c (\<lambda>k. k\<lparr> cpu_current := Some n \<rparr>) s2 in
           if tls_base (thr s3 n) \<noteq> None
           then upd_cpu c (\<lambda>k. k\<lparr> fs_base := tls_base (thr s3 n) \<rparr>) s3 else s3)"

definition canboot_sched_lock :: "nat \<Rightarrow> tid \<Rightarrow> sched \<Rightarrow> sched" where
  "canboot_sched_lock c self s =
     upd_cpu c (\<lambda>k. k\<lparr> irq_on := False \<rparr>)
       (upd_thr self (\<lambda>x. x\<lparr> th_flags := irq_on (cpus s c) \<rparr>) s)\<lparr> g_sched := Some c \<rparr>"

definition canboot_sched_unlock :: "nat \<Rightarrow> tid \<Rightarrow> sched \<Rightarrow> sched" where
  "canboot_sched_unlock c self s =
     upd_cpu c (\<lambda>k. k\<lparr> irq_on := th_flags (thr s self) \<rparr>) (s\<lparr> g_sched := None \<rparr>)"

definition canboot_sched_block_on :: "nat \<Rightarrow> tid \<Rightarrow> qid \<Rightarrow> sched \<Rightarrow> sched" where
  "canboot_sched_block_on c self q s = reschedule c (wq_push q self (set_state self CANBOOT_TH_BLOCKED s))"

definition make_runnable :: "tid \<Rightarrow> sched \<Rightarrow> sched" where
  "make_runnable t s = rq_push t (set_state t CANBOOT_TH_RUNNABLE s)"

definition canboot_sched_wake_one :: "qid \<Rightarrow> sched \<Rightarrow> sched" where
  "canboot_sched_wake_one q s =
    (case wq_pop q s of (None, s1) \<Rightarrow> s1 | (Some t, s1) \<Rightarrow> make_runnable t s1)"

partial_function (option) canboot_sched_wake_all :: "qid \<Rightarrow> sched \<Rightarrow> sched option" where
  "canboot_sched_wake_all q s =
    (case wq_pop q s of (popped, s1) \<Rightarrow>
     case popped of None \<Rightarrow> Some s1
     | Some t \<Rightarrow> canboot_sched_wake_all q (make_runnable t s1))"

text \<open>The beginning and the end of a function that takes the lock: a thread that resumes inside a
  blocking loop holds it already.\<close>

definition enter :: "nat \<Rightarrow> tid \<Rightarrow> sched \<Rightarrow> sched" where
  "enter c self s = (if g_sched s = Some c then s else canboot_sched_lock c self s)"

definition leave :: "nat \<Rightarrow> tid \<Rightarrow> act list \<Rightarrow> sched \<Rightarrow> sched" where
  "leave c self rest s = canboot_sched_unlock c self (set_todo self rest s)"

section \<open>The VM lock\<close>

definition canboot_gil_acquire :: "nat \<Rightarrow> tid \<Rightarrow> act list \<Rightarrow> sched \<Rightarrow> sched" where
  "canboot_gil_acquire c self rest s0 =
    (let s = enter c self s0 in
     if g_gil_locked s \<and> g_gil_owner s \<noteq> Some self then canboot_sched_block_on c self Q_gil s
     else leave c self rest (s\<lparr> g_gil_locked := True, g_gil_owner := Some self \<rparr>))"

definition canboot_gil_release :: "nat \<Rightarrow> tid \<Rightarrow> act list \<Rightarrow> sched \<Rightarrow> sched" where
  "canboot_gil_release c self rest s0 =
     leave c self rest (canboot_sched_wake_one Q_gil
       ((enter c self s0)\<lparr> g_gil_locked := False, g_gil_owner := None \<rparr>))"

definition canboot_gil_owned_by_current :: "tid \<Rightarrow> sched \<Rightarrow> bool" where
  "canboot_gil_owned_by_current self s \<longleftrightarrow> g_gil_locked s \<and> g_gil_owner s = Some self"

section \<open>Yield, lifecycle and preemption\<close>

definition canboot_sched_yield :: "nat \<Rightarrow> tid \<Rightarrow> act list \<Rightarrow> sched \<Rightarrow> sched" where
  "canboot_sched_yield c self rest s0 =
    (let s = set_todo self (Unlock # rest) (enter c self s0) in
     reschedule c (if th_state (thr s self) = CANBOOT_TH_RUNNING then make_runnable self s else s))"

definition idle_entry :: "nat \<Rightarrow> tid \<Rightarrow> act list \<Rightarrow> sched \<Rightarrow> sched" where
  "idle_entry c self rest s0 = reschedule c (set_todo self (Unlock # Idle_loop # rest) (enter c self s0))"

definition canboot_thread_by_id :: "int \<Rightarrow> tid option" where
  "canboot_thread_by_id i = (if i < 0 \<or> int CANBOOT_THREAD_POOL \<le> i then None else Some (Pool (nat i)))"

text \<open>\<open>canboot_arch_ctx_switch\<close> into a fresh context returns into the trampoline.\<close>

definition arch_ctx_init :: "act list" where
  "arch_ctx_init = [Trampoline]"

definition canboot_sched_init :: "tls_area option \<Rightarrow> sched \<Rightarrow> sched" where
  "canboot_sched_init tls s =
    s\<lparr> cpus := (\<lambda>c. \<lparr> cpu_current = None, cpu_idle = None, preempt_count = 0, need_resched = False,
          cpu_id = 0, online = False, irq_on = irq_on (cpus s c), fs_base = fs_base (cpus s c) \<rparr>)
        (0 := \<lparr> cpu_current = Some (Pool 0), cpu_idle = Some (Idle 0), preempt_count = 0,
          need_resched = False, cpu_id = 0, online = True, irq_on = irq_on (cpus s 0), fs_base = tls \<rparr>),
       thr := (\<lambda>_. zero_thread)
        (Pool 0 := zero_thread\<lparr> th_todo := [User True], th_id := 0, th_state := CANBOOT_TH_RUNNING,
          th_cpu := Some 0, th_stack := None, tls_base := tls \<rparr>,
         Idle 0 := zero_thread\<lparr> th_todo := arch_ctx_init, th_id := -1, th_entry := Idle_entry,
          th_state := CANBOOT_TH_RUNNABLE, th_cpu := Some 0, th_stack := Some 0,
          stack_size := CANBOOT_IDLE_STACK, tls_base := tls \<rparr>),
       g_sched := None, g_gil_locked := True, g_gil_owner := Some (Pool 0) \<rparr>"

definition canboot_sched_ap_online :: "nat \<Rightarrow> sched \<Rightarrow> sched" where
  "canboot_sched_ap_online c s =
     upd_thr (Idle c) (\<lambda>x. x\<lparr> th_id := -1 - int c, th_state := CANBOOT_TH_RUNNING, th_cpu := Some c,
         th_stack := None, tls_base := fs_base (cpus s c), th_todo := [Idle_loop] \<rparr>)
       (upd_cpu c (\<lambda>k. k\<lparr> cpu_id := int c, online := True, cpu_idle := Some (Idle c),
         cpu_current := Some (Idle c) \<rparr>) s)"

definition canboot_thread_create ::
    "nat \<Rightarrow> tid \<Rightarrow> entry_fn \<Rightarrow> u64 \<Rightarrow> act list \<Rightarrow> sched \<Rightarrow> tid option \<times> sched" where
  "canboot_thread_create c self fn arg rest s0 =
    (let s = enter c self s0 in
     case find (\<lambda>i. th_state (thr s (Pool i)) = CANBOOT_TH_FREE) [1 ..< CANBOOT_THREAD_POOL] of
       None \<Rightarrow> (None, leave c self rest s)
     | Some i \<Rightarrow>
         let t = zero_thread\<lparr> th_id := int i, th_entry := fn, th_arg := arg,
               th_state := CANBOOT_TH_RUNNABLE, th_stack := Some i, stack_size := CANBOOT_THREAD_STACK,
               tls_base := Some (Thread_tls i), th_todo := arch_ctx_init \<rparr>;
             s1 = upd_thr (Pool i) (\<lambda>_. t) s\<lparr> g_thread_tls :=
               (g_thread_tls s)(i := replicate CANBOOT_THREAD_TLS_SIZE 0) \<rparr> in
         (Some (Pool i), leave c self rest (rq_push (Pool i) s1)))"

definition canboot_thread_detach :: "nat \<Rightarrow> tid \<Rightarrow> tid \<Rightarrow> act list \<Rightarrow> sched \<Rightarrow> sched" where
  "canboot_thread_detach c self t rest s0 =
    (let s = enter c self s0 in
     leave c self rest
       (if th_state (thr s t) = CANBOOT_TH_EXITED then set_state t CANBOOT_TH_FREE s
        else upd_thr t (\<lambda>x. x\<lparr> th_detached := True \<rparr>) s))"

definition canboot_thread_exit :: "nat \<Rightarrow> tid \<Rightarrow> sched \<Rightarrow> sched option" where
  "canboot_thread_exit c self s0 =
    (let s = upd_thr self (\<lambda>x. x\<lparr> th_retval := th_ret x \<rparr>) (enter c self s0) in
     case canboot_sched_wake_all (Q_join self) s of None \<Rightarrow> None
     | Some s1 \<Rightarrow>
         let s2 = set_state self (if th_detached (thr s1 self) \<and> 0 \<le> th_id (thr s1 self)
               then CANBOOT_TH_FREE else CANBOOT_TH_EXITED) s1 in
         Some (reschedule c (set_todo self [Dead] s2)))"

definition canboot_thread_join :: "nat \<Rightarrow> tid \<Rightarrow> tid \<Rightarrow> act list \<Rightarrow> sched \<Rightarrow> sched" where
  "canboot_thread_join c self t rest s0 =
    (let s = enter c self s0 in
     if th_state (thr s t) \<noteq> CANBOOT_TH_EXITED \<and> th_state (thr s t) \<noteq> CANBOOT_TH_FREE
     then canboot_sched_block_on c self (Q_join t) s
     else
       let s1 = upd_thr self (\<lambda>x. x\<lparr> th_out := th_retval (thr s t), th_rc := 0 \<rparr>) s;
           s2 = (if 0 \<le> th_id (thr s1 t) then set_state t CANBOOT_TH_FREE s1 else s1) in
       leave c self rest s2)"

definition canboot_preempt_disable :: "nat \<Rightarrow> sched \<Rightarrow> sched" where
  "canboot_preempt_disable c = upd_cpu c (\<lambda>k. k\<lparr> preempt_count := preempt_count k + 1 \<rparr>)"

definition canboot_preempt_enable :: "nat \<Rightarrow> tid \<Rightarrow> act list \<Rightarrow> sched \<Rightarrow> sched" where
  "canboot_preempt_enable c self rest s =
    (let s1 = upd_cpu c (\<lambda>k. if preempt_count k \<noteq> 0 then k\<lparr> preempt_count := preempt_count k - 1 \<rparr> else k) s in
     set_todo self
       (if preempt_count (cpus s1 c) = 0 \<and> need_resched (cpus s1 c) then Yield # rest else rest) s1)"

definition canboot_sched_preempt :: "nat \<Rightarrow> tid \<Rightarrow> act list \<Rightarrow> sched \<Rightarrow> sched" where
  "canboot_sched_preempt c self rest s0 =
    (let s = upd_cpu c (\<lambda>k. k\<lparr> need_resched := False \<rparr>) (enter c self s0) in
     if wq_head (g_runq s) \<noteq> None then
       let s1 = set_todo self (Unlock # rest) s in
       reschedule c (if th_state (thr s1 self) = CANBOOT_TH_RUNNING \<and> Some self \<noteq> cpu_idle (cpus s1 c)
         then make_runnable self s1 else s1)
     else leave c self rest s)"

text \<open>The timer interrupt: the gate masks interrupts, and \<open>iret\<close> restores the flag.\<close>

definition canboot_sched_on_tick :: "nat \<Rightarrow> tid \<Rightarrow> sched \<Rightarrow> sched" where
  "canboot_sched_on_tick c self s0 =
    (let s = upd_cpu c (\<lambda>k. k\<lparr> irq_on := False \<rparr>) (s0\<lparr> g_ticks := g_ticks s0 + 1 \<rparr>);
         rest = Iret # th_todo (thr s self) in
     if \<not> g_preempt_enabled s then set_todo self rest s
     else if preempt_count (cpus s c) \<noteq> 0
     then set_todo self rest (upd_cpu c (\<lambda>k. k\<lparr> need_resched := True \<rparr>) s)
     else canboot_sched_preempt c self rest s)"

text \<open>\<open>thread_trampoline\<close>, and what the entry functions do.\<close>

definition entry_code :: "entry_fn \<Rightarrow> act list" where
  "entry_code e = (case e of
     Gil_thread_entry _ \<Rightarrow> [Gil_acquire, User True, Gil_release, Exit]
   | Raw_entry _ \<Rightarrow> [User False, Exit]
   | Idle_entry \<Rightarrow> [Idle_loop]
   | No_entry \<Rightarrow> [])"

definition thread_trampoline :: "nat \<Rightarrow> tid \<Rightarrow> sched \<Rightarrow> sched" where
  "thread_trampoline c self s =
    (let s1 = s\<lparr> g_sched := None \<rparr>;
         s2 = (if g_irqs_armed s1 then upd_cpu c (\<lambda>k. k\<lparr> irq_on := True \<rparr>) s1 else s1) in
     set_todo self (entry_code (th_entry (thr s2 self))) s2)"

section \<open>The pthread shim\<close>

definition EAGAIN :: int where "EAGAIN = 11"
definition EBUSY :: int where "EBUSY = 16"
definition EINVAL :: int where "EINVAL = 22"
definition ESRCH :: int where "ESRCH = 3"

definition pthread_self :: "tid \<Rightarrow> sched \<Rightarrow> int" where
  "pthread_self self s = th_id (thr s self)"

definition upd_mutex :: "nat \<Rightarrow> (pthread_mutex \<Rightarrow> pthread_mutex) \<Rightarrow> sched \<Rightarrow> sched" where
  "upd_mutex m f s = s\<lparr> mutexes := (mutexes s)(m := f (mutexes s m)) \<rparr>"

definition upd_cond :: "nat \<Rightarrow> (pthread_cond \<Rightarrow> pthread_cond) \<Rightarrow> sched \<Rightarrow> sched" where
  "upd_cond v f s = s\<lparr> conds := (conds s)(v := f (conds s v)) \<rparr>"

definition upd_once :: "nat \<Rightarrow> (pthread_once \<Rightarrow> pthread_once) \<Rightarrow> sched \<Rightarrow> sched" where
  "upd_once v f s = s\<lparr> onces := (onces s)(v := f (onces s v)) \<rparr>"

definition pthread_create :: "nat \<Rightarrow> tid \<Rightarrow> entry_fn \<Rightarrow> u64 \<Rightarrow> act list \<Rightarrow> sched \<Rightarrow> sched" where
  "pthread_create c self fn arg rest s =
    (case canboot_thread_create c self fn arg rest s of
       (None, s1) \<Rightarrow> set_rc self EAGAIN s1
     | (Some t, s1) \<Rightarrow> upd_thr self (\<lambda>x. x\<lparr> th_rc := 0, th_out := of_int (th_id (thr s1 t)) \<rparr>) s1)"

text \<open>The GIL is dropped around the join only when the caller holds it.\<close>

definition pthread_join :: "nat \<Rightarrow> tid \<Rightarrow> tid \<Rightarrow> act list \<Rightarrow> sched \<Rightarrow> sched" where
  "pthread_join c self t rest s0 =
    (let s = enter c self s0 in
     leave c self
       ((if canboot_gil_owned_by_current self s then [Gil_release, Join t, Gil_acquire] else [Join t]) @ rest) s)"

definition pthread_mutex_init :: "nat \<Rightarrow> sched \<Rightarrow> sched" where
  "pthread_mutex_init m = upd_mutex m (\<lambda>_. \<lparr> m_locked = False, m_owner = -1, m_waiters = empty_wq \<rparr>)"

definition take_mutex :: "tid \<Rightarrow> nat \<Rightarrow> sched \<Rightarrow> sched" where
  "take_mutex self m s = upd_mutex m (\<lambda>x. x\<lparr> m_locked := True, m_owner := pthread_self self s \<rparr>) s"

definition drop_mutex :: "nat \<Rightarrow> sched \<Rightarrow> sched" where
  "drop_mutex m s = canboot_sched_wake_one (Q_mutex m) (upd_mutex m (\<lambda>x. x\<lparr> m_locked := False, m_owner := -1 \<rparr>) s)"

definition pthread_mutex_trylock :: "nat \<Rightarrow> tid \<Rightarrow> nat \<Rightarrow> act list \<Rightarrow> sched \<Rightarrow> sched" where
  "pthread_mutex_trylock c self m rest s0 =
    (let s = enter c self s0 in
     leave c self rest
       (if m_locked (mutexes s m) then set_rc self EBUSY s else set_rc self 0 (take_mutex self m s)))"

definition pthread_mutex_lock :: "nat \<Rightarrow> tid \<Rightarrow> nat \<Rightarrow> act list \<Rightarrow> sched \<Rightarrow> sched" where
  "pthread_mutex_lock c self m rest s0 =
    (let s = enter c self s0 in
     if m_locked (mutexes s m) then canboot_sched_block_on c self (Q_mutex m) s
     else leave c self rest (set_rc self 0 (take_mutex self m s)))"

definition pthread_mutex_unlock :: "nat \<Rightarrow> tid \<Rightarrow> nat \<Rightarrow> act list \<Rightarrow> sched \<Rightarrow> sched" where
  "pthread_mutex_unlock c self m rest s0 = leave c self rest (set_rc self 0 (drop_mutex m (enter c self s0)))"

definition pthread_cond_init :: "nat \<Rightarrow> sched \<Rightarrow> sched" where
  "pthread_cond_init v = upd_cond v (\<lambda>_. \<lparr> c_waiters = empty_wq, c_generation = 0 \<rparr>)"

text \<open>\<open>pthread_cond_wait\<close>: the GIL is dropped first, the mutex is released and the thread parked in
  one critical section, and then the GIL and the mutex are taken again in this order.\<close>

definition pthread_cond_wait :: "nat \<Rightarrow> tid \<Rightarrow> nat \<Rightarrow> nat \<Rightarrow> act list \<Rightarrow> sched \<Rightarrow> sched" where
  "pthread_cond_wait c self v m rest s0 =
    (let s = enter c self s0 in
     leave c self
       ((if canboot_gil_owned_by_current self s
         then [Gil_release, Cond_park v m, Gil_acquire, Mutex_lock m] else [Cond_park v m, Mutex_lock m]) @ rest) s)"

definition cond_park :: "nat \<Rightarrow> tid \<Rightarrow> nat \<Rightarrow> nat \<Rightarrow> act list \<Rightarrow> sched \<Rightarrow> sched" where
  "cond_park c self v m rest s0 =
     canboot_sched_block_on c self (Q_cond v) (drop_mutex m (set_todo self (Unlock # rest) (enter c self s0)))"

definition pthread_cond_signal :: "nat \<Rightarrow> tid \<Rightarrow> nat \<Rightarrow> act list \<Rightarrow> sched \<Rightarrow> sched" where
  "pthread_cond_signal c self v rest s0 =
     leave c self rest (set_rc self 0 (canboot_sched_wake_one (Q_cond v)
       (upd_cond v (\<lambda>x. x\<lparr> c_generation := c_generation x + 1 \<rparr>) (enter c self s0))))"

definition pthread_cond_broadcast :: "nat \<Rightarrow> tid \<Rightarrow> nat \<Rightarrow> act list \<Rightarrow> sched \<Rightarrow> sched option" where
  "pthread_cond_broadcast c self v rest s0 =
     map_option (\<lambda>s. leave c self rest (set_rc self 0 s)) (canboot_sched_wake_all (Q_cond v)
       (upd_cond v (\<lambda>x. x\<lparr> c_generation := c_generation x + 1 \<rparr>) (enter c self s0)))"

text \<open>\<open>pthread_once\<close>: the first part, the wait for the winner, and the end after \<open>init()\<close>.\<close>

definition pthread_once :: "nat \<Rightarrow> tid \<Rightarrow> nat \<Rightarrow> bool \<Rightarrow> act list \<Rightarrow> sched \<Rightarrow> sched" where
  "pthread_once c self v vm rest s0 =
    (let s = enter c self s0 in
     if o_state (onces s v) = 2 then leave c self rest (set_rc self 0 s)
     else if o_state (onces s v) = 1 then
       canboot_sched_block_on c self (Q_once v) (set_todo self (Once_wait v # rest) s)
     else leave c self (User vm # Once_done v # rest) (upd_once v (\<lambda>x. x\<lparr> o_state := 1 \<rparr>) s))"

definition once_wait :: "nat \<Rightarrow> tid \<Rightarrow> nat \<Rightarrow> act list \<Rightarrow> sched \<Rightarrow> sched" where
  "once_wait c self v rest s0 =
    (let s = enter c self s0 in
     if o_state (onces s v) \<noteq> 2 then canboot_sched_block_on c self (Q_once v) s
     else leave c self rest (set_rc self 0 s))"

definition once_done :: "nat \<Rightarrow> tid \<Rightarrow> nat \<Rightarrow> act list \<Rightarrow> sched \<Rightarrow> sched option" where
  "once_done c self v rest s0 =
     map_option (\<lambda>s. leave c self rest (set_rc self 0 s)) (canboot_sched_wake_all (Q_once v)
       (upd_once v (\<lambda>x. x\<lparr> o_state := 2 \<rparr>) (enter c self s0)))"

section \<open>Steps\<close>

text \<open>CPU \<open>c\<close> runs the next act of its current thread.\<close>

definition run_act :: "nat \<Rightarrow> tid \<Rightarrow> act \<Rightarrow> act list \<Rightarrow> sched \<Rightarrow> sched option" where
  "run_act c self a rest s = (case a of
     Trampoline \<Rightarrow> Some (thread_trampoline c self s)
   | User _ \<Rightarrow> None
   | Unlock \<Rightarrow> Some (leave c self rest s)
   | Iret \<Rightarrow> Some (set_todo self rest (upd_cpu c (\<lambda>k. k\<lparr> irq_on := True \<rparr>) s))
   | Dead \<Rightarrow> None
   | Idle_loop \<Rightarrow> Some (idle_entry c self rest s)
   | Yield \<Rightarrow> Some (canboot_sched_yield c self rest s)
   | Exit \<Rightarrow> canboot_thread_exit c self s
   | Create fn arg \<Rightarrow> Some (pthread_create c self fn arg rest s)
   | Detach t \<Rightarrow> Some (set_rc self 0 (canboot_thread_detach c self t rest s))
   | Join t \<Rightarrow> Some (canboot_thread_join c self t rest s)
   | Gil_acquire \<Rightarrow> Some (canboot_gil_acquire c self rest s)
   | Gil_release \<Rightarrow> Some (canboot_gil_release c self rest s)
   | Pthread_join t \<Rightarrow> Some (pthread_join c self t rest s)
   | Mutex_init m \<Rightarrow> Some (set_todo self rest (set_rc self 0 (pthread_mutex_init m s)))
   | Mutex_trylock m \<Rightarrow> Some (pthread_mutex_trylock c self m rest s)
   | Mutex_lock m \<Rightarrow> Some (pthread_mutex_lock c self m rest s)
   | Mutex_unlock m \<Rightarrow> Some (pthread_mutex_unlock c self m rest s)
   | Cond_init v \<Rightarrow> Some (set_todo self rest (set_rc self 0 (pthread_cond_init v s)))
   | Cond_wait v m \<Rightarrow> Some (pthread_cond_wait c self v m rest s)
   | Cond_park v m \<Rightarrow> Some (cond_park c self v m rest s)
   | Cond_signal v \<Rightarrow> Some (pthread_cond_signal c self v rest s)
   | Cond_broadcast v \<Rightarrow> pthread_cond_broadcast c self v rest s
   | Once v vm \<Rightarrow> Some (pthread_once c self v vm rest s)
   | Once_wait v \<Rightarrow> Some (once_wait c self v rest s)
   | Once_done v \<Rightarrow> once_done c self v rest s
   | Preempt_disable \<Rightarrow> Some (set_todo self rest (canboot_preempt_disable c s))
   | Preempt_enable \<Rightarrow> Some (canboot_preempt_enable c self rest s)
   | Set_preemption b \<Rightarrow> Some (set_todo self rest (s\<lparr> g_preempt_enabled := b \<rparr>))
   | Arm_irqs \<Rightarrow> Some (set_todo self rest (s\<lparr> g_irqs_armed := True \<rparr>)))"

text \<open>The calls user code makes, with the argument checks in front of the critical sections. A
  pointer argument that may be null is an option.\<close>

datatype call =
    C_yield
  | C_exit u64
  | C_create bool u64 u64
  | C_thread_create u64 u64
  | C_join int
  | C_detach int
  | C_mutex_init "nat option"
  | C_mutex_trylock "nat option"
  | C_mutex_lock "nat option"
  | C_mutex_unlock "nat option"
  | C_cond_init "nat option"
  | C_cond_wait "nat option" "nat option"
  | C_cond_signal "nat option"
  | C_cond_broadcast "nat option"
  | C_once "nat option"
  | C_preempt_disable
  | C_preempt_enable
  | C_set_preemption bool
  | C_arm_irqs
  | C_blocking_io

definition null_checked :: "'a option \<Rightarrow> ('a \<Rightarrow> act) \<Rightarrow> int + act list" where
  "null_checked p f = (case p of None \<Rightarrow> Inl EINVAL | Some x \<Rightarrow> Inr [f x])"

text \<open>\<open>C_create ok\<close>: \<open>ok\<close> says whether \<open>malloc\<close> found memory for the thunk. \<open>C_blocking_io\<close> is the
  pattern of the socket code: drop the GIL, wait, take it again.\<close>

definition call_code :: "call \<Rightarrow> bool \<Rightarrow> int + act list" where
  "call_code k vm = (case k of
     C_yield \<Rightarrow> Inr [Yield]
   | C_exit v \<Rightarrow> Inr [Exit]
   | C_create ok fn arg \<Rightarrow> if ok then Inr [Create (Gil_thread_entry fn) arg] else Inl EAGAIN
   | C_thread_create fn arg \<Rightarrow> Inr [Create (Raw_entry fn) arg]
   | C_join i \<Rightarrow> (case canboot_thread_by_id i of None \<Rightarrow> Inl ESRCH | Some t \<Rightarrow> Inr [Pthread_join t])
   | C_detach i \<Rightarrow> (case canboot_thread_by_id i of None \<Rightarrow> Inl ESRCH | Some t \<Rightarrow> Inr [Detach t])
   | C_mutex_init m \<Rightarrow> null_checked m Mutex_init
   | C_mutex_trylock m \<Rightarrow> null_checked m Mutex_trylock
   | C_mutex_lock m \<Rightarrow> null_checked m Mutex_lock
   | C_mutex_unlock m \<Rightarrow> null_checked m Mutex_unlock
   | C_cond_init v \<Rightarrow> null_checked v Cond_init
   | C_cond_wait v m \<Rightarrow> (case (v, m) of (Some v, Some m) \<Rightarrow> Inr [Cond_wait v m] | _ \<Rightarrow> Inl EINVAL)
   | C_cond_signal v \<Rightarrow> null_checked v Cond_signal
   | C_cond_broadcast v \<Rightarrow> null_checked v Cond_broadcast
   | C_once v \<Rightarrow> null_checked v (\<lambda>v. Once v vm)
   | C_preempt_disable \<Rightarrow> Inr [Preempt_disable]
   | C_preempt_enable \<Rightarrow> Inr [Preempt_enable]
   | C_set_preemption b \<Rightarrow> Inr [Set_preemption b]
   | C_arm_irqs \<Rightarrow> Inr [Arm_irqs]
   | C_blocking_io \<Rightarrow> if vm then Inr [Gil_release, User False, Gil_acquire] else Inr [])"

definition invoke :: "tid \<Rightarrow> call \<Rightarrow> bool \<Rightarrow> sched \<Rightarrow> sched" where
  "invoke self k vm s =
    (case call_code k vm of
       Inl e \<Rightarrow> set_rc self e s
     | Inr code \<Rightarrow> upd_thr self (\<lambda>x. x\<lparr> th_todo := code @ th_todo x,
         th_ret := (case k of C_exit v \<Rightarrow> v | _ \<Rightarrow> th_ret x) \<rparr>) s)"

text \<open>Acts that do not take the scheduler lock.\<close>

definition lockless :: "act \<Rightarrow> bool" where
  "lockless a = (case a of Iret \<Rightarrow> True | Mutex_init _ \<Rightarrow> True | Cond_init _ \<Rightarrow> True | Preempt_disable \<Rightarrow> True
     | Preempt_enable \<Rightarrow> True | Set_preemption _ \<Rightarrow> True | Arm_irqs \<Rightarrow> True | _ \<Rightarrow> False)"

text \<open>POSIX lets a mutex or condition variable be initialised only while nobody uses it.\<close>

definition init_ok :: "sched \<Rightarrow> act \<Rightarrow> bool" where
  "init_ok s a = (case a of
     Mutex_init m \<Rightarrow> m_waiters (mutexes s m) = empty_wq
   | Cond_init v \<Rightarrow> c_waiters (conds s v) = empty_wq
   | _ \<Rightarrow> True)"

inductive step :: "sched \<Rightarrow> sched \<Rightarrow> bool" where
  step_act: "c < CANBOOT_NR_CPUS \<Longrightarrow> online (cpus s c) \<Longrightarrow> cpu_current (cpus s c) = Some self \<Longrightarrow>
     th_todo (thr s self) = a # rest \<Longrightarrow> g_sched s = None \<or> g_sched s = Some c \<or> lockless a \<Longrightarrow>
     init_ok s a \<Longrightarrow> run_act c self a rest s = Some s' \<Longrightarrow> step s s'"
| step_call: "c < CANBOOT_NR_CPUS \<Longrightarrow> online (cpus s c) \<Longrightarrow> cpu_current (cpus s c) = Some self \<Longrightarrow>
     th_todo (thr s self) = User vm # rest \<Longrightarrow> step s (invoke self k vm s)"
| step_return: "c < CANBOOT_NR_CPUS \<Longrightarrow> online (cpus s c) \<Longrightarrow> cpu_current (cpus s c) = Some self \<Longrightarrow>
     th_todo (thr s self) = User vm # rest \<Longrightarrow> rest \<noteq> [] \<Longrightarrow>
     step s (upd_thr self (\<lambda>x. x\<lparr> th_todo := rest, th_ret := v \<rparr>) s)"
| step_tick: "c < CANBOOT_NR_CPUS \<Longrightarrow> online (cpus s c) \<Longrightarrow> cpu_current (cpus s c) = Some self \<Longrightarrow>
     irq_on (cpus s c) \<Longrightarrow> g_sched s = None \<or> \<not> g_preempt_enabled s \<or> preempt_count (cpus s c) \<noteq> 0 \<Longrightarrow>
     step s (canboot_sched_on_tick c self s)"
| step_ap: "c < CANBOOT_NR_CPUS \<Longrightarrow> \<not> online (cpus s c) \<Longrightarrow> g_sched s = None \<Longrightarrow>
     step s (canboot_sched_ap_online c s)"

text \<open>Power-on: zeroed statics, initialised mutexes, and the boot CPU's flags and TLS register.\<close>

definition zero_sched :: "(nat \<Rightarrow> bool) \<Rightarrow> sched" where
  "zero_sched irq = \<lparr> thr = (\<lambda>_. zero_thread),
     cpus = (\<lambda>c. \<lparr> cpu_current = None, cpu_idle = None, preempt_count = 0, need_resched = False, cpu_id = 0,
       online = False, irq_on = irq c, fs_base = Some Boot_tls \<rparr>),
     g_sched = None, g_preempt_enabled = False, g_irqs_armed = False, g_ticks = 0, g_runq = empty_wq,
     g_gil_wq = empty_wq, g_gil_owner = None, g_gil_locked = False, g_thread_tls = (\<lambda>_. []),
     mutexes = (\<lambda>_. \<lparr> m_locked = False, m_owner = -1, m_waiters = empty_wq \<rparr>),
     conds = (\<lambda>_. \<lparr> c_waiters = empty_wq, c_generation = 0 \<rparr>),
     onces = (\<lambda>_. \<lparr> o_state = 0, o_waiters = empty_wq \<rparr>) \<rparr>"

inductive reachable :: "sched \<Rightarrow> bool" where
  reachable_init: "reachable (canboot_sched_init (Some Boot_tls) (zero_sched irq))"
| reachable_step: "reachable s \<Longrightarrow> step s s' \<Longrightarrow> reachable s'"

end
