(* ===== verification/Sched_Queues.thy ===== *)
theory Sched_Queues
  imports Sched
begin

text \<open>
  The intrusive queues of the scheduler are first-in first-out lists: \<open>wq_push\<close> appends and
  \<open>wq_pop\<close> removes the head, and neither disturbs a queue that shares no thread with it.
\<close>

section \<open>What the primitives leave alone\<close>

named_theorems frame_simps "fields that a scheduler primitive does not change"

lemma get_put_q: "get_q q (put_q q' w s) = (if q = q' then w else get_q q s)"
  by (cases q'; cases q) (simp_all add: upd_thr_def)

lemma upd_thr_frame [frame_simps]:
  "cpus (upd_thr t f s) = cpus s" "g_sched (upd_thr t f s) = g_sched s"
  "g_preempt_enabled (upd_thr t f s) = g_preempt_enabled s" "g_irqs_armed (upd_thr t f s) = g_irqs_armed s"
  "g_runq (upd_thr t f s) = g_runq s" "g_gil_wq (upd_thr t f s) = g_gil_wq s"
  "g_gil_owner (upd_thr t f s) = g_gil_owner s" "g_gil_locked (upd_thr t f s) = g_gil_locked s"
  "mutexes (upd_thr t f s) = mutexes s" "conds (upd_thr t f s) = conds s" "onces (upd_thr t f s) = onces s"
  "thr (upd_thr t f s) = (thr s)(t := f (thr s t))"
  by (simp_all add: upd_thr_def)

lemma upd_cpu_frame [frame_simps]:
  "thr (upd_cpu c f s) = thr s" "g_sched (upd_cpu c f s) = g_sched s"
  "g_preempt_enabled (upd_cpu c f s) = g_preempt_enabled s" "g_irqs_armed (upd_cpu c f s) = g_irqs_armed s"
  "g_runq (upd_cpu c f s) = g_runq s" "g_gil_wq (upd_cpu c f s) = g_gil_wq s"
  "g_gil_owner (upd_cpu c f s) = g_gil_owner s" "g_gil_locked (upd_cpu c f s) = g_gil_locked s"
  "mutexes (upd_cpu c f s) = mutexes s" "conds (upd_cpu c f s) = conds s" "onces (upd_cpu c f s) = onces s"
  "cpus (upd_cpu c f s) = (cpus s)(c := f (cpus s c))"
  by (simp_all add: upd_cpu_def)

lemma put_q_frame [frame_simps]:
  "cpus (put_q q w s) = cpus s" "g_sched (put_q q w s) = g_sched s"
  "g_preempt_enabled (put_q q w s) = g_preempt_enabled s" "g_irqs_armed (put_q q w s) = g_irqs_armed s"
  "g_gil_owner (put_q q w s) = g_gil_owner s" "g_gil_locked (put_q q w s) = g_gil_locked s"
  "q_next (thr (put_q q w s) t) = q_next (thr s t)" "th_state (thr (put_q q w s) t) = th_state (thr s t)"
  "th_todo (thr (put_q q w s) t) = th_todo (thr s t)" "th_flags (thr (put_q q w s) t) = th_flags (thr s t)"
  "th_id (thr (put_q q w s) t) = th_id (thr s t)" "tls_base (thr (put_q q w s) t) = tls_base (thr s t)"
  "th_entry (thr (put_q q w s) t) = th_entry (thr s t)" "th_detached (thr (put_q q w s) t) = th_detached (thr s t)"
  "m_locked (mutexes (put_q q w s) m) = m_locked (mutexes s m)"
  "m_owner (mutexes (put_q q w s) m) = m_owner (mutexes s m)"
  "o_state (onces (put_q q w s) v) = o_state (onces s v)"
  by (cases q; simp add: upd_thr_def)+

lemma set_next_frame [frame_simps]:
  "cpus (set_next t n s) = cpus s" "g_sched (set_next t n s) = g_sched s"
  "g_preempt_enabled (set_next t n s) = g_preempt_enabled s" "g_irqs_armed (set_next t n s) = g_irqs_armed s"
  "g_gil_owner (set_next t n s) = g_gil_owner s" "g_gil_locked (set_next t n s) = g_gil_locked s"
  "th_state (thr (set_next t n s) x) = th_state (thr s x)"
  "th_todo (thr (set_next t n s) x) = th_todo (thr s x)" "th_flags (thr (set_next t n s) x) = th_flags (thr s x)"
  "th_id (thr (set_next t n s) x) = th_id (thr s x)" "tls_base (thr (set_next t n s) x) = tls_base (thr s x)"
  "th_entry (thr (set_next t n s) x) = th_entry (thr s x)"
  "th_detached (thr (set_next t n s) x) = th_detached (thr s x)"
  "q_next (thr (set_next t n s) x) = (if x = t then n else q_next (thr s x))"
  "mutexes (set_next t n s) = mutexes s" "conds (set_next t n s) = conds s" "onces (set_next t n s) = onces s"
  by (simp_all add: set_next_def upd_thr_def)

lemma get_q_set_next [frame_simps]: "get_q q (set_next t n s) = get_q q s"
  by (cases q) (simp_all add: set_next_def upd_thr_def)

lemma wq_push_frame [frame_simps]:
  "cpus (wq_push q t s) = cpus s" "g_sched (wq_push q t s) = g_sched s"
  "g_preempt_enabled (wq_push q t s) = g_preempt_enabled s" "g_irqs_armed (wq_push q t s) = g_irqs_armed s"
  "g_gil_owner (wq_push q t s) = g_gil_owner s" "g_gil_locked (wq_push q t s) = g_gil_locked s"
  "th_state (thr (wq_push q t s) x) = th_state (thr s x)"
  "th_todo (thr (wq_push q t s) x) = th_todo (thr s x)" "th_flags (thr (wq_push q t s) x) = th_flags (thr s x)"
  "th_id (thr (wq_push q t s) x) = th_id (thr s x)" "tls_base (thr (wq_push q t s) x) = tls_base (thr s x)"
  "th_entry (thr (wq_push q t s) x) = th_entry (thr s x)"
  "th_detached (thr (wq_push q t s) x) = th_detached (thr s x)"
  "m_locked (mutexes (wq_push q t s) m) = m_locked (mutexes s m)"
  "m_owner (mutexes (wq_push q t s) m) = m_owner (mutexes s m)"
  "o_state (onces (wq_push q t s) v) = o_state (onces s v)"
  by (simp_all add: wq_push_def Let_def frame_simps split: option.split)

lemma wq_pop_frame [frame_simps]:
  "cpus (snd (wq_pop q s)) = cpus s" "g_sched (snd (wq_pop q s)) = g_sched s"
  "g_preempt_enabled (snd (wq_pop q s)) = g_preempt_enabled s" "g_irqs_armed (snd (wq_pop q s)) = g_irqs_armed s"
  "g_gil_owner (snd (wq_pop q s)) = g_gil_owner s" "g_gil_locked (snd (wq_pop q s)) = g_gil_locked s"
  "th_state (thr (snd (wq_pop q s)) x) = th_state (thr s x)"
  "th_todo (thr (snd (wq_pop q s)) x) = th_todo (thr s x)" "th_flags (thr (snd (wq_pop q s)) x) = th_flags (thr s x)"
  "th_id (thr (snd (wq_pop q s)) x) = th_id (thr s x)" "tls_base (thr (snd (wq_pop q s)) x) = tls_base (thr s x)"
  "th_entry (thr (snd (wq_pop q s)) x) = th_entry (thr s x)"
  "th_detached (thr (snd (wq_pop q s)) x) = th_detached (thr s x)"
  "m_locked (mutexes (snd (wq_pop q s)) m) = m_locked (mutexes s m)"
  "m_owner (mutexes (snd (wq_pop q s)) m) = m_owner (mutexes s m)"
  "o_state (onces (snd (wq_pop q s)) v) = o_state (onces s v)"
  by (simp_all add: wq_pop_def Let_def frame_simps split: option.split)

section \<open>Representation\<close>

fun linked :: "(tid \<Rightarrow> tid option) \<Rightarrow> tid option \<Rightarrow> tid list \<Rightarrow> bool" where
  "linked nx p [] = (p = None)"
| "linked nx p (t # ts) = (p = Some t \<and> linked nx (nx t) ts)"

definition q_rep :: "sched \<Rightarrow> qid \<Rightarrow> tid list \<Rightarrow> bool" where
  "q_rep s q xs \<longleftrightarrow> linked (\<lambda>t. q_next (thr s t)) (wq_head (get_q q s)) xs \<and>
     wq_tail (get_q q s) = (if xs = [] then None else Some (last xs))"

definition queues :: "sched \<Rightarrow> (qid \<Rightarrow> tid list) \<Rightarrow> bool" where
  "queues s Q \<longleftrightarrow> (\<forall>q. q_rep s q (Q q) \<and> distinct (Q q)) \<and>
     (\<forall>q q'. q \<noteq> q' \<longrightarrow> set (Q q) \<inter> set (Q q') = {})"

lemma linked_cong: "(\<And>t. t \<in> set xs \<Longrightarrow> nx t = nx' t) \<Longrightarrow> linked nx p xs = linked nx' p xs"
  by (induction xs arbitrary: p) auto

lemma linked_snoc:
  assumes "linked nx p xs" and "xs \<noteq> []" and "distinct (xs @ [t])"
  shows "linked (nx(t := None, last xs := Some t)) p (xs @ [t])"
  using assms
proof (induction xs arbitrary: p)
  case (Cons x xs)
  show ?case
  proof (cases "xs = []")
    case True
    with Cons.prems show ?thesis by auto
  next
    case False
    then have "x \<noteq> last xs" using Cons.prems(3) by auto
    with Cons False show ?thesis by auto
  qed
qed simp

lemma linked_hd: "linked nx p (t # ts) \<Longrightarrow> t \<notin> set ts \<Longrightarrow> linked (nx(t := v)) (nx t) ts"
  by (subst linked_cong [of ts "nx(t := v)" nx]) auto

lemma queues_cong:
  assumes "queues s Q" and "\<And>q. get_q q s' = get_q q s"
    and "\<And>t q. t \<in> set (Q q) \<Longrightarrow> q_next (thr s' t) = q_next (thr s t)"
  shows "queues s' Q"
proof -
  have "q_rep s' q (Q q)" for q
    using assms linked_cong [of "Q q" "\<lambda>t. q_next (thr s' t)" "\<lambda>t. q_next (thr s t)"]
    by (auto simp: queues_def q_rep_def)
  with assms(1) show ?thesis by (simp add: queues_def)
qed

text \<open>Updates that touch no link and no queue head.\<close>

lemma queues_frame:
  assumes "queues s Q" and "g_runq s' = g_runq s" and "g_gil_wq s' = g_gil_wq s"
    and "\<And>t. join_q (thr s' t) = join_q (thr s t)" and "\<And>t. q_next (thr s' t) = q_next (thr s t)"
    and "\<And>m. m_waiters (mutexes s' m) = m_waiters (mutexes s m)"
    and "\<And>v. c_waiters (conds s' v) = c_waiters (conds s v)"
    and "\<And>v. o_waiters (onces s' v) = o_waiters (onces s v)"
  shows "queues s' Q"
proof (rule queues_cong [OF assms(1)])
  show "get_q q s' = get_q q s" for q by (cases q) (simp_all add: assms)
qed (simp add: assms)

lemma queues_upd_thr:
  "queues s Q \<Longrightarrow> join_q (f (thr s t)) = join_q (thr s t) \<Longrightarrow> q_next (f (thr s t)) = q_next (thr s t) \<Longrightarrow>
   queues (upd_thr t f s) Q"
  by (erule queues_frame) (simp_all add: upd_thr_def)

lemma wq_push_q_rep_same:
  assumes "q_rep s q xs" and "distinct (xs @ [t])"
  shows "q_rep (wq_push q t s) q (xs @ [t])"
proof (cases "xs = []")
  case True
  with assms show ?thesis
    by (simp add: q_rep_def wq_push_def Let_def get_put_q frame_simps)
next
  case False
  let ?nx = "\<lambda>x. q_next (thr s x)"
  have nxt: "(\<lambda>x. q_next (thr (wq_push q t s) x)) = ?nx(t := None, last xs := Some t)"
    using assms(1) False by (auto simp: q_rep_def wq_push_def Let_def frame_simps)
  have "linked (?nx(t := None, last xs := Some t)) (wq_head (get_q q s)) (xs @ [t])"
    using assms False by (intro linked_snoc) (simp_all add: q_rep_def)
  with nxt assms(1) False show ?thesis
    by (simp add: q_rep_def wq_push_def Let_def frame_simps get_put_q)
qed

lemma wq_push_q_rep_other:
  assumes "q_rep s q' xs" and "q' \<noteq> q" and "t \<notin> set xs" and "q_rep s q ys" and "set xs \<inter> set ys = {}"
  shows "q_rep (wq_push q t s) q' xs"
proof -
  have tail: "l \<in> set ys" if "wq_tail (get_q q s) = Some l" for l
    using assms(4) that by (auto simp: q_rep_def split: if_splits)
  have "q_next (thr (wq_push q t s) x) = q_next (thr s x)" if "x \<in> set xs" for x
  proof -
    have "x \<noteq> t" and "wq_tail (get_q q s) \<noteq> Some x" using assms(3, 5) that tail by blast+
    then show ?thesis by (cases "wq_tail (get_q q s)") (simp_all add: wq_push_def Let_def frame_simps)
  qed
  then have "linked (\<lambda>x. q_next (thr (wq_push q t s) x)) p xs = linked (\<lambda>x. q_next (thr s x)) p xs" for p
    by (rule linked_cong)
  moreover have "get_q q' (wq_push q t s) = get_q q' s"
    using assms(2) by (simp add: wq_push_def Let_def get_put_q frame_simps split: option.split)
  ultimately show ?thesis using assms(1) by (simp add: q_rep_def)
qed

text \<open>Pushing appends.\<close>

lemma queues_push:
  assumes "queues s Q" and "\<And>q'. t \<notin> set (Q q')"
  shows "queues (wq_push q t s) (Q(q := Q q @ [t]))"
proof -
  have "q_rep (wq_push q t s) q' ((Q(q := Q q @ [t])) q') \<and> distinct ((Q(q := Q q @ [t])) q')" for q'
  proof (cases "q' = q")
    case True
    then show ?thesis
      using assms wq_push_q_rep_same [of s q "Q q" t] by (simp add: queues_def)
  next
    case False
    then show ?thesis
      using assms wq_push_q_rep_other [of s q' "Q q'" q t "Q q"] by (simp add: queues_def)
  qed
  moreover have "set ((Q(q := Q q @ [t])) a) \<inter> set ((Q(q := Q q @ [t])) b) = {}" if "a \<noteq> b" for a b
  proof -
    have "set (Q a) \<inter> set (Q b) = {}" using assms(1) that by (simp add: queues_def)
    then show ?thesis using assms(2) [of a] assms(2) [of b] that by auto
  qed
  ultimately show ?thesis by (simp add: queues_def)
qed

text \<open>Popping removes the head.\<close>

lemma wq_pop_empty: "queues s Q \<Longrightarrow> Q q = [] \<Longrightarrow> wq_pop q s = (None, s)"
proof -
  assume "queues s Q" and "Q q = []"
  then have "q_rep s q []" unfolding queues_def by metis
  then show "wq_pop q s = (None, s)" by (simp add: q_rep_def wq_pop_def)
qed

lemma queues_pop:
  assumes "queues s Q" and "Q q = t # ts"
  shows "fst (wq_pop q s) = Some t" and "queues (snd (wq_pop q s)) (Q(q := ts))"
proof -
  let ?nx = "\<lambda>x. q_next (thr s x)" and ?s = "snd (wq_pop q s)"
  have rep: "q_rep s q (t # ts)" and dist: "distinct (t # ts)"
    using assms(1) unfolding queues_def assms(2) [symmetric] by blast+
  then have head: "wq_head (get_q q s) = Some t" and rest: "linked ?nx (?nx t) ts"
    by (simp_all add: q_rep_def)
  show "fst (wq_pop q s) = Some t" by (simp add: wq_pop_def Let_def head)
  have nxt: "(\<lambda>x. q_next (thr ?s x)) = ?nx(t := None)"
    by (auto simp: wq_pop_def Let_def head frame_simps)
  have same: "get_q q ?s = \<lparr> wq_head = ?nx t, wq_tail = (if ?nx t = None then None else wq_tail (get_q q s)) \<rparr>"
    and other: "q' \<noteq> q \<Longrightarrow> get_q q' ?s = get_q q' s" for q'
    by (simp_all add: wq_pop_def Let_def head frame_simps get_put_q)
  have "q_rep ?s q' ((Q(q := ts)) q') \<and> distinct ((Q(q := ts)) q')" for q'
  proof (cases "q' = q")
    case True
    have "linked (?nx(t := None)) (?nx t) ts"
      using linked_hd [of ?nx "Some t" t ts] rest dist by simp
    moreover have "(?nx t = None) = (ts = [])" using rest by (cases ts) auto
    ultimately show ?thesis
      using True rep dist by (simp add: q_rep_def nxt same)
  next
    case False
    then have "set (Q q') \<inter> set (Q q) = {}" using assms(1) by (simp add: queues_def)
    then have "t \<notin> set (Q q')" using assms(2) by auto
    then have "linked (?nx(t := None)) p (Q q') = linked ?nx p (Q q')" for p
      by (intro linked_cong) auto
    with False assms(1) show ?thesis by (simp add: queues_def q_rep_def nxt other)
  qed
  moreover have "set ((Q(q := ts)) a) \<inter> set ((Q(q := ts)) b) = {}" if "a \<noteq> b" for a b
  proof -
    have "set (Q a) \<inter> set (Q b) = {}" using assms(1) that by (simp add: queues_def)
    moreover have "set ((Q(q := ts)) x) \<subseteq> set (Q x)" for x using assms(2) by auto
    ultimately show ?thesis by blast
  qed
  ultimately show "queues ?s (Q(q := ts))" by (simp add: queues_def)
qed

end
