(* ===== verification/Sched_Inv.thy ===== *)
theory Sched_Inv
  imports Sched_Queues
begin

text \<open>
  The invariant of the scheduler and that every step keeps it. It has four parts: where each
  thread is (on a CPU, in the run queue, in exactly one wait queue, or finished), what a thread
  that is not running resumes with, who owns the GIL, and which thread-local storage a CPU uses.
\<close>

section \<open>Where threads are\<close>

definition pool :: "tid \<Rightarrow> bool" where
  "pool t = (case t of Pool i \<Rightarrow> i < CANBOOT_THREAD_POOL | Idle _ \<Rightarrow> False)"

definition sep :: "(qid \<Rightarrow> tid list) \<Rightarrow> bool" where
  "sep Q \<longleftrightarrow> (\<forall>q. distinct (Q q)) \<and> (\<forall>q q' t. t \<in> set (Q q) \<longrightarrow> t \<in> set (Q q') \<longrightarrow> q = q')"

text \<open>\<open>st\<close> gives the state field of every thread and \<open>run\<close> the thread on every CPU.\<close>

definition placed :: "(tid \<Rightarrow> canboot_thread_state) \<Rightarrow> (nat \<Rightarrow> tid option) \<Rightarrow> (qid \<Rightarrow> tid list) \<Rightarrow> bool" where
  "placed st run Q \<longleftrightarrow> sep Q \<and>
     (\<forall>q t. t \<in> set (Q q) \<longrightarrow> pool t) \<and>
     (\<forall>t. pool t \<longrightarrow> (st t = CANBOOT_TH_RUNNABLE \<longleftrightarrow> t \<in> set (Q Q_run))) \<and>
     (\<forall>t. pool t \<longrightarrow> (st t = CANBOOT_TH_BLOCKED \<longleftrightarrow> (\<exists>q. q \<noteq> Q_run \<and> t \<in> set (Q q)))) \<and>
     (\<forall>t. pool t \<longrightarrow> (st t = CANBOOT_TH_RUNNING \<longleftrightarrow> (\<exists>c. run c = Some t))) \<and>
     (\<forall>t. pool t \<longrightarrow> st t = CANBOOT_TH_EXITED \<or> st t = CANBOOT_TH_FREE \<longrightarrow> Q (Q_join t) = []) \<and>
     (\<forall>c t. run c = Some t \<longrightarrow> pool t \<or> t = Idle c) \<and>
     (\<forall>c c' t. run c = Some t \<longrightarrow> run c' = Some t \<longrightarrow> c = c')"

lemma pool_not_Idle [simp]: "\<not> pool (Idle c)"
  by (simp add: pool_def)

lemma placedD:
  assumes "placed st run Q"
  shows "sep Q" and "t \<in> set (Q q) \<Longrightarrow> pool t"
    and "pool t \<Longrightarrow> st t = CANBOOT_TH_RUNNABLE \<longleftrightarrow> t \<in> set (Q Q_run)"
    and "pool t \<Longrightarrow> st t = CANBOOT_TH_BLOCKED \<longleftrightarrow> (\<exists>q. q \<noteq> Q_run \<and> t \<in> set (Q q))"
    and "pool t \<Longrightarrow> st t = CANBOOT_TH_RUNNING \<longleftrightarrow> (\<exists>c. run c = Some t)"
    and "pool t \<Longrightarrow> st t = CANBOOT_TH_EXITED \<or> st t = CANBOOT_TH_FREE \<Longrightarrow> Q (Q_join t) = []"
    and "run c = Some t \<Longrightarrow> pool t \<or> t = Idle c"
    and "run c = Some t \<Longrightarrow> run c' = Some t \<Longrightarrow> c = c'"
  using assms unfolding placed_def by blast+

lemma placedI:
  assumes "sep Q" and "\<And>q t. t \<in> set (Q q) \<Longrightarrow> pool t"
    and "\<And>t. pool t \<Longrightarrow> st t = CANBOOT_TH_RUNNABLE \<longleftrightarrow> t \<in> set (Q Q_run)"
    and "\<And>t. pool t \<Longrightarrow> st t = CANBOOT_TH_BLOCKED \<longleftrightarrow> (\<exists>q. q \<noteq> Q_run \<and> t \<in> set (Q q))"
    and "\<And>t. pool t \<Longrightarrow> st t = CANBOOT_TH_RUNNING \<longleftrightarrow> (\<exists>c. run c = Some t)"
    and "\<And>t. pool t \<Longrightarrow> st t = CANBOOT_TH_EXITED \<or> st t = CANBOOT_TH_FREE \<Longrightarrow> Q (Q_join t) = []"
    and "\<And>c t. run c = Some t \<Longrightarrow> pool t \<or> t = Idle c"
    and "\<And>c c' t. run c = Some t \<Longrightarrow> run c' = Some t \<Longrightarrow> c = c'"
  shows "placed st run Q"
  unfolding placed_def using assms by blast

lemma sep_push: "sep Q \<Longrightarrow> (\<And>q'. t \<notin> set (Q q')) \<Longrightarrow> sep (Q(q := Q q @ [t]))"
  unfolding sep_def by (auto split: if_splits)

lemma sep_tl: "sep Q \<Longrightarrow> Q q = t # ts \<Longrightarrow> sep (Q(q := ts))"
  unfolding sep_def by (auto split: if_splits) (metis distinct.simps(2) list.set_intros(2))+

lemma sep_hd:
  assumes "sep Q" and "Q q = t # ts"
  shows "t \<notin> set ((Q(q := ts)) q')"
  using assms unfolding sep_def by (metis distinct.simps(2) fun_upd_apply list.set_intros(1))

lemma running_not_queued:
  assumes "placed st run Q" and "run c = Some t"
  shows "t \<notin> set (Q q)"
proof
  assume t: "t \<in> set (Q q)"
  then have "pool t" by (rule placedD(2) [OF assms(1)])
  then have "st t = CANBOOT_TH_RUNNING" using placedD(5) [OF assms(1)] assms(2) by blast
  moreover have "st t = CANBOOT_TH_RUNNABLE \<or> st t = CANBOOT_TH_BLOCKED"
    using placedD(3, 4) [OF assms(1) \<open>pool t\<close>] t by (cases "q = Q_run") auto
  ultimately show False by auto
qed

lemma idle_not_queued: "placed st run Q \<Longrightarrow> \<not> pool t \<Longrightarrow> t \<notin> set (Q q)"
  using placedD(2) by blast

lemma finished_not_queued:
  assumes "placed st run Q" and "st t = CANBOOT_TH_EXITED \<or> st t = CANBOOT_TH_FREE"
  shows "t \<notin> set (Q q)"
proof
  assume t: "t \<in> set (Q q)"
  then have "pool t" by (rule placedD(2) [OF assms(1)])
  then have "st t = CANBOOT_TH_RUNNABLE \<or> st t = CANBOOT_TH_BLOCKED"
    using placedD(3, 4) [OF assms(1) \<open>pool t\<close>] t by (cases "q = Q_run") auto
  with assms(2) show False by auto
qed

text \<open>The transitions.\<close>

lemma placed_pop_run:
  assumes p: "placed st run Q" and "run c = None" and q: "Q Q_run = t # ts"
  shows "placed (st(t := CANBOOT_TH_RUNNING)) (run(c := Some t)) (Q(Q_run := ts))"
proof -
  have tq: "t \<in> set (Q Q_run)" using q by simp
  have t: "pool t" by (rule placedD(2) [OF p tq])
  then have st: "st t = CANBOOT_TH_RUNNABLE" using placedD(3) [OF p] tq by blast
  have no: "\<And>q'. t \<notin> set ((Q(Q_run := ts)) q')" by (rule sep_hd [OF placedD(1) [OF p] q])
  have run: "run c' \<noteq> Some t" for c' using placedD(5) [OF p t] st by auto
  show ?thesis
  proof (rule placedI)
    show "sep (Q(Q_run := ts))" by (rule sep_tl [OF placedD(1) [OF p] q])
    show "\<And>q' x. x \<in> set ((Q(Q_run := ts)) q') \<Longrightarrow> pool x"
      using placedD(2) [OF p] q by (metis fun_upd_apply list.set_intros(2))
  next
    fix x assume x: "pool x"
    show "(st(t := CANBOOT_TH_RUNNING)) x = CANBOOT_TH_RUNNABLE \<longleftrightarrow> x \<in> set ((Q(Q_run := ts)) Q_run)"
      using placedD(3) [OF p x] no [of Q_run] q by auto
    show "(st(t := CANBOOT_TH_RUNNING)) x = CANBOOT_TH_BLOCKED
        \<longleftrightarrow> (\<exists>q'. q' \<noteq> Q_run \<and> x \<in> set ((Q(Q_run := ts)) q'))"
      using placedD(4) [OF p x] placedD(4) [OF p t] st by auto
    show "(st(t := CANBOOT_TH_RUNNING)) x = CANBOOT_TH_RUNNING \<longleftrightarrow> (\<exists>c'. (run(c := Some t)) c' = Some x)"
      using placedD(5) [OF p x] assms(2)
      by (cases "x = t") (auto, metis option.discI)
    show "(st(t := CANBOOT_TH_RUNNING)) x = CANBOOT_TH_EXITED \<or> (st(t := CANBOOT_TH_RUNNING)) x = CANBOOT_TH_FREE
        \<Longrightarrow> (Q(Q_run := ts)) (Q_join x) = []"
      using placedD(6) [OF p x] by (auto split: if_splits)
  next
    show "\<And>c' x. (run(c := Some t)) c' = Some x \<Longrightarrow> pool x \<or> x = Idle c'"
      using placedD(7) [OF p] t by (metis fun_upd_apply option.inject)
    show "\<And>a b x. (run(c := Some t)) a = Some x \<Longrightarrow> (run(c := Some t)) b = Some x \<Longrightarrow> a = b"
      using placedD(8) [OF p] run by (metis fun_upd_apply option.inject)
  qed
qed

lemma placed_idle:
  assumes p: "placed st run Q" and "run c = None"
  shows "placed (st(Idle c := x)) (run(c := Some (Idle c))) Q"
proof (rule placedI)
  have other: "run c' \<noteq> Some (Idle c)" for c' using placedD(7) [OF p, of c' "Idle c"] assms(2) by auto
  show "sep Q" by (rule placedD(1) [OF p])
  show "\<And>q t. t \<in> set (Q q) \<Longrightarrow> pool t" by (rule placedD(2) [OF p])
  show "\<And>c' t. (run(c := Some (Idle c))) c' = Some t \<Longrightarrow> pool t \<or> t = Idle c'"
    using placedD(7) [OF p] by (metis fun_upd_apply option.inject)
  show "\<And>a b t. (run(c := Some (Idle c))) a = Some t \<Longrightarrow> (run(c := Some (Idle c))) b = Some t \<Longrightarrow> a = b"
    using placedD(8) [OF p] other by (metis fun_upd_apply option.inject)
  fix t assume t: "pool t"
  then have ti: "t \<noteq> Idle c" by auto
  show "(st(Idle c := x)) t = CANBOOT_TH_RUNNABLE \<longleftrightarrow> t \<in> set (Q Q_run)"
    using placedD(3) [OF p t] ti by simp
  show "(st(Idle c := x)) t = CANBOOT_TH_BLOCKED \<longleftrightarrow> (\<exists>q. q \<noteq> Q_run \<and> t \<in> set (Q q))"
    using placedD(4) [OF p t] ti by simp
  show "(st(Idle c := x)) t = CANBOOT_TH_RUNNING \<longleftrightarrow> (\<exists>c'. (run(c := Some (Idle c))) c' = Some t)"
    using placedD(5) [OF p t] ti assms(2) by (metis fun_upd_apply option.discI option.inject)
  show "(st(Idle c := x)) t = CANBOOT_TH_EXITED \<or> (st(Idle c := x)) t = CANBOOT_TH_FREE \<Longrightarrow> Q (Q_join t) = []"
    using placedD(6) [OF p t] ti by simp
qed

lemma placed_off:
  assumes p: "placed st run Q" and c: "run c = Some (Idle c)"
  shows "placed st (run(c := None)) Q"
proof (rule placedI)
  show "\<And>c' t. (run(c := None)) c' = Some t \<Longrightarrow> pool t \<or> t = Idle c'"
    using placedD(7) [OF p] by (metis fun_upd_apply option.discI)
  show "\<And>a b t. (run(c := None)) a = Some t \<Longrightarrow> (run(c := None)) b = Some t \<Longrightarrow> a = b"
    using placedD(8) [OF p] by (metis fun_upd_apply option.discI)
  fix t assume t: "pool t"
  then have "run c \<noteq> Some t" using c by auto
  then show "st t = CANBOOT_TH_RUNNING \<longleftrightarrow> (\<exists>c'. (run(c := None)) c' = Some t)"
    using placedD(5) [OF p t] by (metis fun_upd_apply option.discI)
qed (fact placedD [OF p])+

lemma placed_leave_cpu:
  assumes p: "placed st run Q" and c: "run c = Some t" "pool t"
    and Q': "sep Q'" "\<And>q x. x \<in> set (Q' q) \<Longrightarrow> x = t \<or> x \<in> set (Q q)"
      "\<And>q x. x \<noteq> t \<Longrightarrow> x \<in> set (Q q) \<Longrightarrow> x \<in> set (Q' q)"
    and t: "x \<noteq> CANBOOT_TH_RUNNING" "x = CANBOOT_TH_RUNNABLE \<longleftrightarrow> t \<in> set (Q' Q_run)"
      "x = CANBOOT_TH_BLOCKED \<longleftrightarrow> (\<exists>q. q \<noteq> Q_run \<and> t \<in> set (Q' q))"
    and j: "x = CANBOOT_TH_EXITED \<or> x = CANBOOT_TH_FREE \<Longrightarrow> Q' (Q_join t) = []"
      "\<And>u. u \<noteq> t \<Longrightarrow> pool u \<Longrightarrow> st u = CANBOOT_TH_EXITED \<or> st u = CANBOOT_TH_FREE \<Longrightarrow> Q' (Q_join u) = []"
  shows "placed (st(t := x)) (run(c := None)) Q'"
proof (rule placedI)
  show "sep Q'" by (rule Q'(1))
  show "\<And>q y. y \<in> set (Q' q) \<Longrightarrow> pool y" using Q'(2) placedD(2) [OF p] c(2) by blast
next
  fix y assume y: "pool y"
  show "(st(t := x)) y = CANBOOT_TH_RUNNABLE \<longleftrightarrow> y \<in> set (Q' Q_run)"
    using placedD(3) [OF p y] t(2) Q'(2, 3) by (cases "y = t") auto
  show "(st(t := x)) y = CANBOOT_TH_BLOCKED \<longleftrightarrow> (\<exists>q. q \<noteq> Q_run \<and> y \<in> set (Q' q))"
    using placedD(4) [OF p y] t(3) Q'(2, 3) by (cases "y = t") auto
  show "(st(t := x)) y = CANBOOT_TH_RUNNING \<longleftrightarrow> (\<exists>c'. (run(c := None)) c' = Some y)"
  proof (cases "y = t")
    case True
    have "(run(c := None)) c' \<noteq> Some t" for c'
      using placedD(8) [OF p c(1), of c'] by (cases "c' = c") auto
    with True t(1) show ?thesis by simp
  next
    case False
    then have "run c \<noteq> Some y" using c(1) by simp
    with False placedD(5) [OF p y] show ?thesis by (metis fun_upd_apply option.discI)
  qed
  show "(st(t := x)) y = CANBOOT_TH_EXITED \<or> (st(t := x)) y = CANBOOT_TH_FREE \<Longrightarrow> Q' (Q_join y) = []"
    using j(1) j(2) [of y] y by (cases "y = t") auto
next
  show "\<And>c' y. (run(c := None)) c' = Some y \<Longrightarrow> pool y \<or> y = Idle c'"
    using placedD(7) [OF p] by (metis fun_upd_apply option.discI)
  show "\<And>a b y. (run(c := None)) a = Some y \<Longrightarrow> (run(c := None)) b = Some y \<Longrightarrow> a = b"
    using placedD(8) [OF p] by (metis fun_upd_apply option.discI)
qed

lemma placed_block:
  assumes p: "placed st run Q" and c: "run c = Some t" "pool t" and q: "q \<noteq> Q_run"
    and j: "\<And>u. q = Q_join u \<Longrightarrow> st u \<noteq> CANBOOT_TH_EXITED \<and> st u \<noteq> CANBOOT_TH_FREE"
  shows "placed (st(t := CANBOOT_TH_BLOCKED)) (run(c := None)) (Q(q := Q q @ [t]))"
proof (rule placed_leave_cpu [OF p c])
  have no: "\<And>q'. t \<notin> set (Q q')" using running_not_queued [OF p c(1)] .
  show "sep (Q(q := Q q @ [t]))" by (rule sep_push [OF placedD(1) [OF p] no])
  show "CANBOOT_TH_BLOCKED = CANBOOT_TH_RUNNABLE \<longleftrightarrow> t \<in> set ((Q(q := Q q @ [t])) Q_run)"
    using q no by simp
  show "CANBOOT_TH_BLOCKED = CANBOOT_TH_BLOCKED \<longleftrightarrow> (\<exists>q'. q' \<noteq> Q_run \<and> t \<in> set ((Q(q := Q q @ [t])) q'))"
    using q by auto
  show "\<And>u. u \<noteq> t \<Longrightarrow> pool u \<Longrightarrow> st u = CANBOOT_TH_EXITED \<or> st u = CANBOOT_TH_FREE
      \<Longrightarrow> (Q(q := Q q @ [t])) (Q_join u) = []"
    using placedD(6) [OF p] j by auto
qed (auto split: if_splits)

lemma placed_ready:
  assumes p: "placed st run Q" and c: "run c = Some t" "pool t"
  shows "placed (st(t := CANBOOT_TH_RUNNABLE)) (run(c := None)) (Q(Q_run := Q Q_run @ [t]))"
proof (rule placed_leave_cpu [OF p c])
  have no: "\<And>q'. t \<notin> set (Q q')" using running_not_queued [OF p c(1)] .
  show "sep (Q(Q_run := Q Q_run @ [t]))" by (rule sep_push [OF placedD(1) [OF p] no])
  show "CANBOOT_TH_RUNNABLE = CANBOOT_TH_BLOCKED
      \<longleftrightarrow> (\<exists>q'. q' \<noteq> Q_run \<and> t \<in> set ((Q(Q_run := Q Q_run @ [t])) q'))"
    using no by auto
  show "\<And>u. u \<noteq> t \<Longrightarrow> pool u \<Longrightarrow> st u = CANBOOT_TH_EXITED \<or> st u = CANBOOT_TH_FREE
      \<Longrightarrow> (Q(Q_run := Q Q_run @ [t])) (Q_join u) = []"
    using placedD(6) [OF p] by auto
qed (auto split: if_splits)

lemma placed_exit:
  assumes p: "placed st run Q" and c: "run c = Some t" "pool t"
    and x: "x = CANBOOT_TH_EXITED \<or> x = CANBOOT_TH_FREE" and "Q (Q_join t) = []"
  shows "placed (st(t := x)) (run(c := None)) Q"
proof (rule placed_leave_cpu [OF p c])
  have no: "\<And>q'. t \<notin> set (Q q')" using running_not_queued [OF p c(1)] .
  show "sep Q" by (rule placedD(1) [OF p])
  show "x \<noteq> CANBOOT_TH_RUNNING" using x by auto
  show "x = CANBOOT_TH_RUNNABLE \<longleftrightarrow> t \<in> set (Q Q_run)" using x no by auto
  show "x = CANBOOT_TH_BLOCKED \<longleftrightarrow> (\<exists>q. q \<noteq> Q_run \<and> t \<in> set (Q q))" using x no by auto
  show "\<And>u. u \<noteq> t \<Longrightarrow> pool u \<Longrightarrow> st u = CANBOOT_TH_EXITED \<or> st u = CANBOOT_TH_FREE \<Longrightarrow> Q (Q_join u) = []"
    using placedD(6) [OF p] by auto
qed (use assms(5) in auto)

lemma placed_wake:
  assumes p: "placed st run Q" and q: "q \<noteq> Q_run" "Q q = t # ts"
  shows "placed (st(t := CANBOOT_TH_RUNNABLE)) run (Q(q := ts, Q_run := Q Q_run @ [t]))"
proof -
  have tq: "t \<in> set (Q q)" using q by simp
  have t: "pool t" by (rule placedD(2) [OF p tq])
  then have st: "st t = CANBOOT_TH_BLOCKED" using placedD(4) [OF p] tq q(1) by blast
  have no: "\<And>q'. t \<notin> set ((Q(q := ts)) q')" by (rule sep_hd [OF placedD(1) [OF p] q(2)])
  have run: "run c \<noteq> Some t" for c using placedD(5) [OF p t] st by auto
  have Q_run: "(Q(q := ts)) Q_run = Q Q_run" using q(1) by simp
  have in_iff: "x \<in> set ((Q(q := ts)) q') \<longleftrightarrow> x \<in> set (Q q') \<and> x \<noteq> t" for x q'
    using no [of q'] q(2) by auto
  show ?thesis
  proof (rule placedI)
    show "sep (Q(q := ts, Q_run := Q Q_run @ [t]))"
      using sep_push [OF sep_tl [OF placedD(1) [OF p] q(2)] no, of Q_run] unfolding Q_run .
    fix q' x assume "x \<in> set ((Q(q := ts, Q_run := Q Q_run @ [t])) q')"
    then have "x = t \<or> x \<in> set (Q q')" using in_iff [of x q'] by (auto split: if_splits)
    then show "pool x" using placedD(2) [OF p] t by blast
  next
    fix x assume x: "pool x"
    show "(st(t := CANBOOT_TH_RUNNABLE)) x = CANBOOT_TH_RUNNABLE
        \<longleftrightarrow> x \<in> set ((Q(q := ts, Q_run := Q Q_run @ [t])) Q_run)"
      using placedD(3) [OF p x] by auto
    show "(st(t := CANBOOT_TH_RUNNABLE)) x = CANBOOT_TH_BLOCKED
        \<longleftrightarrow> (\<exists>q'. q' \<noteq> Q_run \<and> x \<in> set ((Q(q := ts, Q_run := Q Q_run @ [t])) q'))"
    proof -
      have "(\<exists>q'. q' \<noteq> Q_run \<and> x \<in> set ((Q(q := ts, Q_run := Q Q_run @ [t])) q'))
          \<longleftrightarrow> (\<exists>q'. q' \<noteq> Q_run \<and> x \<in> set (Q q')) \<and> x \<noteq> t"
        using in_iff [of x] by (metis fun_upd_other)
      then show ?thesis using placedD(4) [OF p x] by auto
    qed
    show "(st(t := CANBOOT_TH_RUNNABLE)) x = CANBOOT_TH_RUNNING \<longleftrightarrow> (\<exists>c. run c = Some x)"
      using placedD(5) [OF p x] run by auto
    show "(st(t := CANBOOT_TH_RUNNABLE)) x = CANBOOT_TH_EXITED \<or> (st(t := CANBOOT_TH_RUNNABLE)) x = CANBOOT_TH_FREE
        \<Longrightarrow> (Q(q := ts, Q_run := Q Q_run @ [t])) (Q_join x) = []"
      using placedD(6) [OF p x] q(2) by (auto split: if_splits)
  qed (use placedD(7, 8) [OF p] in blast)+
qed

lemma placed_create:
  assumes p: "placed st run Q" and t: "pool t" "st t = CANBOOT_TH_FREE"
  shows "placed (st(t := CANBOOT_TH_RUNNABLE)) run (Q(Q_run := Q Q_run @ [t]))"
proof -
  have no: "\<And>q'. t \<notin> set (Q q')" using finished_not_queued [OF p] t(2) by blast
  have run: "\<And>c. run c \<noteq> Some t" using placedD(5) [OF p t(1)] t(2) by auto
  show ?thesis
  proof (rule placedI)
    show "sep (Q(Q_run := Q Q_run @ [t]))" by (rule sep_push [OF placedD(1) [OF p] no])
    show "\<And>q' x. x \<in> set ((Q(Q_run := Q Q_run @ [t])) q') \<Longrightarrow> pool x"
      using placedD(2) [OF p] t(1) by (auto split: if_splits)
  next
    fix x assume x: "pool x"
    show "(st(t := CANBOOT_TH_RUNNABLE)) x = CANBOOT_TH_RUNNABLE \<longleftrightarrow> x \<in> set ((Q(Q_run := Q Q_run @ [t])) Q_run)"
      using placedD(3) [OF p x] by auto
    show "(st(t := CANBOOT_TH_RUNNABLE)) x = CANBOOT_TH_BLOCKED
        \<longleftrightarrow> (\<exists>q'. q' \<noteq> Q_run \<and> x \<in> set ((Q(Q_run := Q Q_run @ [t])) q'))"
      using placedD(4) [OF p x] no by auto
    show "(st(t := CANBOOT_TH_RUNNABLE)) x = CANBOOT_TH_RUNNING \<longleftrightarrow> (\<exists>c. run c = Some x)"
      using placedD(5) [OF p x] run by auto
    show "(st(t := CANBOOT_TH_RUNNABLE)) x = CANBOOT_TH_EXITED \<or> (st(t := CANBOOT_TH_RUNNABLE)) x = CANBOOT_TH_FREE
        \<Longrightarrow> (Q(Q_run := Q Q_run @ [t])) (Q_join x) = []"
      using placedD(6) [OF p x] by (auto split: if_splits)
  qed (use placedD(7, 8) [OF p] in blast)+
qed

lemma placed_reap:
  assumes p: "placed st run Q" and t: "st t = CANBOOT_TH_EXITED \<or> st t = CANBOOT_TH_FREE"
  shows "placed (st(t := CANBOOT_TH_FREE)) run Q"
proof (rule placedI)
  have no: "t \<notin> set (Q q)" for q using finished_not_queued [OF p t] .
  fix x assume x: "pool x"
  show "(st(t := CANBOOT_TH_FREE)) x = CANBOOT_TH_RUNNABLE \<longleftrightarrow> x \<in> set (Q Q_run)"
    using placedD(3) [OF p x] no by auto
  show "(st(t := CANBOOT_TH_FREE)) x = CANBOOT_TH_BLOCKED \<longleftrightarrow> (\<exists>q. q \<noteq> Q_run \<and> x \<in> set (Q q))"
    using placedD(4) [OF p x] no by auto
  show "(st(t := CANBOOT_TH_FREE)) x = CANBOOT_TH_RUNNING \<longleftrightarrow> (\<exists>c. run c = Some x)"
    using placedD(5) [OF p x] t by auto
  show "(st(t := CANBOOT_TH_FREE)) x = CANBOOT_TH_EXITED \<or> (st(t := CANBOOT_TH_FREE)) x = CANBOOT_TH_FREE
      \<Longrightarrow> Q (Q_join x) = []"
    using placedD(6) [OF p x] t by (auto split: if_splits)
qed (fact placedD [OF p])+

end
