(* ===== verification/Sched_Steps.thy ===== *)
theory Sched_Steps
  imports Sched_Inv
begin

text \<open>
  The invariant \<open>sched_inv\<close> over scheduler states. Inside a critical section it takes two other
  forms: \<open>mid\<close> while the thread that entered is still the current one, and \<open>off\<close> when it has given
  up its place and \<open>reschedule\<close> is about to pick the next one.
\<close>

section \<open>The invariant\<close>

definition states :: "sched \<Rightarrow> tid \<Rightarrow> canboot_thread_state" where
  "states s t = th_state (thr s t)"

definition running :: "sched \<Rightarrow> nat \<Rightarrow> tid option" where
  "running s c = (if online (cpus s c) then cpu_current (cpus s c) else None)"

abbreviation todo :: "sched \<Rightarrow> tid \<Rightarrow> act list" where
  "todo s t \<equiv> th_todo (thr s t)"

definition core :: "sched \<Rightarrow> (nat \<Rightarrow> tid option) \<Rightarrow> (qid \<Rightarrow> tid list) \<Rightarrow> bool" where
  "core s run Q \<longleftrightarrow> queues s Q \<and> placed (states s) run Q"

text \<open>What a thread that was switched out starts with when it is resumed, the lock being held.\<close>

fun resumes :: "act \<Rightarrow> bool" where
  "resumes Trampoline = True"
| "resumes Unlock = True"
| "resumes Gil_acquire = True"
| "resumes (Join t) = True"
| "resumes (Mutex_lock m) = True"
| "resumes (Once_wait v) = True"
| "resumes _ = False"

definition plain :: "act list \<Rightarrow> bool" where
  "plain as \<longleftrightarrow> Unlock \<notin> set as \<and> Trampoline \<notin> set as"

fun parked :: "act list \<Rightarrow> bool" where
  "parked (a # rest) = (resumes a \<and> plain rest)"
| "parked [] = False"

text \<open>Interpreter code is run, and the GIL released, only by its owner.\<close>

fun vm_ok :: "bool \<Rightarrow> act list \<Rightarrow> bool" where
  "vm_ok h (User vm # as) = ((vm \<longrightarrow> h) \<and> vm_ok h as)"
| "vm_ok h (Once v vm # as) = ((vm \<longrightarrow> h) \<and> vm_ok h as)"
| "vm_ok h (Gil_acquire # as) = vm_ok True as"
| "vm_ok h (Gil_release # as) = (h \<and> vm_ok False as)"
| "vm_ok h (Idle_loop # as) = False"
| "vm_ok h (Create fn arg # as) = (fn \<noteq> Idle_entry \<and> vm_ok h as)"
| "vm_ok h (_ # as) = vm_ok h as"
| "vm_ok h [] = True"

definition live :: "canboot_thread_state \<Rightarrow> bool" where
  "live x \<longleftrightarrow> x \<noteq> CANBOOT_TH_EXITED \<and> x \<noteq> CANBOOT_TH_FREE"

abbreviation owns_gil :: "sched \<Rightarrow> tid \<Rightarrow> bool" where
  "owns_gil s t \<equiv> canboot_gil_owned_by_current t s"

definition gil_ok :: "sched \<Rightarrow> tid set \<Rightarrow> bool" where
  "gil_ok s X \<longleftrightarrow> (\<forall>t. pool t \<longrightarrow> t \<notin> X \<longrightarrow> live (states s t) \<longrightarrow> vm_ok (owns_gil s t) (todo s t))"

definition cpus_ok :: "sched \<Rightarrow> bool" where
  "cpus_ok s \<longleftrightarrow> (\<forall>c. online (cpus s c) \<longrightarrow> c < CANBOOT_NR_CPUS \<and> cpu_idle (cpus s c) = Some (Idle c) \<and>
     cpu_current (cpus s c) \<noteq> None)"

definition home_tls :: "tid \<Rightarrow> tls_area" where
  "home_tls t = (case t of Pool i \<Rightarrow> if i = 0 then Boot_tls else Thread_tls i | Idle _ \<Rightarrow> Boot_tls)"

definition thread_ok :: "sched \<Rightarrow> bool" where
  "thread_ok s \<longleftrightarrow> (\<forall>t. pool t \<longrightarrow> live (states s t) \<longrightarrow>
        tls_base (thr s t) = Some (home_tls t) \<and> th_entry (thr s t) \<noteq> Idle_entry) \<and>
     (\<forall>c. online (cpus s c) \<longrightarrow> tls_base (thr s (Idle c)) = Some Boot_tls) \<and>
     (\<forall>c. \<not> online (cpus s c) \<longrightarrow> fs_base (cpus s c) = Some Boot_tls)"

definition fs_ok :: "sched \<Rightarrow> (nat \<Rightarrow> tid option) \<Rightarrow> bool" where
  "fs_ok s run \<longleftrightarrow> (\<forall>c t. run c = Some t \<longrightarrow> fs_base (cpus s c) = tls_base (thr s t))"

text \<open>The threads that are not running on a CPU other than \<open>c\<close> can be resumed.\<close>

definition parked_ok :: "sched \<Rightarrow> bool" where
  "parked_ok s \<longleftrightarrow> (\<forall>t. pool t \<longrightarrow> states s t = CANBOOT_TH_RUNNABLE \<or> states s t = CANBOOT_TH_BLOCKED \<longrightarrow> parked (todo s t))"

definition idle_ok :: "sched \<Rightarrow> (nat \<Rightarrow> tid option) \<Rightarrow> bool" where
  "idle_ok s run \<longleftrightarrow> (\<forall>c. online (cpus s c) \<longrightarrow> run c \<noteq> Some (Idle c) \<longrightarrow> parked (todo s (Idle c)))"

text \<open>An idle thread runs its loop and nothing else.\<close>

definition idle_acts :: "sched \<Rightarrow> bool" where
  "idle_acts s \<longleftrightarrow> (\<forall>c. set (todo s (Idle c)) \<subseteq> {Trampoline, Unlock, Iret, Idle_loop} \<and>
     (Trampoline \<in> set (todo s (Idle c)) \<longrightarrow> th_entry (thr s (Idle c)) = Idle_entry))"

definition plain_ok :: "sched \<Rightarrow> (nat \<Rightarrow> tid option) \<Rightarrow> bool" where
  "plain_ok s run \<longleftrightarrow> (\<forall>c t. run c = Some t \<longrightarrow> plain (todo s t))"

definition lock_ok :: "nat \<Rightarrow> sched \<Rightarrow> bool" where
  "lock_ok c s \<longleftrightarrow> g_sched s = Some c \<and> online (cpus s c) \<and> \<not> irq_on (cpus s c)"

definition sched_inv :: "sched \<Rightarrow> bool" where
  "sched_inv s \<longleftrightarrow> (\<exists>Q. core s (running s) Q) \<and> cpus_ok s \<and> thread_ok s \<and> fs_ok s (running s) \<and> gil_ok s {} \<and>
     parked_ok s \<and> idle_ok s (running s) \<and> idle_acts s \<and>
     (case g_sched s of None \<Rightarrow> plain_ok s (running s)
      | Some c \<Rightarrow> lock_ok c s \<and> plain_ok s ((running s)(c := None)) \<and>
          (\<exists>t. running s c = Some t \<and> parked (todo s t)))"

definition mid :: "nat \<Rightarrow> tid \<Rightarrow> sched \<Rightarrow> bool" where
  "mid c self s \<longleftrightarrow> (\<exists>Q. core s (running s) Q) \<and> cpus_ok s \<and> thread_ok s \<and> fs_ok s (running s) \<and> gil_ok s {self} \<and>
     parked_ok s \<and> idle_ok s (running s) \<and> idle_acts s \<and> lock_ok c s \<and> plain_ok s ((running s)(c := None)) \<and>
     running s c = Some self"

definition ambient :: "nat \<Rightarrow> sched \<Rightarrow> bool" where
  "ambient c s \<longleftrightarrow> cpus_ok s \<and> thread_ok s \<and> fs_ok s (running s) \<and> gil_ok s {} \<and> parked_ok s \<and>
     idle_ok s ((running s)(c := None)) \<and> idle_acts s \<and> lock_ok c s \<and> plain_ok s ((running s)(c := None))"

definition off :: "nat \<Rightarrow> sched \<Rightarrow> bool" where
  "off c s \<longleftrightarrow> (\<exists>Q. core s ((running s)(c := None)) Q) \<and> ambient c s"

lemmas inv_defs = cpus_ok_def thread_ok_def fs_ok_def gil_ok_def parked_ok_def idle_ok_def idle_acts_def plain_ok_def lock_ok_def

section \<open>Effects of the primitives\<close>

text \<open>Steps inside a critical section that may wake threads and otherwise touch nothing the invariant
  looks at.\<close>

definition wakes :: "sched \<Rightarrow> sched \<Rightarrow> bool" where
  "wakes s s' \<longleftrightarrow> cpus s' = cpus s \<and> g_sched s' = g_sched s \<and> g_gil_locked s' = g_gil_locked s \<and>
     g_gil_owner s' = g_gil_owner s \<and>
     (\<forall>t. th_todo (thr s' t) = th_todo (thr s t) \<and> tls_base (thr s' t) = tls_base (thr s t) \<and>
       th_entry (thr s' t) = th_entry (thr s t)) \<and>
     (\<forall>t. states s' t = states s t \<or> (states s t = CANBOOT_TH_BLOCKED \<and> states s' t = CANBOOT_TH_RUNNABLE))"

lemma wakes_refl: "wakes s s"
  by (simp add: wakes_def)

lemma wakes_trans: "wakes s s' \<Longrightarrow> wakes s' s'' \<Longrightarrow> wakes s s''"
  unfolding wakes_def by (metis canboot_thread_state.distinct(21))

lemma running_wakes: "wakes s s' \<Longrightarrow> running s' = running s"
  by (auto simp: wakes_def running_def)

lemma live_wakes: "wakes s s' \<Longrightarrow> live (states s' t) = live (states s t)"
  unfolding wakes_def live_def by (metis canboot_thread_state.distinct)

lemma mid_wakes:
  assumes "mid c self s" and w: "wakes s s'" and "core s' (running s) Q"
  shows "mid c self s'"
proof -
  note m = assms(1) [unfolded mid_def]
  have w': "cpus s' = cpus s" "g_sched s' = g_sched s" "\<And>t. todo s' t = todo s t"
    "\<And>t. tls_base (thr s' t) = tls_base (thr s t)" "\<And>t. th_entry (thr s' t) = th_entry (thr s t)" "\<And>t. owns_gil s' t = owns_gil s t"
    using w by (auto simp: wakes_def canboot_gil_owned_by_current_def)
  have "parked_ok s'"
    using m w unfolding parked_ok_def wakes_def by metis
  moreover have "gil_ok s' {self}" using m by (simp add: gil_ok_def live_wakes [OF w] w')
  moreover have "thread_ok s'" using m by (simp add: thread_ok_def live_wakes [OF w] w')
  ultimately show ?thesis
    using m assms(3) unfolding mid_def running_wakes [OF w]
    by (auto simp: cpus_ok_def fs_ok_def idle_ok_def idle_acts_def plain_ok_def lock_ok_def w')
qed

lemma wake_one_core:
  assumes "core s run Q" and "q \<noteq> Q_run"
  shows "core (canboot_sched_wake_one q s) run
      (case Q q of [] \<Rightarrow> Q | t # ts \<Rightarrow> Q(q := ts, Q_run := Q Q_run @ [t]))"
    and "wakes s (canboot_sched_wake_one q s)"
proof -
  have q: "queues s Q" and p: "placed (states s) run Q" using assms(1) by (simp_all add: core_def)
  show "core (canboot_sched_wake_one q s) run
      (case Q q of [] \<Rightarrow> Q | t # ts \<Rightarrow> Q(q := ts, Q_run := Q Q_run @ [t]))"
    and "wakes s (canboot_sched_wake_one q s)"
  proof (atomize (full), cases "Q q")
    case Nil
    with wq_pop_empty [OF q] assms(1) show "core (canboot_sched_wake_one q s) run
        (case Q q of [] \<Rightarrow> Q | t # ts \<Rightarrow> Q(q := ts, Q_run := Q Q_run @ [t])) \<and>
        wakes s (canboot_sched_wake_one q s)"
      by (simp add: canboot_sched_wake_one_def wakes_refl)
  next
    case (Cons t ts)
    note pop = queues_pop [OF q Cons]
    let ?s1 = "snd (wq_pop q s)"
    let ?s2 = "set_state t CANBOOT_TH_RUNNABLE ?s1"
    have one: "canboot_sched_wake_one q s = wq_push Q_run t ?s2"
      using pop(1) by (cases "wq_pop q s") (simp add: canboot_sched_wake_one_def make_runnable_def rq_push_def)
    have "queues ?s2 (Q(q := ts))"
      unfolding set_state_def by (rule queues_upd_thr [OF pop(2)]) simp_all
    moreover have "t \<notin> set ((Q(q := ts)) q')" for q'
      using sep_hd [OF placedD(1) [OF p] Cons] .
    ultimately have "queues (wq_push Q_run t ?s2) ((Q(q := ts))(Q_run := (Q(q := ts)) Q_run @ [t]))"
      by (rule queues_push)
    moreover have "(Q(q := ts)) Q_run = Q Q_run" using assms(2) by simp
    moreover have st: "states (wq_push Q_run t ?s2) = (states s)(t := CANBOOT_TH_RUNNABLE)"
      by (auto simp: states_def frame_simps set_state_def)
    moreover have blocked: "states s t = CANBOOT_TH_BLOCKED"
      using placedD(2, 4) [OF p, of t] Cons assms(2) by (metis list.set_intros(1))
    ultimately show "core (canboot_sched_wake_one q s) run
        (case Q q of [] \<Rightarrow> Q | t # ts \<Rightarrow> Q(q := ts, Q_run := Q Q_run @ [t])) \<and>
        wakes s (canboot_sched_wake_one q s)"
      using placed_wake [OF p assms(2) Cons] unfolding one core_def Cons
      by (auto simp: wakes_def frame_simps set_state_def)
  qed
qed


lemma wake_all_core:
  assumes "core s run Q" and "q \<noteq> Q_run"
  shows "\<exists>s'. canboot_sched_wake_all q s = Some s' \<and> core s' run (Q(q := [], Q_run := Q Q_run @ Q q)) \<and> wakes s s'"
  using assms
proof (induction "Q q" arbitrary: s Q)
  case Nil
  have "queues s Q" using Nil(2) by (simp add: core_def)
  then have "wq_pop q s = (None, s)" by (rule wq_pop_empty) (rule Nil(1) [symmetric])
  moreover have "Q(q := [], Q_run := Q Q_run @ Q q) = Q" using Nil(1) by auto
  ultimately show ?case
    using Nil(2) by (subst canboot_sched_wake_all.simps) (simp add: wakes_refl)
next
  case (Cons t ts)
  have q: "queues s Q" using Cons(3) by (simp add: core_def)
  note Qq = Cons(2) [symmetric]
  let ?Q = "Q(q := ts, Q_run := Q Q_run @ [t])"
  have one: "canboot_sched_wake_one q s = make_runnable t (snd (wq_pop q s))"
    using queues_pop(1) [OF q Qq] by (cases "wq_pop q s") (simp add: canboot_sched_wake_one_def)
  have "ts = ?Q q" using Cons(4) by simp
  moreover have "core (canboot_sched_wake_one q s) run ?Q"
    using wake_one_core(1) [OF Cons(3, 4)] unfolding Qq by simp
  ultimately obtain s' where s': "canboot_sched_wake_all q (canboot_sched_wake_one q s) = Some s'"
    "core s' run (?Q(q := [], Q_run := ?Q Q_run @ ?Q q))" "wakes (canboot_sched_wake_one q s) s'"
    using Cons(1) Cons(4) by blast
  have "canboot_sched_wake_all q s = Some s'"
    using queues_pop(1) [OF q Qq] s'(1) unfolding one
    by (subst canboot_sched_wake_all.simps) (cases "wq_pop q s"; simp)
  moreover have "?Q(q := [], Q_run := ?Q Q_run @ ?Q q) = Q(q := [], Q_run := Q Q_run @ Q q)"
    using Cons(4) by (auto simp: Qq)
  ultimately show ?case
    using s'(2) wakes_trans [OF wake_one_core(2) [OF Cons(3, 4)] s'(3)] by auto
qed

text \<open>The scheduler picks the next thread.\<close>

definition dispatch :: "nat \<Rightarrow> tid \<Rightarrow> sched \<Rightarrow> sched" where
  "dispatch c n s =
    (if Some n = cpu_current (cpus s c) then set_state n CANBOOT_TH_RUNNING s
     else
       let s2 = upd_thr n (\<lambda>x. x\<lparr> th_state := CANBOOT_TH_RUNNING, th_cpu := Some c \<rparr>) s;
           s3 = upd_cpu c (\<lambda>k. k\<lparr> cpu_current := Some n \<rparr>) s2 in
       if tls_base (thr s3 n) \<noteq> None
       then upd_cpu c (\<lambda>k. k\<lparr> fs_base := tls_base (thr s3 n) \<rparr>) s3 else s3)"

lemma reschedule_dispatch:
  "reschedule c s = (case wq_pop Q_run s of
     (Some t, s1) \<Rightarrow> dispatch c t s1
   | (None, s1) \<Rightarrow> (case cpu_idle (cpus s1 c) of None \<Rightarrow> s1 | Some i \<Rightarrow> dispatch c i s1))"
proof -
  have "cpus (snd (wq_pop Q_run s)) = cpus s" by (simp add: frame_simps)
  then show ?thesis
    by (cases "wq_pop Q_run s")
      (auto simp: reschedule_def rq_pop_def dispatch_def Let_def split: option.split)
qed

lemma dispatch_effect:
  assumes "tls_base (thr s n) \<noteq> None" and "fs_ok s (running s)" and "online (cpus s c)"
  shows "states (dispatch c n s) = (states s)(n := CANBOOT_TH_RUNNING)"
    and "running (dispatch c n s) = (running s)(c := Some n)"
    and "todo (dispatch c n s) t = todo s t" and "tls_base (thr (dispatch c n s) t) = tls_base (thr s t)"
    and "g_sched (dispatch c n s) = g_sched s" and "owns_gil (dispatch c n s) t = owns_gil s t"
    and "online (cpus (dispatch c n s) c') = online (cpus s c')"
    and "cpu_idle (cpus (dispatch c n s) c') = cpu_idle (cpus s c')"
    and "cpu_current (cpus (dispatch c n s) c') = (if c' = c then Some n else cpu_current (cpus s c'))"
    and "irq_on (cpus (dispatch c n s) c') = irq_on (cpus s c')"
    and "fs_base (cpus (dispatch c n s) c') = (if c' = c then tls_base (thr s n) else fs_base (cpus s c'))"
    and "queues s Q \<Longrightarrow> queues (dispatch c n s) Q"
    and "th_entry (thr (dispatch c n s) t) = th_entry (thr s t)"
  using assms
  by (auto simp: dispatch_def Let_def states_def running_def fun_eq_iff frame_simps set_state_def fs_ok_def
      canboot_gil_owned_by_current_def elim!: queues_frame)

lemma dispatch_inv:
  assumes o: "ambient c s" and q: "queues s Q"
    and p: "placed ((states s)(n := CANBOOT_TH_RUNNING)) ((running s)(c := Some n)) Q"
    and n: "parked (todo s n)" "tls_base (thr s n) \<noteq> None" "pool n \<Longrightarrow> live (states s n)"
  shows "sched_inv (dispatch c n s)"
proof -
  note o = assms(1) [unfolded ambient_def]
  have on: "online (cpus s c)" "g_sched s = Some c" "\<not> irq_on (cpus s c)" and fs: "fs_ok s (running s)"
    using o by (simp_all add: lock_ok_def)
  note e = dispatch_effect [OF n(2) fs on(1)]
  let ?s = "dispatch c n s"
  have live: "pool t \<Longrightarrow> live (states ?s t) = live (states s t)" for t
    using n(3) by (auto simp: e(1) live_def)
  have "\<exists>Q. core ?s (running ?s) Q"
    unfolding core_def e(1, 2) using e(12) [OF q] p by blast
  moreover have "cpus_ok ?s" using o by (simp add: cpus_ok_def e)
  moreover have "thread_ok ?s"
  proof -
    have "\<not> online (cpus ?s c') \<Longrightarrow> c' \<noteq> c" for c' using on(1) by (auto simp: e)
    then show ?thesis using o live unfolding thread_ok_def e(4, 7, 11, 13) by metis
  qed
  moreover have "fs_ok ?s (running ?s)" using fs by (auto simp: fs_ok_def e split: if_splits)
  moreover have "gil_ok ?s {}" using o live unfolding gil_ok_def e(3, 6) by metis
  moreover have "parked_ok ?s"
    using o unfolding parked_ok_def by (simp add: e(1, 3))
  moreover have "idle_ok ?s (running ?s)"
    using o unfolding idle_ok_def e(2, 3, 7) by (metis fun_upd_apply option.discI)
  moreover have "idle_acts ?s" using o unfolding idle_acts_def e(3, 13) by blast
  moreover have "lock_ok c ?s" using o by (simp add: lock_ok_def e)
  moreover have "plain_ok ?s ((running ?s)(c := None))"
    using o unfolding plain_ok_def e(2, 3) by simp
  moreover have "running ?s c = Some n" "parked (todo ?s n)" using n(1) by (simp_all add: e)
  ultimately show ?thesis using on(2) by (auto simp: sched_inv_def e(5))
qed

lemma ambient_frame:
  assumes "ambient c s" and "cpus s' = cpus s" "g_sched s' = g_sched s" "states s' = states s"
    "\<And>x. todo s' x = todo s x" "\<And>x. tls_base (thr s' x) = tls_base (thr s x)" "\<And>x. owns_gil s' x = owns_gil s x"
    "\<And>x. th_entry (thr s' x) = th_entry (thr s x)"
  shows "ambient c s'"
proof -
  have "running s' = running s" using assms(2) by (auto simp: running_def)
  with assms show ?thesis by (simp add: ambient_def inv_defs)
qed

lemma reschedule_inv:
  assumes "off c s"
  shows "sched_inv (reschedule c s)"
proof -
  have a: "ambient c s" using assms by (simp add: off_def)
  note o = a [unfolded ambient_def]
  obtain Q where q: "queues s Q" and p: "placed (states s) ((running s)(c := None)) Q"
    using assms by (auto simp: core_def off_def)
  have on: "online (cpus s c)" using o by (simp add: lock_ok_def)
  then have idle: "cpu_idle (cpus s c) = Some (Idle c)" using o by (simp add: cpus_ok_def)
  show ?thesis
  proof (cases "Q Q_run")
    case Nil
    have "placed ((states s)(Idle c := CANBOOT_TH_RUNNING)) ((running s)(c := Some (Idle c))) Q"
      using placed_idle [OF p, of c] by simp
    moreover have "parked (todo s (Idle c))" "tls_base (thr s (Idle c)) \<noteq> None"
      using o on by (auto simp: idle_ok_def thread_ok_def)
    ultimately have "sched_inv (dispatch c (Idle c) s)" by (intro dispatch_inv [OF a q]) simp_all
    then show ?thesis using wq_pop_empty [OF q Nil] idle by (simp add: reschedule_dispatch)
  next
    case (Cons t ts)
    let ?s1 = "snd (wq_pop Q_run s)"
    have same: "cpus ?s1 = cpus s" "g_sched ?s1 = g_sched s" "states ?s1 = states s" "running ?s1 = running s"
      "todo ?s1 x = todo s x" "tls_base (thr ?s1 x) = tls_base (thr s x)" "owns_gil ?s1 x = owns_gil s x"
      "th_entry (thr ?s1 x) = th_entry (thr s x)" for x
      by (auto simp: frame_simps states_def running_def canboot_gil_owned_by_current_def)
    have tq: "t \<in> set (Q Q_run)" using Cons by simp
    have t: "pool t" by (rule placedD(2) [OF p tq])
    then have st: "states s t = CANBOOT_TH_RUNNABLE" using placedD(3) [OF p] tq by blast
    have live: "live (states s t)" using st by (simp add: live_def)
    have p1: "placed ((states ?s1)(t := CANBOOT_TH_RUNNING)) ((running ?s1)(c := Some t)) (Q(Q_run := ts))"
      using placed_pop_run [OF p _ Cons, of c] by (simp add: same)
    have pk: "parked (todo s t)" "tls_base (thr s t) \<noteq> None"
      using o t st live by (auto simp: parked_ok_def thread_ok_def)
    have "sched_inv (dispatch c t ?s1)"
      using pk live
      by (intro dispatch_inv [OF ambient_frame [OF a same(1-3, 5-8)] queues_pop(2) [OF q Cons] p1])
        (simp_all add: same)
    then show ?thesis
      using queues_pop(1) [OF q Cons] by (cases "wq_pop Q_run s") (simp add: reschedule_dispatch)
  qed
qed

lemma reschedule_not_live:
  assumes o: "off c s" and t: "pool t" "\<not> live (states s t)"
  shows "\<not> live (states (reschedule c s) t)"
proof -
  obtain Q where q: "queues s Q" and p: "placed (states s) ((running s)(c := None)) Q"
    using o by (auto simp: core_def off_def)
  have "online (cpus s c)" using o by (simp add: off_def ambient_def lock_ok_def)
  then have idle: "cpu_idle (cpus s c) = Some (Idle c)" using o by (simp add: off_def ambient_def cpus_ok_def)
  have other: "states (dispatch c n s1) t = states s1 t" if "n \<noteq> t" for n s1
    using that by (simp add: dispatch_def Let_def states_def set_state_def frame_simps)
  show ?thesis
  proof (cases "Q Q_run")
    case Nil
    have "Idle c \<noteq> t" using t(1) by auto
    then show ?thesis using wq_pop_empty [OF q Nil] idle t(2) by (simp add: reschedule_dispatch other)
  next
    case (Cons n ns)
    then have "states s n = CANBOOT_TH_RUNNABLE" using placedD(2, 3) [OF p] by (metis list.set_intros(1))
    then have "n \<noteq> t" using t(2) by (auto simp: live_def)
    moreover have "states (snd (wq_pop Q_run s)) t = states s t" by (simp add: states_def frame_simps)
    ultimately show ?thesis
      using queues_pop(1) [OF q Cons] t(2) by (cases "wq_pop Q_run s") (simp add: reschedule_dispatch other)
  qed
qed

end
