(* ===== verification/Sched_Acts.thy ===== *)
theory Sched_Acts
  imports Sched_Steps
begin

text \<open>
  Every step of the scheduler keeps \<open>sched_inv\<close>: the rules for entering, leaving and blocking in a
  critical section, one lemma per function, and the induction over reachable states.
\<close>

section \<open>Entering and leaving\<close>

definition code_ok :: "sched \<Rightarrow> tid \<Rightarrow> act list \<Rightarrow> bool" where
  "code_ok s self as \<longleftrightarrow> (pool self \<longrightarrow> vm_ok (owns_gil s self) as) \<and>
     (\<not> pool self \<longrightarrow> set as \<subseteq> {Trampoline, Unlock, Iret, Idle_loop} \<and> Trampoline \<notin> set as)"

lemma enter_frame [simp]:
  "states (enter c self s) = states s" "running (enter c self s) = running s"
  "todo (enter c self s) t = todo s t" "owns_gil (enter c self s) t = owns_gil s t"
  "mutexes (enter c self s) = mutexes s" "onces (enter c self s) = onces s" "conds (enter c self s) = conds s"
  "g_gil_locked (enter c self s) = g_gil_locked s" "g_gil_owner (enter c self s) = g_gil_owner s"
  "th_id (thr (enter c self s) t) = th_id (thr s t)" "th_state (thr (enter c self s) t) = th_state (thr s t)"
  "g_sched (enter c self s) = Some c" "g_runq (enter c self s) = g_runq s"
  "th_entry (thr (enter c self s) t) = th_entry (thr s t)"
  "th_retval (thr (enter c self s) t) = th_retval (thr s t)"
  "tls_base (thr (enter c self s) t) = tls_base (thr s t)"
  by (auto simp: enter_def canboot_sched_lock_def states_def running_def fun_eq_iff frame_simps
      canboot_gil_owned_by_current_def)

lemma midD:
  assumes "mid c self s"
  shows "cpus_ok s" "thread_ok s" "fs_ok s (running s)" "gil_ok s {self}" "parked_ok s" "idle_ok s (running s)"
    "idle_acts s" "lock_ok c s" "plain_ok s ((running s)(c := None))" "running s c = Some self"
  using assms by (simp_all add: mid_def)

lemma mid_core:
  assumes "mid c self s"
  obtains Q where "core s (running s) Q"
  using assms unfolding mid_def by blast

lemma sched_invD:
  assumes "sched_inv s"
  shows "cpus_ok s" "thread_ok s" "fs_ok s (running s)" "gil_ok s {}" "parked_ok s" "idle_ok s (running s)"
    "idle_acts s"
  using assms by (simp_all add: sched_inv_def)

lemma sched_inv_core:
  assumes "sched_inv s"
  obtains Q where "core s (running s) Q"
  using assms unfolding sched_inv_def by blast

lemma running_pool_or_idle:
  assumes "core s (running s) Q" and "running s c = Some self"
  shows "pool self \<or> self = Idle c"
  using placedD(7) assms unfolding core_def by blast

lemma running_state:
  assumes "core s (running s) Q" and "running s c = Some self" and "pool self"
  shows "states s self = CANBOOT_TH_RUNNING"
  using placedD(5) assms unfolding core_def by blast

lemma enter_mid:
  assumes i: "sched_inv s" and r: "running s c = Some self" and g: "g_sched s = None \<or> g_sched s = Some c"
  shows "mid c self (enter c self s)"
proof (cases "g_sched s = Some c")
  case True
  then show ?thesis using i r by (auto simp: sched_inv_def mid_def enter_def gil_ok_def)
next
  case False
  with g have none: "g_sched s = None" by simp
  note d = sched_invD [OF i]
  have pl: "plain_ok s (running s)" using i by (simp add: sched_inv_def none)
  obtain Q where Q: "core s (running s) Q" using i by (rule sched_inv_core)
  let ?s = "canboot_sched_lock c self s"
  have e: "enter c self s = ?s" using False by (simp add: enter_def)
  have same: "todo ?s t = todo s t" "tls_base (thr ?s t) = tls_base (thr s t)" "owns_gil ?s t = owns_gil s t"
    "th_entry (thr ?s t) = th_entry (thr s t)" "states ?s = states s" "running ?s = running s"
    "online (cpus ?s c') = online (cpus s c')" "cpu_idle (cpus ?s c') = cpu_idle (cpus s c')"
    "cpu_current (cpus ?s c') = cpu_current (cpus s c')" "fs_base (cpus ?s c') = fs_base (cpus s c')" for t c'
    by (auto simp: canboot_sched_lock_def frame_simps states_def running_def fun_eq_iff
        canboot_gil_owned_by_current_def)
  have "queues ?s Q" if "queues s Q" for Q
    using that by (auto simp: canboot_sched_lock_def frame_simps elim!: queues_frame)
  then have core: "core ?s (running ?s) Q" using Q by (simp add: core_def same)
  have "online (cpus s c)" using r by (auto simp: running_def split: if_splits)
  then have lock: "lock_ok c ?s" by (simp add: lock_ok_def same) (simp add: canboot_sched_lock_def frame_simps)
  have "cpus_ok ?s" "thread_ok ?s" "fs_ok ?s (running ?s)" "parked_ok ?s" "idle_ok ?s (running ?s)" "idle_acts ?s"
    using d by (simp_all add: cpus_ok_def thread_ok_def fs_ok_def parked_ok_def idle_ok_def idle_acts_def same)
  moreover have "gil_ok ?s {self}" using d(4) by (simp add: gil_ok_def same)
  moreover have "plain_ok ?s ((running ?s)(c := None))" using pl by (simp add: plain_ok_def same)
  ultimately show ?thesis using core lock r unfolding mid_def e same(6) by blast
qed

lemma leave_inv:
  assumes m: "mid c self s" and pl: "plain rest" and ok: "code_ok s self rest"
  shows "sched_inv (leave c self rest s)"
proof -
  note d = midD [OF m]
  obtain Q where Q: "core s (running s) Q" using m by (rule mid_core)
  let ?s = "leave c self rest s"
  have same: "tls_base (thr ?s t) = tls_base (thr s t)" "owns_gil ?s t = owns_gil s t"
    "th_entry (thr ?s t) = th_entry (thr s t)" "states ?s = states s" "running ?s = running s"
    "online (cpus ?s c') = online (cpus s c')" "cpu_idle (cpus ?s c') = cpu_idle (cpus s c')"
    "cpu_current (cpus ?s c') = cpu_current (cpus s c')" "fs_base (cpus ?s c') = fs_base (cpus s c')"
    "todo ?s t = (if t = self then rest else todo s t)" "g_sched ?s = None" for t c'
    by (auto simp: leave_def canboot_sched_unlock_def set_todo_def frame_simps states_def running_def fun_eq_iff
        canboot_gil_owned_by_current_def)
  have "queues ?s Q" if "queues s Q" for Q
    using that by (auto simp: leave_def canboot_sched_unlock_def set_todo_def frame_simps elim!: queues_frame)
  then have core: "core ?s (running ?s) Q" using Q by (simp add: core_def same)
  have others: "c' = c" if "running s c' = Some self" for c'
    using placedD(8) Q d(10) that unfolding core_def by blast
  have "pool self \<Longrightarrow> states s self = CANBOOT_TH_RUNNING" by (rule running_state [OF Q d(10)])
  then have "parked_ok ?s" using d(5) unfolding parked_ok_def same by auto
  moreover have "gil_ok ?s {}" using d(4) ok unfolding gil_ok_def same code_ok_def by auto
  moreover have "idle_ok ?s (running ?s)"
    unfolding idle_ok_def same(5, 6, 10)
  proof (intro allI impI)
    fix c' assume c': "online (cpus s c')" "running s c' \<noteq> Some (Idle c')"
    then have "Idle c' \<noteq> self" using running_pool_or_idle [OF Q d(10)] d(10) by auto
    then show "parked (if Idle c' = self then rest else todo s (Idle c'))"
      using d(6) c' by (simp add: idle_ok_def)
  qed
  moreover have "idle_acts ?s" using d(7) ok unfolding idle_acts_def same code_ok_def by auto
  moreover have "plain_ok ?s (running ?s)"
    unfolding plain_ok_def same(5, 10)
  proof (intro allI impI)
    fix c' t assume t: "running s c' = Some t"
    show "plain (if t = self then rest else todo s t)"
    proof (cases "t = self")
      case False
      then have "c' \<noteq> c" using t d(10) by auto
      then have "((running s)(c := None)) c' = Some t" using t by simp
      then have "plain (todo s t)" using d(9) unfolding plain_ok_def by blast
      with False show ?thesis by simp
    qed (use pl in simp)
  qed
  moreover have "cpus_ok ?s" "thread_ok ?s" "fs_ok ?s (running ?s)"
    using d by (simp_all add: cpus_ok_def thread_ok_def fs_ok_def same)
  ultimately show ?thesis using core unfolding sched_inv_def same(11) option.case by blast
qed

text \<open>Giving up the CPU.\<close>

lemma off_from_mid:
  assumes m: "mid c self s"
    and same: "cpus s' = cpus s" "g_sched s' = g_sched s" "\<And>t. todo s' t = todo s t"
      "\<And>t. tls_base (thr s' t) = tls_base (thr s t)" "\<And>t. owns_gil s' t = owns_gil s t"
      "\<And>t. th_entry (thr s' t) = th_entry (thr s t)"
    and st: "\<And>t. t \<noteq> self \<Longrightarrow> states s' t = states s t"
    and core: "core s' ((running s)(c := None)) Q"
    and self: "pool self \<Longrightarrow> states s' self = CANBOOT_TH_RUNNABLE \<or> states s' self = CANBOOT_TH_BLOCKED \<Longrightarrow>
        parked (todo s self)"
      "pool self \<Longrightarrow> live (states s' self) \<Longrightarrow> vm_ok (owns_gil s self) (todo s self)"
      "\<not> pool self \<Longrightarrow> parked (todo s self)"
  shows "off c s'"
proof -
  note d = midD [OF m]
  have r: "running s' = running s" using same(1) by (auto simp: running_def)
  obtain Q0 where Q0: "core s (running s) Q0" using m by (rule mid_core)
  have live: "live (states s t)" if "pool t" "live (states s' t)" for t
  proof (cases "t = self")
    case True
    then show ?thesis using running_state [OF Q0 d(10)] that by (simp add: live_def)
  qed (use st that in simp)
  have "thread_ok s'" using d(2) live unfolding thread_ok_def same by blast
  moreover have "gil_ok s' {}" using d(4) live self(2) unfolding gil_ok_def same by blast
  moreover have "parked_ok s'" using d(5) self(1) st unfolding parked_ok_def same by metis
  moreover have "idle_ok s' ((running s')(c := None))"
    unfolding idle_ok_def same r
  proof (intro allI impI)
    fix c' assume c': "online (cpus s c')" "((running s)(c := None)) c' \<noteq> Some (Idle c')"
    show "parked (todo s (Idle c'))"
    proof (cases "running s c' = Some (Idle c')")
      case True
      then have "c' = c" using c'(2) by (auto split: if_splits)
      with True d(10) self(3) show ?thesis by auto
    qed (use d(6) c' in \<open>simp add: idle_ok_def\<close>)
  qed
  moreover have "cpus_ok s'" "fs_ok s' (running s')" "idle_acts s'" "lock_ok c s'"
    "plain_ok s' ((running s')(c := None))"
    using d by (simp_all add: cpus_ok_def fs_ok_def idle_acts_def lock_ok_def plain_ok_def same r)
  ultimately show ?thesis using core unfolding off_def ambient_def r by blast
qed

lemma block_inv:
  assumes m: "mid c self s" and p: "pool self" and pk: "parked (todo s self)"
    and vm: "vm_ok (owns_gil s self) (todo s self)" and q: "q \<noteq> Q_run"
    and j: "\<And>u. q = Q_join u \<Longrightarrow> states s u \<noteq> CANBOOT_TH_EXITED \<and> states s u \<noteq> CANBOOT_TH_FREE"
  shows "sched_inv (canboot_sched_block_on c self q s)"
proof -
  let ?s1 = "set_state self CANBOOT_TH_BLOCKED s"
  let ?s = "wq_push q self ?s1"
  obtain Q where Q: "queues s Q" "placed (states s) (running s) Q" and r: "running s c = Some self"
    using m by (auto simp: mid_def core_def)
  have "queues ?s1 Q" using Q(1) unfolding set_state_def by (rule queues_upd_thr) simp_all
  then have "queues ?s (Q(q := Q q @ [self]))"
    by (rule queues_push) (rule running_not_queued [OF Q(2) r])
  moreover have st: "states ?s = (states s)(self := CANBOOT_TH_BLOCKED)"
    by (auto simp: states_def frame_simps set_state_def)
  moreover have "placed ((states s)(self := CANBOOT_TH_BLOCKED)) ((running s)(c := None)) (Q(q := Q q @ [self]))"
    using placed_block [OF Q(2) r p q] j by blast
  ultimately have core: "core ?s ((running s)(c := None)) (Q(q := Q q @ [self]))"
    by (simp add: core_def)
  have "off c ?s"
    by (rule off_from_mid [OF m _ _ _ _ _ _ _ core])
      (use pk vm p in \<open>auto simp: frame_simps set_state_def states_def canboot_gil_owned_by_current_def\<close>)
  then show ?thesis unfolding canboot_sched_block_on_def by (rule reschedule_inv)
qed

lemma ready_inv:
  assumes m: "mid c self s" and p: "pool self" and pk: "parked (todo s self)"
    and vm: "vm_ok (owns_gil s self) (todo s self)"
  shows "sched_inv (reschedule c (make_runnable self s))"
proof -
  let ?s1 = "set_state self CANBOOT_TH_RUNNABLE s"
  let ?s = "make_runnable self s"
  have s: "?s = wq_push Q_run self ?s1" by (simp add: make_runnable_def rq_push_def)
  obtain Q where Q: "queues s Q" "placed (states s) (running s) Q" and r: "running s c = Some self"
    using m by (auto simp: mid_def core_def)
  have "queues ?s1 Q" using Q(1) unfolding set_state_def by (rule queues_upd_thr) simp_all
  then have "queues ?s (Q(Q_run := Q Q_run @ [self]))"
    unfolding s by (rule queues_push) (rule running_not_queued [OF Q(2) r])
  moreover have st: "states ?s = (states s)(self := CANBOOT_TH_RUNNABLE)"
    unfolding s by (auto simp: states_def frame_simps set_state_def)
  ultimately have core: "core ?s ((running s)(c := None)) (Q(Q_run := Q Q_run @ [self]))"
    using placed_ready [OF Q(2) r p] by (simp add: core_def)
  have "off c ?s"
    by (rule off_from_mid [OF m _ _ _ _ _ _ _ core])
      (use pk vm p in \<open>auto simp: s frame_simps set_state_def states_def canboot_gil_owned_by_current_def\<close>)
  then show ?thesis by (rule reschedule_inv)
qed

lemma idle_reschedule_inv:
  assumes m: "mid c self s" and p: "\<not> pool self" and pk: "parked (todo s self)"
  shows "sched_inv (reschedule c s)"
proof -
  obtain Q where Q: "queues s Q" "placed (states s) (running s) Q" and r: "running s c = Some self"
    using m by (auto simp: mid_def core_def)
  have "self = Idle c" using placedD(7) [OF Q(2) r] p by blast
  then have "core s ((running s)(c := None)) Q"
    using Q placed_off [OF Q(2)] r by (simp add: core_def)
  then have "off c s" by (rule off_from_mid [OF m refl refl refl refl refl refl refl]) (use p pk in auto)
  then show ?thesis by (rule reschedule_inv)
qed

text \<open>Changes inside the critical section that the invariant does not see.\<close>

lemma mid_quiet:
  assumes "mid c self s" and "wakes s s'" and "states s' = states s" and "\<And>Q. queues s Q \<Longrightarrow> queues s' Q"
  shows "mid c self s'"
proof -
  obtain Q where "core s (running s) Q" using assms(1) by (auto simp: mid_def)
  then have "core s' (running s) Q" using assms(3, 4) by (simp add: core_def)
  then show ?thesis by (rule mid_wakes [OF assms(1, 2)])
qed

lemma mid_wake_one:
  assumes "mid c self s" and "q \<noteq> Q_run"
  shows "mid c self (canboot_sched_wake_one q s)" and "wakes s (canboot_sched_wake_one q s)"
proof -
  obtain Q where Q: "core s (running s) Q" using assms(1) by (rule mid_core)
  show "wakes s (canboot_sched_wake_one q s)" by (rule wake_one_core(2) [OF Q assms(2)])
  then show "mid c self (canboot_sched_wake_one q s)"
    by (rule mid_wakes [OF assms(1) _ wake_one_core(1) [OF Q assms(2)]])
qed

lemma mid_wake_all:
  assumes "mid c self s" and "q \<noteq> Q_run"
  obtains s' where "canboot_sched_wake_all q s = Some s'" and "mid c self s'" and "wakes s s'"
    and "\<exists>Q. core s' (running s) Q \<and> Q q = []"
proof -
  obtain Q where Q: "core s (running s) Q" using assms(1) by (rule mid_core)
  from wake_all_core [OF this assms(2)] obtain s' where s': "canboot_sched_wake_all q s = Some s'"
    "core s' (running s) (Q(q := [], Q_run := Q Q_run @ Q q))" "wakes s s'" by blast
  then show ?thesis using mid_wakes [OF assms(1) s'(3, 2)] assms(2) by (intro that) auto
qed

lemma owns_wakes: "wakes s s' \<Longrightarrow> owns_gil s' t = owns_gil s t"
  by (simp add: wakes_def canboot_gil_owned_by_current_def)

lemma set_rc_quiet: "wakes s (set_rc t v s)" "states (set_rc t v s) = states s" "queues s Q \<Longrightarrow> queues (set_rc t v s) Q"
  by (auto simp: wakes_def set_rc_def frame_simps states_def elim!: queues_upd_thr)

lemma mid_set_rc: "mid c self s \<Longrightarrow> mid c self (set_rc t v s)"
  by (erule mid_quiet [OF _ set_rc_quiet])

lemma owns_set_rc [simp]: "owns_gil (set_rc t v s) x = owns_gil s x"
  by (simp add: set_rc_def frame_simps canboot_gil_owned_by_current_def)

section \<open>The next act of a running thread\<close>

lemma head_facts:
  assumes i: "sched_inv s" and r: "running s c = Some self" and td: "todo s self = a # rest"
  shows "plain rest" and "pool self \<Longrightarrow> vm_ok (owns_gil s self) (a # rest)"
    and "g_sched s = Some c \<Longrightarrow> resumes a" and "g_sched s \<noteq> Some c \<Longrightarrow> plain (a # rest)"
    and "\<not> pool self \<Longrightarrow> a \<in> {Trampoline, Unlock, Iret, Idle_loop} \<and> set rest \<subseteq> {Trampoline, Unlock, Iret, Idle_loop}
      \<and> self = Idle c \<and> (a = Trampoline \<longrightarrow> th_entry (thr s self) = Idle_entry)"
proof -
  note d = sched_invD [OF i]
  obtain Q where Q: "core s (running s) Q" using i by (rule sched_inv_core)
  show "resumes a" if "g_sched s = Some c"
    using i r td that by (auto simp: sched_inv_def)
  show free: "plain (a # rest)" if "g_sched s \<noteq> Some c"
  proof (cases "g_sched s")
    case None
    then have "plain_ok s (running s)" using i by (simp add: sched_inv_def)
    then have "plain (todo s self)" using r unfolding plain_ok_def by blast
    then show ?thesis by (simp add: td)
  next
    case (Some c')
    then have "plain_ok s ((running s)(c' := None))" using i by (simp add: sched_inv_def)
    moreover have "((running s)(c' := None)) c = Some self" using r Some that by simp
    ultimately have "plain (todo s self)" unfolding plain_ok_def by blast
    then show ?thesis by (simp add: td)
  qed
  show "plain rest"
  proof (cases "g_sched s = Some c")
    case True
    then show ?thesis using i r td by (auto simp: sched_inv_def)
  next
    case False
    from free [OF this] show ?thesis by (simp add: plain_def)
  qed
  show "pool self \<Longrightarrow> vm_ok (owns_gil s self) (a # rest)"
    using d(4) running_state [OF Q r] td by (auto simp: gil_ok_def live_def)
  show "\<not> pool self \<Longrightarrow> a \<in> {Trampoline, Unlock, Iret, Idle_loop} \<and> set rest \<subseteq> {Trampoline, Unlock, Iret, Idle_loop}
      \<and> self = Idle c \<and> (a = Trampoline \<longrightarrow> th_entry (thr s self) = Idle_entry)"
  proof -
    assume "\<not> pool self"
    then have self: "self = Idle c" using running_pool_or_idle [OF Q r] by blast
    then have "set (a # rest) \<subseteq> {Trampoline, Unlock, Iret, Idle_loop} \<and>
        (Trampoline \<in> set (a # rest) \<longrightarrow> th_entry (thr s self) = Idle_entry)"
      using d(7) td unfolding idle_acts_def by metis
    with self show ?thesis by auto
  qed
qed

text \<open>What a critical section starts from.\<close>

lemma act_start:
  assumes i: "sched_inv s" and r: "running s c = Some self" and td: "todo s self = a # rest"
    and g: "g_sched s = None \<or> g_sched s = Some c" and a: "a \<notin> {Trampoline, Unlock, Iret, Idle_loop}"
  shows "mid c self (enter c self s)" "plain rest" "pool self" "vm_ok (owns_gil s self) (a # rest)"
    "resumes a \<Longrightarrow> parked (todo s self)"
  using enter_mid [OF i r g] head_facts [OF i r td] a by (auto simp: td)

lemma code_ok_pool: "pool self \<Longrightarrow> code_ok s self as \<longleftrightarrow> vm_ok (owns_gil s self) as"
  by (simp add: code_ok_def)

lemma mid_gil:
  assumes m: "mid c self s"
    and others: "\<And>t. t \<noteq> self \<Longrightarrow> (b \<and> own = Some t) = (g_gil_locked s \<and> g_gil_owner s = Some t)"
  shows "mid c self (s\<lparr> g_gil_locked := b, g_gil_owner := own \<rparr>)"
proof -
  let ?s = "s\<lparr> g_gil_locked := b, g_gil_owner := own \<rparr>"
  have same: "states ?s = states s" "running ?s = running s" by (auto simp: states_def running_def fun_eq_iff)
  note d = midD [OF m]
  obtain Q where "core s (running s) Q" using m by (rule mid_core)
  then have "core ?s (running ?s) Q" by (auto simp: core_def same elim!: queues_frame)
  moreover have "gil_ok ?s {self}"
    using d(4) others unfolding gil_ok_def same canboot_gil_owned_by_current_def by simp
  moreover have "cpus_ok ?s" "thread_ok ?s" "fs_ok ?s (running ?s)" "parked_ok ?s" "idle_ok ?s (running ?s)"
    "idle_acts ?s" "lock_ok c ?s" "plain_ok ?s ((running ?s)(c := None))" "running ?s c = Some self"
    using d by (simp_all add: cpus_ok_def thread_ok_def fs_ok_def parked_ok_def idle_ok_def idle_acts_def
        lock_ok_def plain_ok_def same)
  ultimately show ?thesis unfolding mid_def by blast
qed

lemma gil_acquire_inv:
  assumes "sched_inv s" "running s c = Some self" "todo s self = Gil_acquire # rest"
    "g_sched s = None \<or> g_sched s = Some c"
  shows "sched_inv (canboot_gil_acquire c self rest s)"
proof -
  note st = act_start [OF assms, simplified]
  let ?s = "enter c self s"
  show ?thesis
  proof (cases "g_gil_locked s \<and> g_gil_owner s \<noteq> Some self")
    case True
    have "sched_inv (canboot_sched_block_on c self Q_gil ?s)"
      by (rule block_inv [OF st(1, 3)]) (use st assms(3) in simp_all)
    then show ?thesis using True by (simp add: canboot_gil_acquire_def Let_def)
  next
    case False
    let ?s' = "?s\<lparr> g_gil_locked := True, g_gil_owner := Some self \<rparr>"
    have "mid c self ?s'" using False by (intro mid_gil [OF st(1)]) auto
    moreover have "code_ok ?s' self rest"
      using st(4) by (simp add: code_ok_pool [OF st(3)] canboot_gil_owned_by_current_def)
    ultimately have "sched_inv (leave c self rest ?s')" using st(2) by (intro leave_inv)
    then show ?thesis using False by (auto simp: canboot_gil_acquire_def Let_def)
  qed
qed

lemma gil_release_inv:
  assumes "sched_inv s" "running s c = Some self" "todo s self = Gil_release # rest"
    "g_sched s = None \<or> g_sched s = Some c"
  shows "sched_inv (canboot_gil_release c self rest s)"
proof -
  note st = act_start [OF assms, simplified]
  let ?s = "(enter c self s)\<lparr> g_gil_locked := False, g_gil_owner := None \<rparr>"
  have own: "g_gil_locked s \<and> g_gil_owner s = Some self"
    using st(4) by (simp add: canboot_gil_owned_by_current_def)
  have m: "mid c self ?s" by (rule mid_gil [OF st(1)]) (use own in auto)
  note w = mid_wake_one [OF m, of Q_gil, simplified]
  have "code_ok (canboot_sched_wake_one Q_gil ?s) self rest"
    using st(4) by (simp add: code_ok_pool [OF st(3)] owns_wakes [OF w(2)])
      (simp add: canboot_gil_owned_by_current_def)
  then show ?thesis unfolding canboot_gil_release_def by (rule leave_inv [OF w(1) st(2)])
qed

lemma mid_set_todo:
  assumes m: "mid c self s"
    and idle: "\<not> pool self \<Longrightarrow> set as \<subseteq> {Trampoline, Unlock, Iret, Idle_loop} \<and> Trampoline \<notin> set as"
  shows "mid c self (set_todo self as s)"
proof -
  let ?s = "set_todo self as s"
  note d = midD [OF m]
  obtain Q where Q: "core s (running s) Q" using m by (rule mid_core)
  have same: "states ?s = states s" "running ?s = running s" "cpus ?s = cpus s" "g_sched ?s = g_sched s"
    "tls_base (thr ?s t) = tls_base (thr s t)" "th_entry (thr ?s t) = th_entry (thr s t)"
    "owns_gil ?s t = owns_gil s t" "todo ?s t = (if t = self then as else todo s t)" for t
    by (auto simp: set_todo_def frame_simps states_def running_def fun_eq_iff canboot_gil_owned_by_current_def)
  have "core ?s (running ?s) Q"
    using Q queues_upd_thr [of s Q "\<lambda>x. x\<lparr> th_todo := as \<rparr>" self] by (simp add: core_def same set_todo_def)
      (simp add: same flip: set_todo_def)
  moreover have "pool self \<Longrightarrow> states s self = CANBOOT_TH_RUNNING" by (rule running_state [OF Q d(10)])
  then have "parked_ok ?s" using d(5) unfolding parked_ok_def same by auto
  moreover have "gil_ok ?s {self}" using d(4) unfolding gil_ok_def same by simp
  moreover have "idle_ok ?s (running ?s)"
    unfolding idle_ok_def same
  proof (intro allI impI)
    fix c' assume c': "online (cpus s c')" "running s c' \<noteq> Some (Idle c')"
    then have "Idle c' \<noteq> self" using running_pool_or_idle [OF Q d(10)] d(10) by auto
    then show "parked (if Idle c' = self then as else todo s (Idle c'))"
      using d(6) c' by (simp add: idle_ok_def)
  qed
  moreover have "idle_acts ?s" using d(7) idle unfolding idle_acts_def same by auto
  moreover have "plain_ok ?s ((running ?s)(c := None))"
    unfolding plain_ok_def same
  proof (intro allI impI)
    fix c' t assume t: "((running s)(c := None)) c' = Some t"
    then have "c' \<noteq> c" "running s c' = Some t" by (auto split: if_splits)
    then have "t \<noteq> self" using placedD(8) Q d(10) unfolding core_def by blast
    then show "plain (if t = self then as else todo s t)"
      using d(9) t unfolding plain_ok_def by simp
  qed
  moreover have "cpus_ok ?s" "thread_ok ?s" "fs_ok ?s (running ?s)" "lock_ok c ?s" "running ?s c = Some self"
    using d by (simp_all add: cpus_ok_def thread_ok_def fs_ok_def lock_ok_def same)
  ultimately show ?thesis unfolding mid_def by blast
qed

lemma set_todo_simps [simp]:
  "todo (set_todo t as s) x = (if x = t then as else todo s x)" "owns_gil (set_todo t as s) x = owns_gil s x"
  "th_state (thr (set_todo t as s) x) = th_state (thr s x)" "states (set_todo t as s) = states s"
  "cpus (set_todo t as s) = cpus s"
  by (auto simp: set_todo_def frame_simps canboot_gil_owned_by_current_def states_def fun_eq_iff)

text \<open>The common end of yield and preemption: queue the thread, resume it at its unlock.\<close>

lemma requeue_inv:
  assumes m: "mid c self s" and p: "pool self" and "plain rest" and "vm_ok (owns_gil s self) rest"
  shows "sched_inv (reschedule c (make_runnable self (set_todo self (Unlock # rest) s)))"
  by (rule ready_inv [OF mid_set_todo [OF m] p]) (use assms in simp_all)

lemma yield_inv:
  assumes "sched_inv s" "running s c = Some self" "todo s self = Yield # rest"
    "g_sched s = None \<or> g_sched s = Some c"
  shows "sched_inv (canboot_sched_yield c self rest s)"
proof -
  note st = act_start [OF assms, simplified]
  obtain Q where "core s (running s) Q" using assms(1) by (rule sched_inv_core)
  then have "th_state (thr s self) = CANBOOT_TH_RUNNING"
    using running_state [of s Q c self] assms(2) st(3) by (simp add: states_def)
  then show ?thesis
    using requeue_inv [OF st(1, 3, 2)] st(4) by (simp add: canboot_sched_yield_def Let_def)
qed

lemma idle_inv:
  assumes i: "sched_inv s" and r: "running s c = Some self" and td: "todo s self = Idle_loop # rest"
    and g: "g_sched s = None \<or> g_sched s = Some c"
  shows "sched_inv (idle_entry c self rest s)"
proof -
  note h = head_facts [OF i r td]
  have np: "\<not> pool self" using h(2) by auto
  have rest: "plain rest" "set rest \<subseteq> {Trampoline, Unlock, Iret, Idle_loop}" using h(1, 5) np by auto
  have "mid c self (set_todo self (Unlock # Idle_loop # rest) (enter c self s))"
    by (rule mid_set_todo [OF enter_mid [OF i r g]]) (use rest in \<open>auto simp: plain_def\<close>)
  then show ?thesis
    unfolding idle_entry_def by (rule idle_reschedule_inv [OF _ np]) (use rest in \<open>auto simp: plain_def\<close>)
qed

text \<open>Critical sections without a switch.\<close>

lemma section_inv:
  assumes "sched_inv s" "running s c = Some self" "todo s self = a # rest"
    "g_sched s = None \<or> g_sched s = Some c" "a \<notin> {Trampoline, Unlock, Iret, Idle_loop}"
    and m: "mid c self (enter c self s) \<Longrightarrow> mid c self s' \<and> owns_gil s' self = owns_gil s self"
    and code: "plain code" "vm_ok (owns_gil s self) (a # rest) \<Longrightarrow> vm_ok (owns_gil s self) (code @ rest)"
  shows "sched_inv (leave c self (code @ rest) s')"
proof -
  note st = act_start [OF assms(1-5)]
  have "plain (code @ rest)" using st(2) code(1) by (auto simp: plain_def)
  moreover have "code_ok s' self (code @ rest)"
    using m [OF st(1)] code(2) [OF st(4)] by (simp add: code_ok_pool [OF st(3)])
  ultimately show ?thesis using m [OF st(1)] by (intro leave_inv) auto
qed

lemma mid_reap:
  assumes m: "mid c self s" and t: "states s t = CANBOOT_TH_EXITED \<or> states s t = CANBOOT_TH_FREE"
  shows "mid c self (set_state t CANBOOT_TH_FREE s)"
proof -
  let ?s = "set_state t CANBOOT_TH_FREE s"
  note d = midD [OF m]
  obtain Q where Q: "core s (running s) Q" using m by (rule mid_core)
  have same: "running ?s = running s" "cpus ?s = cpus s" "g_sched ?s = g_sched s"
    "tls_base (thr ?s x) = tls_base (thr s x)" "th_entry (thr ?s x) = th_entry (thr s x)"
    "owns_gil ?s x = owns_gil s x" "todo ?s x = todo s x" "states ?s = (states s)(t := CANBOOT_TH_FREE)" for x
    by (auto simp: set_state_def frame_simps states_def running_def fun_eq_iff canboot_gil_owned_by_current_def)
  have live: "live (states ?s x) = live (states s x)" for x using t by (auto simp: same live_def)
  have "queues ?s Q" using Q unfolding set_state_def by (auto simp: core_def intro: queues_upd_thr)
  then have "core ?s (running ?s) Q"
    using Q placed_reap [of "states s" "running s" Q t] t by (simp add: core_def same)
  moreover have "gil_ok ?s {self}" using d(4) unfolding gil_ok_def live same(1-7) .
  moreover have "thread_ok ?s" using d(2) unfolding thread_ok_def live same(1-7) .
  moreover have "parked_ok ?s" using d(5) unfolding parked_ok_def same by auto
  moreover have "cpus_ok ?s" "fs_ok ?s (running ?s)" "idle_ok ?s (running ?s)" "idle_acts ?s" "lock_ok c ?s"
    "plain_ok ?s ((running ?s)(c := None))" "running ?s c = Some self"
    using d by (simp_all add: cpus_ok_def fs_ok_def idle_ok_def idle_acts_def lock_ok_def plain_ok_def same)
  ultimately show ?thesis unfolding mid_def by blast
qed

lemma mid_upd_thr:
  assumes "mid c self s"
    and "\<And>x. th_todo (f x) = th_todo x \<and> tls_base (f x) = tls_base x \<and> th_entry (f x) = th_entry x \<and>
      th_state (f x) = th_state x \<and> join_q (f x) = join_q x \<and> q_next (f x) = q_next x"
  shows "mid c self (upd_thr t f s)"
  by (rule mid_quiet [OF assms(1)])
    (use assms(2) in \<open>auto simp: wakes_def frame_simps states_def fun_eq_iff elim!: queues_upd_thr\<close>)

lemma owns_upd_thr [simp]: "owns_gil (upd_thr t f s) x = owns_gil s x"
  by (simp add: canboot_gil_owned_by_current_def frame_simps)

lemma owns_set_state [simp]: "owns_gil (set_state t x s) y = owns_gil s y"
  by (simp add: set_state_def)

lemma detach_inv:
  assumes "sched_inv s" "running s c = Some self" "todo s self = Detach t # rest"
    "g_sched s = None \<or> g_sched s = Some c"
  shows "sched_inv (canboot_thread_detach c self t rest s)"
proof -
  let ?s = "enter c self s"
  let ?s' = "if th_state (thr ?s t) = CANBOOT_TH_EXITED then set_state t CANBOOT_TH_FREE ?s
        else upd_thr t (\<lambda>x. x\<lparr> th_detached := True \<rparr>) ?s"
  have "sched_inv (leave c self ([] @ rest) ?s')"
  proof (rule section_inv [OF assms])
    assume m: "mid c self ?s"
    show "mid c self ?s' \<and> owns_gil ?s' self = owns_gil s self"
      using mid_reap [OF m, of t] mid_upd_thr [OF m, of "\<lambda>x. x\<lparr> th_detached := True \<rparr>" t]
      by (auto simp: states_def simp del: enter_frame(1) split: if_splits)
  qed (simp_all add: plain_def)
  then show ?thesis by (simp add: canboot_thread_detach_def Let_def)
qed

lemma join_inv:
  assumes "sched_inv s" "running s c = Some self" "todo s self = Join t # rest"
    "g_sched s = None \<or> g_sched s = Some c"
  shows "sched_inv (canboot_thread_join c self t rest s)"
proof -
  note st = act_start [OF assms, simplified]
  let ?s = "enter c self s"
  show ?thesis
  proof (cases "th_state (thr s t) \<noteq> CANBOOT_TH_EXITED \<and> th_state (thr s t) \<noteq> CANBOOT_TH_FREE")
    case True
    have "sched_inv (canboot_sched_block_on c self (Q_join t) ?s)"
      by (rule block_inv [OF st(1, 3)]) (use st assms(3) True in \<open>auto simp: states_def\<close>)
    then show ?thesis using True by (simp add: canboot_thread_join_def Let_def)
  next
    case False
    let ?s1 = "upd_thr self (\<lambda>x. x\<lparr> th_out := th_retval (thr ?s t), th_rc := 0 \<rparr>) ?s"
    let ?s2 = "if 0 \<le> th_id (thr ?s1 t) then set_state t CANBOOT_TH_FREE ?s1 else ?s1"
    have m1: "mid c self ?s1" by (rule mid_upd_thr [OF st(1)]) simp
    have "states ?s1 t = CANBOOT_TH_EXITED \<or> states ?s1 t = CANBOOT_TH_FREE"
      using False by (auto simp: states_def frame_simps)
    then have m2: "mid c self ?s2" using m1 mid_reap [OF m1] by (simp only: split: if_split) blast
    have "code_ok ?s2 self rest" using st(4) by (simp add: code_ok_pool [OF st(3)])
    then have "sched_inv (leave c self rest ?s2)" by (rule leave_inv [OF m2 st(2)])
    then show ?thesis using False by (auto simp: canboot_thread_join_def Let_def simp del: enter_frame(15))
  qed
qed

lemma exit_off:
  assumes "sched_inv s" "running s c = Some self" "todo s self = Exit # rest"
    "g_sched s = None \<or> g_sched s = Some c"
  shows "\<exists>s'. canboot_thread_exit c self s = Some (reschedule c s') \<and> off c s' \<and> pool self \<and> \<not> live (states s' self)"
proof -
  note st = act_start [OF assms, simplified]
  let ?s = "upd_thr self (\<lambda>x. x\<lparr> th_retval := th_ret x \<rparr>) (enter c self s)"
  have m: "mid c self ?s" by (rule mid_upd_thr [OF st(1)]) simp
  obtain s1 where s1: "canboot_sched_wake_all (Q_join self) ?s = Some s1" and m1: "mid c self s1"
    and w: "wakes ?s s1" and "\<exists>Q. core s1 (running ?s) Q \<and> Q (Q_join self) = []"
    by (rule mid_wake_all [OF m, of "Q_join self"]) simp
  then obtain Q where Q: "core s1 (running s1) Q" "Q (Q_join self) = []"
    using running_wakes [OF w] by auto
  let ?x = "if th_detached (thr s1 self) \<and> 0 \<le> th_id (thr s1 self) then CANBOOT_TH_FREE else CANBOOT_TH_EXITED"
  let ?m = "set_todo self [Dead] s1"
  let ?s2 = "set_todo self [Dead] (set_state self ?x s1)"
  have mm: "mid c self ?m" by (rule mid_set_todo [OF m1]) (use st(3) in simp)
  have r: "running s1 c = Some self" "running ?m = running s1"
    using midD(10) [OF m1] by (auto simp: running_def)
  have "queues ?s2 Q"
    using Q(1) unfolding core_def set_todo_def set_state_def by (auto intro!: queues_upd_thr simp: frame_simps)
  moreover have st2: "states ?s2 = (states s1)(self := ?x)"
    by (auto simp: set_state_def frame_simps states_def)
  moreover have "placed ((states s1)(self := ?x)) ((running s1)(c := None)) Q"
    using Q r st(3) by (intro placed_exit) (auto simp: core_def)
  ultimately have core: "core ?s2 ((running ?m)(c := None)) Q" by (simp add: core_def r)
  have "off c ?s2"
    by (rule off_from_mid [OF mm _ _ _ _ _ _ _ core])
      (use st(3) in \<open>auto simp: set_state_def set_todo_def frame_simps states_def live_def
         canboot_gil_owned_by_current_def split: if_splits\<close>)
  moreover have "canboot_thread_exit c self s = Some (reschedule c ?s2)"
    using s1 by (simp add: canboot_thread_exit_def Let_def)
  moreover have "\<not> live (states ?s2 self)" unfolding st2 by (simp add: live_def)
  ultimately show ?thesis using st(3) by blast
qed

lemma exit_inv:
  assumes "sched_inv s" "running s c = Some self" "todo s self = Exit # rest"
    "g_sched s = None \<or> g_sched s = Some c"
  shows "\<exists>s'. canboot_thread_exit c self s = Some s' \<and> sched_inv s'"
  using exit_off [OF assms] reschedule_inv by blast

lemma exit_dead:
  assumes "sched_inv s" "running s c = Some self" "todo s self = Exit # rest"
    "g_sched s = None \<or> g_sched s = Some c" and "canboot_thread_exit c self s = Some s'"
  shows "pool self \<and> \<not> live (states s' self)"
  using exit_off [OF assms(1-4)] reschedule_not_live assms(5) by auto

end
