(* ===== verification/Sched_Safety.thy ===== *)
theory Sched_Safety
  imports Sched_Acts
begin

text \<open>
  The remaining steps (thread creation, the pthread shim, the trampoline, interrupts, calls and
  secondary CPUs), the invariant of all reachable states, and the properties it gives.
\<close>

section \<open>Creating a thread\<close>

lemma mid_create:
  assumes m: "mid c self s" and i: "1 \<le> i" "i < CANBOOT_THREAD_POOL" and free: "states s (Pool i) = CANBOOT_TH_FREE"
    and t: "th_state t = CANBOOT_TH_RUNNABLE" "th_todo t = [Trampoline]" "tls_base t = Some (Thread_tls i)"
      "join_q t = empty_wq" "th_entry t \<noteq> Idle_entry"
  shows "mid c self (rq_push (Pool i) (upd_thr (Pool i) (\<lambda>_. t) s\<lparr> g_thread_tls := tls \<rparr>))"
proof -
  let ?s1 = "upd_thr (Pool i) (\<lambda>_. t) s\<lparr> g_thread_tls := tls \<rparr>"
  let ?s = "rq_push (Pool i) ?s1"
  note d = midD [OF m]
  obtain Q where Q: "core s (running s) Q" using m by (rule mid_core)
  then have q: "queues s Q" and p: "placed (states s) (running s) Q" by (simp_all add: core_def)
  have pool: "pool (Pool i)" using i(2) by (simp add: pool_def)
  have no: "Pool i \<notin> set (Q q')" for q' using finished_not_queued [OF p] free by blast
  have same: "running ?s = running s" "cpus ?s = cpus s" "g_sched ?s = g_sched s"
    "tls_base (thr ?s x) = (if x = Pool i then Some (Thread_tls i) else tls_base (thr s x))"
    "th_entry (thr ?s x) = (if x = Pool i then th_entry t else th_entry (thr s x))"
    "owns_gil ?s x = owns_gil s x" "todo ?s x = (if x = Pool i then [Trampoline] else todo s x)"
    "states ?s = (states s)(Pool i := CANBOOT_TH_RUNNABLE)" for x
    using t by (auto simp: rq_push_def frame_simps states_def running_def fun_eq_iff canboot_gil_owned_by_current_def)
  have "queues ?s1 Q"
  proof (rule queues_cong [OF q])
    have "q_rep s (Q_join (Pool i)) []"
      using q placedD(6) [OF p pool] free unfolding queues_def by metis
    then have "join_q (thr s (Pool i)) = empty_wq" by (simp add: q_rep_def empty_wq_def)
    then show "get_q q' ?s1 = get_q q' s" for q' using t(4) by (cases q') (auto simp: upd_thr_def)
    show "q_next (thr ?s1 x) = q_next (thr s x)" if "x \<in> set (Q q')" for x q'
      using that no by (auto simp: upd_thr_def)
  qed
  then have "queues ?s (Q(Q_run := Q Q_run @ [Pool i]))"
    unfolding rq_push_def by (rule queues_push) (rule no)
  then have "core ?s (running ?s) (Q(Q_run := Q Q_run @ [Pool i]))"
    using placed_create [OF p pool free] by (simp add: core_def same)
  moreover have self: "self \<noteq> Pool i"
    using running_state [OF Q d(10)] free pool by auto
  moreover have "gil_ok ?s {self}" using d(4) by (auto simp: gil_ok_def same)
  moreover have "thread_ok ?s" using d(2) i(1) t(5) by (auto simp: thread_ok_def same home_tls_def)
  moreover have "parked_ok ?s" using d(5) by (auto simp: parked_ok_def same plain_def)
  moreover have run: "running s c' \<noteq> Some (Pool i)" for c'
    using placedD(5) [OF p pool] free by auto
  moreover have "cpus_ok ?s" "fs_ok ?s (running ?s)" "idle_ok ?s (running ?s)" "idle_acts ?s" "lock_ok c ?s"
    "running ?s c = Some self"
    using d run by (auto simp: cpus_ok_def fs_ok_def idle_ok_def idle_acts_def lock_ok_def same)
  moreover have "plain_ok ?s ((running ?s)(c := None))"
    using d(9) run unfolding plain_ok_def same by (auto split: if_splits)
  ultimately show ?thesis unfolding mid_def by blast
qed

lemma create_inv:
  assumes "sched_inv s" "running s c = Some self" "todo s self = Create fn arg # rest"
    "g_sched s = None \<or> g_sched s = Some c"
  shows "sched_inv (snd (canboot_thread_create c self fn arg rest s))"
proof -
  note st = act_start [OF assms, simplified]
  let ?s = "enter c self s"
  show ?thesis
  proof (cases "find (\<lambda>i. th_state (thr ?s (Pool i)) = CANBOOT_TH_FREE) [1 ..< CANBOOT_THREAD_POOL]")
    case None
    have "sched_inv (leave c self rest ?s)"
      by (rule leave_inv [OF st(1, 2)]) (use st in \<open>simp add: code_ok_pool\<close>)
    then show ?thesis using None by (simp add: canboot_thread_create_def Let_def)
  next
    case (Some i)
    then have i: "1 \<le> i" "i < CANBOOT_THREAD_POOL" "states ?s (Pool i) = CANBOOT_TH_FREE"
      by (auto simp: find_Some_iff states_def)
    let ?t = "zero_thread\<lparr> th_id := int i, th_entry := fn, th_arg := arg,
               th_state := CANBOOT_TH_RUNNABLE, th_stack := Some i, stack_size := CANBOOT_THREAD_STACK,
               tls_base := Some (Thread_tls i), th_todo := arch_ctx_init \<rparr>"
    let ?tls = "(g_thread_tls ?s)(i := replicate CANBOOT_THREAD_TLS_SIZE 0)"
    let ?s1 = "rq_push (Pool i) (upd_thr (Pool i) (\<lambda>_. ?t) ?s\<lparr> g_thread_tls := ?tls \<rparr>)"
    have "mid c self ?s1"
      by (rule mid_create [OF st(1) i]) (use st(4) in \<open>simp_all add: zero_thread_def arch_ctx_init_def\<close>)
    moreover have "code_ok ?s1 self rest"
      using st(4) by (simp add: code_ok_pool [OF st(3)] rq_push_def canboot_gil_owned_by_current_def frame_simps)
    ultimately have "sched_inv (leave c self rest ?s1)" using st(2) by (intro leave_inv)
    then show ?thesis using Some by (simp add: canboot_thread_create_def Let_def)
  qed
qed

section \<open>Outside critical sections\<close>

definition quiet :: "sched \<Rightarrow> sched \<Rightarrow> bool" where
  "quiet s s' \<longleftrightarrow> (\<forall>c. online (cpus s' c) = online (cpus s c) \<and> cpu_idle (cpus s' c) = cpu_idle (cpus s c) \<and>
       cpu_current (cpus s' c) = cpu_current (cpus s c) \<and> fs_base (cpus s' c) = fs_base (cpus s c)) \<and>
     (\<forall>c. g_sched s = Some c \<longrightarrow> irq_on (cpus s' c) = irq_on (cpus s c)) \<and>
     g_sched s' = g_sched s \<and> g_gil_locked s' = g_gil_locked s \<and> g_gil_owner s' = g_gil_owner s \<and>
     (\<forall>t. todo s' t = todo s t \<and> tls_base (thr s' t) = tls_base (thr s t) \<and>
       th_entry (thr s' t) = th_entry (thr s t) \<and> th_state (thr s' t) = th_state (thr s t)) \<and>
     (\<forall>Q. queues s Q \<longrightarrow> queues s' Q)"

lemma quiet_states: "quiet s s' \<Longrightarrow> states s' = states s" "quiet s s' \<Longrightarrow> running s' = running s"
  by (auto simp: quiet_def states_def running_def fun_eq_iff)

lemma inv_quiet:
  assumes i: "sched_inv s" and w: "quiet s s'"
  shows "sched_inv s'"
proof -
  note d = sched_invD [OF i]
  note st = quiet_states [OF w]
  obtain Q where Q: "core s (running s) Q" using i by (rule sched_inv_core)
  have same: "online (cpus s' c) = online (cpus s c)" "cpu_idle (cpus s' c) = cpu_idle (cpus s c)"
    "cpu_current (cpus s' c) = cpu_current (cpus s c)" "fs_base (cpus s' c) = fs_base (cpus s c)"
    "g_sched s' = g_sched s" "owns_gil s' t = owns_gil s t" "todo s' t = todo s t"
    "tls_base (thr s' t) = tls_base (thr s t)" "th_entry (thr s' t) = th_entry (thr s t)" for c t
    using w by (auto simp: quiet_def canboot_gil_owned_by_current_def)
  have core: "core s' (running s') Q" using Q w by (simp add: core_def st quiet_def)
  have lock: "lock_ok c s \<Longrightarrow> lock_ok c s'" for c
    using w by (simp add: lock_ok_def same) (simp add: quiet_def)
  have "case g_sched s' of None \<Rightarrow> plain_ok s' (running s')
      | Some c \<Rightarrow> lock_ok c s' \<and> plain_ok s' ((running s')(c := None)) \<and>
          (\<exists>t. running s' c = Some t \<and> parked (todo s' t))"
  proof (cases "g_sched s")
    case (Some c)
    then have "lock_ok c s" "plain_ok s ((running s)(c := None))" "\<exists>t. running s c = Some t \<and> parked (todo s t)"
      using i by (simp_all add: sched_inv_def)
    then show ?thesis using lock Some by (simp only: same st plain_ok_def option.case)
  qed (use i in \<open>simp add: sched_inv_def same st plain_ok_def\<close>)
  moreover have "cpus_ok s'" "thread_ok s'" "fs_ok s' (running s')" "gil_ok s' {}" "parked_ok s'"
    "idle_ok s' (running s')" "idle_acts s'"
    using d by (simp_all add: cpus_ok_def thread_ok_def fs_ok_def gil_ok_def parked_ok_def idle_ok_def
        idle_acts_def same st)
  ultimately show ?thesis using core unfolding sched_inv_def by blast
qed

lemma mid_quiet_cpu:
  assumes m: "mid c self s" and w: "quiet s s'"
  shows "mid c self s'"
proof -
  note d = midD [OF m]
  note st = quiet_states [OF w]
  obtain Q where Q: "core s (running s) Q" using m by (rule mid_core)
  have same: "online (cpus s' c) = online (cpus s c)" "cpu_idle (cpus s' c) = cpu_idle (cpus s c)"
    "cpu_current (cpus s' c) = cpu_current (cpus s c)" "fs_base (cpus s' c) = fs_base (cpus s c)"
    "g_sched s' = g_sched s" "owns_gil s' t = owns_gil s t" "todo s' t = todo s t"
    "tls_base (thr s' t) = tls_base (thr s t)" "th_entry (thr s' t) = th_entry (thr s t)" for c t
    using w by (auto simp: quiet_def canboot_gil_owned_by_current_def)
  have core: "core s' (running s') Q" using Q w by (simp add: core_def st quiet_def)
  have "lock_ok c s'" using d(8) w by (simp add: lock_ok_def same) (simp add: quiet_def)
  moreover have "cpus_ok s'" "thread_ok s'" "fs_ok s' (running s')" "gil_ok s' {self}" "parked_ok s'"
    "idle_ok s' (running s')" "idle_acts s'" "plain_ok s' ((running s')(c := None))" "running s' c = Some self"
    using d by (simp_all add: cpus_ok_def thread_ok_def fs_ok_def gil_ok_def parked_ok_def idle_ok_def
        idle_acts_def plain_ok_def same st)
  ultimately show ?thesis using core unfolding mid_def by blast
qed

lemma inv_set_todo:
  assumes i: "sched_inv s" and r: "running s c = Some self" and g: "g_sched s \<noteq> Some c"
    and pl: "plain as" and ok: "code_ok s self as"
  shows "sched_inv (set_todo self as s)"
proof -
  let ?s = "set_todo self as s"
  note d = sched_invD [OF i]
  obtain Q where Q: "core s (running s) Q" using i by (rule sched_inv_core)
  have same: "running ?s = running s" "g_sched ?s = g_sched s"
    "tls_base (thr ?s t) = tls_base (thr s t)" "th_entry (thr ?s t) = th_entry (thr s t)" for t
    by (auto simp: set_todo_def frame_simps running_def fun_eq_iff)
  have others: "c' = c" if "running s c' = Some self" for c'
    using placedD(8) Q r that unfolding core_def by blast
  have "core ?s (running ?s) Q"
    using Q unfolding core_def same set_todo_simps by (auto simp: set_todo_def intro: queues_upd_thr)
  moreover have "pool self \<Longrightarrow> states s self = CANBOOT_TH_RUNNING" by (rule running_state [OF Q r])
  then have "parked_ok ?s" using d(5) by (auto simp: parked_ok_def)
  moreover have "gil_ok ?s {}" using d(4) ok by (auto simp: gil_ok_def code_ok_def)
  moreover have "idle_ok ?s (running ?s)"
  proof -
    have "Idle c' \<noteq> self" if "running s c' \<noteq> Some (Idle c')" for c'
      using running_pool_or_idle [OF Q r] r that by auto
    then show ?thesis using d(6) by (auto simp: idle_ok_def same)
  qed
  moreover have "idle_acts ?s" using d(7) ok by (auto simp: idle_acts_def code_ok_def same)
  moreover have "cpus_ok ?s" "thread_ok ?s" "fs_ok ?s (running ?s)"
    using d by (simp_all add: cpus_ok_def thread_ok_def fs_ok_def same)
  moreover have "case g_sched ?s of None \<Rightarrow> plain_ok ?s (running ?s)
      | Some c' \<Rightarrow> lock_ok c' ?s \<and> plain_ok ?s ((running ?s)(c' := None)) \<and>
          (\<exists>t. running ?s c' = Some t \<and> parked (todo ?s t))"
  proof (cases "g_sched s")
    case None
    then show ?thesis using i pl by (auto simp: sched_inv_def same plain_ok_def)
  next
    case (Some c')
    then have "c' \<noteq> c" using g by auto
    obtain t where t: "running s c' = Some t" "parked (todo s t)" using i Some by (auto simp: sched_inv_def)
    then have "t \<noteq> self" using others \<open>c' \<noteq> c\<close> by auto
    moreover have "lock_ok c' ?s" using i Some by (simp add: sched_inv_def lock_ok_def same)
    moreover have "plain_ok s ((running s)(c' := None))" using i Some by (simp add: sched_inv_def)
    then have "plain_ok ?s ((running ?s)(c' := None))"
      using pl unfolding plain_ok_def same set_todo_simps by metis
    ultimately show ?thesis using t Some by (auto simp: same)
  qed
  ultimately show ?thesis unfolding sched_inv_def by blast
qed

lemma quiet_set_rc: "quiet s (set_rc t v s)"
  by (auto simp: quiet_def set_rc_def frame_simps elim!: queues_upd_thr)

lemma lockless_start:
  assumes i: "sched_inv s" and r: "running s c = Some self" and td: "todo s self = a # rest"
    and a: "\<not> resumes a"
  shows "g_sched s \<noteq> Some c" "plain rest" "pool self \<Longrightarrow> vm_ok (owns_gil s self) (a # rest)"
  using head_facts [OF i r td] a by blast+

text \<open>A lockless act: a quiet change and the rest of the code.\<close>

lemma lockless_inv:
  assumes i: "sched_inv s" and r: "running s c = Some self" and td: "todo s self = a # rest"
    and a: "\<not> resumes a" and w: "quiet s s'"
    and code: "plain code" "pool self \<Longrightarrow> vm_ok (owns_gil s self) (a # rest) \<Longrightarrow> vm_ok (owns_gil s self) (code @ rest)"
      "\<not> pool self \<Longrightarrow> code = []"
  shows "sched_inv (set_todo self (code @ rest) s')"
proof (rule inv_set_todo)
  note st = lockless_start [OF i r td a]
  show "sched_inv s'" by (rule inv_quiet [OF i w])
  show "running s' c = Some self" using r by (simp add: quiet_states(2) [OF w])
  show "g_sched s' \<noteq> Some c" using st(1) w by (simp add: quiet_def)
  show "plain (code @ rest)" using st(2) code(1) by (auto simp: plain_def)
  have "owns_gil s' self = owns_gil s self" using w by (simp add: quiet_def canboot_gil_owned_by_current_def)
  then show "code_ok s' self (code @ rest)"
    using st(2, 3) code(2, 3) head_facts(5) [OF i r td] by (auto simp: code_ok_def plain_def)
qed

section \<open>The pthread shim\<close>

lemma quiet_upd_mutex:
  assumes "mid c self s" and "\<And>x. m_waiters (f x) = m_waiters x"
  shows "mid c self (upd_mutex m f s)"
  by (rule mid_quiet [OF assms(1)])
    (use assms(2) in \<open>auto simp: wakes_def upd_mutex_def states_def fun_eq_iff elim!: queues_frame\<close>)

lemma quiet_upd_cond:
  assumes "mid c self s" and "\<And>x. c_waiters (f x) = c_waiters x"
  shows "mid c self (upd_cond v f s)"
  by (rule mid_quiet [OF assms(1)])
    (use assms(2) in \<open>auto simp: wakes_def upd_cond_def states_def fun_eq_iff elim!: queues_frame\<close>)

lemma quiet_upd_once:
  assumes "mid c self s" and "\<And>x. o_waiters (f x) = o_waiters x"
  shows "mid c self (upd_once v f s)"
  by (rule mid_quiet [OF assms(1)])
    (use assms(2) in \<open>auto simp: wakes_def upd_once_def states_def fun_eq_iff elim!: queues_frame\<close>)

lemma owns_upd_sync [simp]:
  "owns_gil (upd_mutex m f s) t = owns_gil s t" "owns_gil (upd_cond v g s) t = owns_gil s t"
  "owns_gil (upd_once v h s) t = owns_gil s t"
  by (simp_all add: upd_mutex_def upd_cond_def upd_once_def canboot_gil_owned_by_current_def)

lemma mid_take_mutex: "mid c self s \<Longrightarrow> mid c self (take_mutex t m s)"
  unfolding take_mutex_def by (erule quiet_upd_mutex) simp

lemma owns_take_mutex [simp]: "owns_gil (take_mutex u m s) t = owns_gil s t"
  by (simp add: take_mutex_def)

lemma mid_drop_mutex:
  assumes "mid c self s"
  shows "mid c self (drop_mutex m s)" and "owns_gil (drop_mutex m s) t = owns_gil s t"
    and "todo (drop_mutex m s) t = todo s t"
proof -
  let ?s = "upd_mutex m (\<lambda>x. x\<lparr> m_locked := False, m_owner := -1 \<rparr>) s"
  have m: "mid c self ?s" by (rule quiet_upd_mutex [OF assms]) simp
  note w = mid_wake_one [OF m, of "Q_mutex m", simplified]
  show "mid c self (drop_mutex m s)" unfolding drop_mutex_def by (rule w(1))
  show "owns_gil (drop_mutex m s) t = owns_gil s t"
    unfolding drop_mutex_def using owns_wakes [OF w(2)] by simp
  show "todo (drop_mutex m s) t = todo s t"
    unfolding drop_mutex_def using w(2) by (simp add: wakes_def upd_mutex_def)
qed

lemma mutex_lock_inv:
  assumes "sched_inv s" "running s c = Some self" "todo s self = Mutex_lock m # rest"
    "g_sched s = None \<or> g_sched s = Some c"
  shows "sched_inv (pthread_mutex_lock c self m rest s)"
proof (cases "m_locked (mutexes s m)")
  case True
  note st = act_start [OF assms, simplified]
  have "sched_inv (canboot_sched_block_on c self (Q_mutex m) (enter c self s))"
    by (rule block_inv [OF st(1, 3)]) (use st assms(3) in simp_all)
  then show ?thesis using True by (simp add: pthread_mutex_lock_def Let_def)
next
  case False
  have "sched_inv (leave c self ([] @ rest) (set_rc self 0 (take_mutex self m (enter c self s))))"
    by (rule section_inv [OF assms]) (auto simp: plain_def intro: mid_set_rc mid_take_mutex)
  then show ?thesis using False by (simp add: pthread_mutex_lock_def Let_def)
qed

lemma mutex_trylock_inv:
  assumes "sched_inv s" "running s c = Some self" "todo s self = Mutex_trylock m # rest"
    "g_sched s = None \<or> g_sched s = Some c"
  shows "sched_inv (pthread_mutex_trylock c self m rest s)"
proof -
  have "sched_inv (leave c self ([] @ rest) (if m_locked (mutexes (enter c self s) m) then set_rc self EBUSY (enter c self s)
      else set_rc self 0 (take_mutex self m (enter c self s))))"
    by (rule section_inv [OF assms]) (auto simp: plain_def intro: mid_set_rc mid_take_mutex)
  then show ?thesis by (simp add: pthread_mutex_trylock_def Let_def)
qed

lemma mutex_unlock_inv:
  assumes "sched_inv s" "running s c = Some self" "todo s self = Mutex_unlock m # rest"
    "g_sched s = None \<or> g_sched s = Some c"
  shows "sched_inv (pthread_mutex_unlock c self m rest s)"
proof -
  have "sched_inv (leave c self ([] @ rest) (set_rc self 0 (drop_mutex m (enter c self s))))"
    by (rule section_inv [OF assms]) (auto simp: plain_def mid_drop_mutex intro: mid_set_rc)
  then show ?thesis by (simp add: pthread_mutex_unlock_def)
qed

lemma drop_gil_inv:
  assumes "sched_inv s" "running s c = Some self" "todo s self = a # rest" "g_sched s = None \<or> g_sched s = Some c"
    "a \<notin> {Trampoline, Unlock, Iret, Idle_loop}"
    and "vm_ok (owns_gil s self) (a # rest) = vm_ok (owns_gil s self) rest"
    and "plain park" "plain after" "\<And>h as. vm_ok h (park @ as) = vm_ok h as" "\<And>h as. vm_ok h (after @ as) = vm_ok h as"
  shows "sched_inv (leave c self ((if owns_gil (enter c self s) self then [Gil_release] @ park @ [Gil_acquire] @ after
      else park @ after) @ rest) (enter c self s))"
  using assms(6-10)
  by (intro section_inv [OF assms(1-5)]) (auto simp: plain_def)

lemma pthread_join_inv:
  assumes "sched_inv s" "running s c = Some self" "todo s self = Pthread_join t # rest"
    "g_sched s = None \<or> g_sched s = Some c"
  shows "sched_inv (pthread_join c self t rest s)"
  using drop_gil_inv [OF assms, of "[Join t]" "[]"]
  by (cases "owns_gil s self") (simp_all add: pthread_join_def Let_def plain_def)

lemma cond_wait_inv:
  assumes "sched_inv s" "running s c = Some self" "todo s self = Cond_wait v m # rest"
    "g_sched s = None \<or> g_sched s = Some c"
  shows "sched_inv (pthread_cond_wait c self v m rest s)"
  using drop_gil_inv [OF assms, of "[Cond_park v m]" "[Mutex_lock m]"]
  by (cases "owns_gil s self") (simp_all add: pthread_cond_wait_def Let_def plain_def)

lemma cond_park_inv:
  assumes "sched_inv s" "running s c = Some self" "todo s self = Cond_park v m # rest"
    "g_sched s = None \<or> g_sched s = Some c"
  shows "sched_inv (cond_park c self v m rest s)"
proof -
  note st = act_start [OF assms, simplified]
  have m: "mid c self (set_todo self (Unlock # rest) (enter c self s))"
    by (rule mid_set_todo [OF st(1)]) (use st(3) in simp)
  show ?thesis
    unfolding cond_park_def
    by (rule block_inv [OF mid_drop_mutex(1) [OF m] st(3)]) (use st in \<open>simp_all add: mid_drop_mutex [OF m]\<close>)
qed

lemma signal_inv:
  assumes "sched_inv s" "running s c = Some self" "todo s self = Cond_signal v # rest"
    "g_sched s = None \<or> g_sched s = Some c"
  shows "sched_inv (pthread_cond_signal c self v rest s)"
proof -
  let ?s = "upd_cond v (\<lambda>x. x\<lparr> c_generation := c_generation x + 1 \<rparr>) (enter c self s)"
  let ?s' = "set_rc self 0 (canboot_sched_wake_one (Q_cond v) ?s)"
  have "sched_inv (leave c self ([] @ rest) ?s')"
  proof (rule section_inv [OF assms])
    assume "mid c self (enter c self s)"
    then have m: "mid c self ?s" by (rule quiet_upd_cond) simp
    note w = mid_wake_one [OF m, of "Q_cond v", simplified]
    show "mid c self ?s' \<and> owns_gil ?s' self = owns_gil s self"
      using mid_set_rc [OF w(1)] owns_wakes [OF w(2)] by simp
  qed (simp_all add: plain_def)
  then show ?thesis by (simp add: pthread_cond_signal_def)
qed

lemma broadcast_inv:
  assumes "sched_inv s" "running s c = Some self" "todo s self = Cond_broadcast v # rest"
    "g_sched s = None \<or> g_sched s = Some c"
  shows "\<exists>s'. pthread_cond_broadcast c self v rest s = Some s' \<and> sched_inv s'"
proof -
  let ?s = "upd_cond v (\<lambda>x. x\<lparr> c_generation := c_generation x + 1 \<rparr>) (enter c self s)"
  have m: "mid c self ?s"
    by (rule quiet_upd_cond [OF act_start(1) [OF assms]]) simp_all
  obtain s1 where s1: "canboot_sched_wake_all (Q_cond v) ?s = Some s1" "mid c self s1" "wakes ?s s1"
    by (rule mid_wake_all [OF m, of "Q_cond v"]) simp
  have "sched_inv (leave c self ([] @ rest) (set_rc self 0 s1))"
    by (rule section_inv [OF assms])
      (use mid_set_rc [OF s1(2)] owns_wakes [OF s1(3)] in \<open>simp_all add: plain_def\<close>)
  then show ?thesis using s1(1) by (simp add: pthread_cond_broadcast_def)
qed

lemma once_inv:
  assumes "sched_inv s" "running s c = Some self" "todo s self = Once v vm # rest"
    "g_sched s = None \<or> g_sched s = Some c"
  shows "sched_inv (pthread_once c self v vm rest s)"
proof -
  note st = act_start [OF assms, simplified]
  let ?s = "enter c self s"
  consider "o_state (onces s v) = 2" | "o_state (onces s v) = 1" | "o_state (onces s v) \<noteq> 1" "o_state (onces s v) \<noteq> 2"
    by blast
  then show ?thesis
  proof cases
    case 1
    have "sched_inv (leave c self ([] @ rest) (set_rc self 0 ?s))"
      by (rule section_inv [OF assms]) (auto simp: plain_def intro: mid_set_rc)
    then show ?thesis using 1 by (simp add: pthread_once_def Let_def)
  next
    case 2
    have m: "mid c self (set_todo self (Once_wait v # rest) ?s)"
      by (rule mid_set_todo [OF st(1)]) (use st(3) in simp)
    have "sched_inv (canboot_sched_block_on c self (Q_once v) (set_todo self (Once_wait v # rest) ?s))"
      by (rule block_inv [OF m st(3)]) (use st in simp_all)
    then show ?thesis using 2 by (simp add: pthread_once_def Let_def)
  next
    case 3
    have "sched_inv (leave c self ([User vm, Once_done v] @ rest) (upd_once v (\<lambda>x. x\<lparr> o_state := 1 \<rparr>) ?s))"
      by (rule section_inv [OF assms]) (auto simp: plain_def intro: quiet_upd_once)
    then show ?thesis using 3 by (simp add: pthread_once_def Let_def)
  qed
qed

lemma once_wait_inv:
  assumes "sched_inv s" "running s c = Some self" "todo s self = Once_wait v # rest"
    "g_sched s = None \<or> g_sched s = Some c"
  shows "sched_inv (once_wait c self v rest s)"
proof (cases "o_state (onces s v) \<noteq> 2")
  case True
  note st = act_start [OF assms, simplified]
  have "sched_inv (canboot_sched_block_on c self (Q_once v) (enter c self s))"
    by (rule block_inv [OF st(1, 3)]) (use st assms(3) in simp_all)
  then show ?thesis using True by (simp add: once_wait_def Let_def)
next
  case False
  have "sched_inv (leave c self ([] @ rest) (set_rc self 0 (enter c self s)))"
    by (rule section_inv [OF assms]) (auto simp: plain_def intro: mid_set_rc)
  then show ?thesis using False by (simp add: once_wait_def Let_def)
qed

lemma once_done_inv:
  assumes "sched_inv s" "running s c = Some self" "todo s self = Once_done v # rest"
    "g_sched s = None \<or> g_sched s = Some c"
  shows "\<exists>s'. once_done c self v rest s = Some s' \<and> sched_inv s'"
proof -
  let ?s = "upd_once v (\<lambda>x. x\<lparr> o_state := 2 \<rparr>) (enter c self s)"
  have m: "mid c self ?s"
    by (rule quiet_upd_once [OF act_start(1) [OF assms]]) simp_all
  obtain s1 where s1: "canboot_sched_wake_all (Q_once v) ?s = Some s1" "mid c self s1" "wakes ?s s1"
    by (rule mid_wake_all [OF m, of "Q_once v"]) simp
  have "sched_inv (leave c self ([] @ rest) (set_rc self 0 s1))"
    by (rule section_inv [OF assms])
      (use mid_set_rc [OF s1(2)] owns_wakes [OF s1(3)] in \<open>simp_all add: plain_def\<close>)
  then show ?thesis using s1(1) by (simp add: once_done_def)
qed

section \<open>Resuming, interrupts and calls\<close>

lemma inv_mid:
  assumes i: "sched_inv s" and r: "running s c = Some self" and g: "g_sched s = Some c"
  shows "mid c self s"
  using enter_mid [OF i r] g by (simp add: enter_def)

lemma unlock_inv:
  assumes i: "sched_inv s" and r: "running s c = Some self" and td: "todo s self = Unlock # rest"
  shows "sched_inv (leave c self rest s)"
proof -
  note h = head_facts [OF i r td]
  have "g_sched s = Some c" using h(4) by (auto simp: plain_def)
  then have "mid c self s" by (rule inv_mid [OF i r])
  moreover have "code_ok s self rest" using h(1, 2, 5) by (auto simp: code_ok_def plain_def)
  ultimately show ?thesis using h(1) by (intro leave_inv)
qed

lemma trampoline_inv:
  assumes i: "sched_inv s" and r: "running s c = Some self" and td: "todo s self = Trampoline # rest"
  shows "sched_inv (thread_trampoline c self s)"
proof -
  note h = head_facts [OF i r td]
  have g: "g_sched s = Some c" using h(4) by (auto simp: plain_def)
  then have m: "mid c self s" by (rule inv_mid [OF i r])
  note d = midD [OF m]
  obtain Q where Q: "core s (running s) Q" using m by (rule mid_core)
  let ?code = "entry_code (th_entry (thr s self))"
  have "pool self \<Longrightarrow> th_entry (thr s self) \<noteq> Idle_entry"
    using d(2) running_state [OF Q r] by (simp add: thread_ok_def live_def)
  then have code: "plain ?code" "code_ok s self ?code"
    using h(5) by (auto simp: entry_code_def plain_def code_ok_def split: entry_fn.splits)
  then have inv: "sched_inv (leave c self ?code s)" by (intro leave_inv [OF m])
  have "quiet (leave c self ?code s) (thread_trampoline c self s)"
    by (auto simp: quiet_def leave_def thread_trampoline_def canboot_sched_unlock_def set_todo_def Let_def
        frame_simps elim!: queues_frame)
  with inv show ?thesis by (rule inv_quiet)
qed

lemma iret_inv:
  assumes i: "sched_inv s" and r: "running s c = Some self" and td: "todo s self = Iret # rest"
  shows "sched_inv (set_todo self rest (upd_cpu c (\<lambda>k. k\<lparr> irq_on := True \<rparr>) s))"
proof -
  have "g_sched s \<noteq> Some c" using head_facts(3) [OF i r td] by auto
  then have "quiet s (upd_cpu c (\<lambda>k. k\<lparr> irq_on := True \<rparr>) s)"
    by (auto simp: quiet_def frame_simps elim!: queues_frame)
  from lockless_inv [OF i r td _ this, of "[]"] show ?thesis by (simp add: plain_def)
qed

lemma quiet_upd_cpu:
  assumes "\<And>k. online (f k) = online k \<and> cpu_idle (f k) = cpu_idle k \<and> cpu_current (f k) = cpu_current k \<and>
      fs_base (f k) = fs_base k \<and> irq_on (f k) = irq_on k"
  shows "quiet s (upd_cpu c f s)"
  using assms by (auto simp: quiet_def frame_simps elim!: queues_frame)

lemma preempt_enable_inv:
  assumes i: "sched_inv s" and r: "running s c = Some self" and td: "todo s self = Preempt_enable # rest"
  shows "sched_inv (canboot_preempt_enable c self rest s)"
proof -
  let ?s = "upd_cpu c (\<lambda>k. if preempt_count k \<noteq> 0 then k\<lparr> preempt_count := preempt_count k - 1 \<rparr> else k) s"
  let ?code = "if preempt_count (cpus ?s c) = 0 \<and> need_resched (cpus ?s c) then [Yield] else []"
  have p: "pool self" using head_facts(5) [OF i r td] by auto
  have "quiet s ?s" by (rule quiet_upd_cpu) simp
  from lockless_inv [OF i r td _ this, of ?code] p show ?thesis
    by (auto simp: canboot_preempt_enable_def Let_def plain_def split: if_splits)
qed

text \<open>The timer interrupt.\<close>

lemma preempt_inv:
  assumes i: "sched_inv s" and r: "running s c = Some self" and g: "g_sched s = None" and rest: "plain rest"
    and vm: "pool self \<Longrightarrow> vm_ok (owns_gil s self) rest"
    and idle: "\<not> pool self \<Longrightarrow> set rest \<subseteq> {Trampoline, Unlock, Iret, Idle_loop}"
  shows "sched_inv (canboot_sched_preempt c self rest s)"
proof -
  let ?p = "upd_cpu c (\<lambda>k. k\<lparr> need_resched := False \<rparr>) (enter c self s)"
  have "mid c self (enter c self s)" by (rule enter_mid [OF i r]) (simp add: g)
  then have mp: "mid c self ?p" by (rule mid_quiet_cpu [OF _ quiet_upd_cpu]) simp
  have own: "owns_gil ?p self = owns_gil s self"
    by (simp add: canboot_gil_owned_by_current_def enter_def canboot_sched_lock_def frame_simps)
  show ?thesis
  proof (cases "wq_head (g_runq ?p) = None")
    case True
    have "sched_inv (leave c self rest ?p)"
      by (rule leave_inv [OF mp rest]) (use vm idle rest own in \<open>auto simp: code_ok_def plain_def\<close>)
    then show ?thesis using True by (simp add: canboot_sched_preempt_def Let_def)
  next
    case False
    have cpu: "cpu_idle (cpus ?p c) = Some (Idle c)"
      using midD(1, 8) [OF mp] by (simp add: cpus_ok_def lock_ok_def)
    show ?thesis
    proof (cases "pool self")
      case True
      obtain Q' where "core ?p (running ?p) Q'" using mp by (rule mid_core)
      then have "th_state (thr ?p self) = CANBOOT_TH_RUNNING"
        using running_state midD(10) [OF mp] True unfolding states_def by blast
      moreover have "Some self \<noteq> cpu_idle (cpus ?p c)" using cpu True by auto
      moreover have "vm_ok (owns_gil ?p self) rest" using vm [OF True] own by simp
      ultimately show ?thesis
        using requeue_inv [OF mp True rest] False by (simp add: canboot_sched_preempt_def Let_def)
    next
      case np: False
      obtain Q where "core s (running s) Q" using i by (rule sched_inv_core)
      then have "self = Idle c" using running_pool_or_idle r np by blast
      then have idle_self: "Some self = cpu_idle (cpus ?p c)" using cpu by simp
      have "mid c self (set_todo self (Unlock # rest) ?p)"
        by (rule mid_set_todo [OF mp]) (use idle [OF np] rest in \<open>auto simp: plain_def\<close>)
      then have "sched_inv (reschedule c (set_todo self (Unlock # rest) ?p))"
        by (rule idle_reschedule_inv [OF _ np]) (use rest in simp)
      then show ?thesis using False idle_self by (simp add: canboot_sched_preempt_def Let_def)
    qed
  qed
qed

lemma tick_inv:
  assumes i: "sched_inv s" and r: "running s c = Some self" and irq: "irq_on (cpus s c)"
    and g: "g_sched s = None \<or> \<not> g_preempt_enabled s \<or> preempt_count (cpus s c) \<noteq> 0"
  shows "sched_inv (canboot_sched_on_tick c self s)"
proof -
  let ?s = "upd_cpu c (\<lambda>k. k\<lparr> irq_on := False \<rparr>) (s\<lparr> g_ticks := g_ticks s + 1 \<rparr>)"
  let ?rest = "Iret # todo s self"
  have g0: "g_sched s \<noteq> Some c" using i irq by (auto simp: sched_inv_def lock_ok_def)
  have w: "quiet s ?s" by (auto simp: quiet_def frame_simps g0 elim!: queues_frame)
  have i1: "sched_inv ?s" by (rule inv_quiet [OF i w])
  have r1: "running ?s c = Some self" using r by (simp add: quiet_states(2) [OF w])
  have g1: "g_sched ?s = g_sched s" "g_preempt_enabled ?s = g_preempt_enabled s"
    "preempt_count (cpus ?s c) = preempt_count (cpus s c)" "todo ?s self = todo s self"
    by (simp_all add: frame_simps)
  obtain Q where Q: "core s (running s) Q" using i by (rule sched_inv_core)
  have "plain (todo s self)"
    using i r g0 by (cases "g_sched s") (auto simp: sched_inv_def plain_ok_def dest!: spec [where x = c])
  then have rest: "plain ?rest" by (auto simp: plain_def)
  have own: "owns_gil ?s self = owns_gil s self" by (simp add: canboot_gil_owned_by_current_def frame_simps)
  have "pool self \<Longrightarrow> live (states s self)" using running_state [OF Q r] by (simp add: live_def)
  then have vm: "pool self \<Longrightarrow> vm_ok (owns_gil s self) ?rest"
    using sched_invD(4) [OF i] by (simp add: gil_ok_def)
  have idle: "\<not> pool self \<Longrightarrow> set ?rest \<subseteq> {Trampoline, Unlock, Iret, Idle_loop}"
    using running_pool_or_idle [OF Q r] sched_invD(7) [OF i] by (auto simp: idle_acts_def)
  have plainly: "sched_inv (set_todo self ?rest s')" if "quiet ?s s'" for s'
  proof (rule inv_set_todo [OF inv_quiet [OF i1 that] _ _ rest, of c])
    show "running s' c = Some self" using r1 by (simp add: quiet_states(2) [OF that])
    show "g_sched s' \<noteq> Some c" using that g0 g1 by (simp add: quiet_def)
    have "owns_gil s' self = owns_gil s self" using that own by (simp add: quiet_def canboot_gil_owned_by_current_def)
    then show "code_ok s' self ?rest" using vm idle rest by (auto simp: code_ok_def plain_def)
  qed
  have "g_sched s = None \<Longrightarrow> sched_inv (canboot_sched_preempt c self ?rest ?s)"
    by (rule preempt_inv [OF i1 r1 _ rest]) (use g1 own vm idle in simp_all)
  then show ?thesis
    using g g1 plainly [of ?s] plainly [OF quiet_upd_cpu, of "\<lambda>k. k\<lparr> need_resched := True \<rparr>" c]
    by (auto simp: canboot_sched_on_tick_def Let_def quiet_def)
qed

end
