(* ===== verification/Sched_Properties.thy ===== *)
theory Sched_Properties
  imports Sched_Safety
begin

text \<open>
  Every reachable scheduler state satisfies the invariant, and what follows for the threads, the
  GIL, interrupts and thread-local storage.
\<close>

section \<open>Steps keep the invariant\<close>

lemma runningI: "online (cpus s c) \<Longrightarrow> cpu_current (cpus s c) = Some t \<Longrightarrow> running s c = Some t"
  by (simp add: running_def)

lemma act_inv:
  assumes i: "sched_inv s" and r: "running s c = Some self" and td: "todo s self = a # rest"
    and g: "g_sched s = None \<or> g_sched s = Some c \<or> lockless a" and init: "init_ok s a"
    and a: "\<And>vm. a \<noteq> User vm" "a \<noteq> Dead"
  shows "\<exists>s'. run_act c self a rest s = Some s' \<and> sched_inv s'"
proof (cases "lockless a")
  case True
  note ll = lockless_inv [OF i r td, of _ "[]"]
  show ?thesis
  proof (cases a)
    case Iret
    then show ?thesis using iret_inv [OF i r] td by (simp add: run_act_def)
  next
    case (Mutex_init m)
    have "quiet s (set_rc self 0 (pthread_mutex_init m s))"
      using init by (auto simp: quiet_def Mutex_init init_ok_def set_rc_def frame_simps pthread_mutex_init_def
          upd_mutex_def elim!: queues_frame)
    then show ?thesis using ll Mutex_init by (simp add: run_act_def plain_def)
  next
    case (Cond_init v)
    have "quiet s (set_rc self 0 (pthread_cond_init v s))"
      using init by (auto simp: quiet_def Cond_init init_ok_def set_rc_def frame_simps pthread_cond_init_def
          upd_cond_def elim!: queues_frame)
    then show ?thesis using ll Cond_init by (simp add: run_act_def plain_def)
  next
    case Preempt_disable
    have "quiet s (canboot_preempt_disable c s)"
      unfolding canboot_preempt_disable_def by (rule quiet_upd_cpu) simp
    then show ?thesis using ll Preempt_disable by (simp add: run_act_def plain_def)
  next
    case Preempt_enable
    then show ?thesis using preempt_enable_inv [OF i r] td by (simp add: run_act_def)
  next
    case (Set_preemption b)
    have "quiet s (s\<lparr> g_preempt_enabled := b \<rparr>)" by (auto simp: quiet_def elim!: queues_frame)
    then show ?thesis using ll Set_preemption by (simp add: run_act_def plain_def)
  next
    case Arm_irqs
    have "quiet s (s\<lparr> g_irqs_armed := True \<rparr>)" by (auto simp: quiet_def elim!: queues_frame)
    then show ?thesis using ll Arm_irqs by (simp add: run_act_def plain_def)
  qed (use True in \<open>simp_all add: lockless_def\<close>)
next
  case False
  with g have g': "g_sched s = None \<or> g_sched s = Some c" by simp
  note inv = trampoline_inv [OF i r] unlock_inv [OF i r] idle_inv [OF i r _ g'] yield_inv [OF i r _ g']
    exit_inv [OF i r _ g'] detach_inv [OF i r _ g'] join_inv [OF i r _ g'] gil_acquire_inv [OF i r _ g']
    gil_release_inv [OF i r _ g'] pthread_join_inv [OF i r _ g'] mutex_trylock_inv [OF i r _ g']
    mutex_lock_inv [OF i r _ g'] mutex_unlock_inv [OF i r _ g'] cond_wait_inv [OF i r _ g']
    cond_park_inv [OF i r _ g'] signal_inv [OF i r _ g'] broadcast_inv [OF i r _ g'] once_inv [OF i r _ g']
    once_wait_inv [OF i r _ g'] once_done_inv [OF i r _ g']
  show ?thesis
  proof (cases a)
    case (Create fn arg)
    obtain x s1 where s1: "canboot_thread_create c self fn arg rest s = (x, s1)" by fastforce
    then have "sched_inv s1" using create_inv [OF i r _ g'] td Create by (metis snd_conv)
    moreover have "quiet s1 (upd_thr self (\<lambda>x. x\<lparr> th_rc := v, th_out := w \<rparr>) s1)" for v w
      by (auto simp: quiet_def frame_simps elim!: queues_upd_thr)
    ultimately have "sched_inv (pthread_create c self fn arg rest s)"
      using inv_quiet quiet_set_rc by (cases x) (simp_all add: pthread_create_def s1)
    then show ?thesis by (simp add: Create run_act_def)
  next
    case (Detach t)
    then show ?thesis using inv_quiet [OF detach_inv [OF i r _ g'] quiet_set_rc] td by (simp add: run_act_def)
  qed (use False inv td a in \<open>simp_all add: run_act_def lockless_def\<close>)
qed

lemma call_inv:
  assumes i: "sched_inv s" and r: "running s c = Some self" and td: "todo s self = User vm # rest"
  shows "sched_inv (invoke self k vm s)"
proof (cases "call_code k vm")
  case (Inl e)
  then show ?thesis using inv_quiet [OF i quiet_set_rc] by (simp add: invoke_def)
next
  case (Inr code)
  note st = lockless_start [OF i r td]
  have p: "pool self" using head_facts(5) [OF i r td] by auto
  have vm: "vm_ok (owns_gil s self) (User vm # rest)" using st(3) p by simp
  have code: "plain (code @ User vm # rest)" "vm_ok (owns_gil s self) (code @ User vm # rest)"
    using Inr st(2) vm
    by (auto simp: call_code_def null_checked_def plain_def split: call.splits option.splits if_splits)
  have todo: "sched_inv (set_todo self (code @ User vm # rest) s)"
    by (rule inv_set_todo [OF i r st(1) code(1)]) (use code(2) p in \<open>simp_all add: code_ok_def\<close>)
  have "quiet (set_todo self (code @ User vm # rest) s) (invoke self k vm s)"
    using Inr td by (auto simp: quiet_def invoke_def set_todo_def frame_simps elim!: queues_frame)
  with todo show ?thesis by (rule inv_quiet)
qed

lemma return_inv:
  assumes i: "sched_inv s" and r: "running s c = Some self" and td: "todo s self = User vm # rest"
  shows "sched_inv (upd_thr self (\<lambda>x. x\<lparr> th_todo := rest, th_ret := v \<rparr>) s)"
proof -
  have "quiet s (upd_thr self (\<lambda>x. x\<lparr> th_ret := v \<rparr>) s)"
    by (auto simp: quiet_def frame_simps elim!: queues_upd_thr)
  from lockless_inv [OF i r td _ this, of "[]"] show ?thesis
    by (cases "thr s self") (simp add: plain_def set_todo_def upd_thr_def)
qed

lemma ap_inv:
  assumes i: "sched_inv s" and c: "c < CANBOOT_NR_CPUS" "\<not> online (cpus s c)" and g: "g_sched s = None"
  shows "sched_inv (canboot_sched_ap_online c s)"
proof -
  let ?s = "canboot_sched_ap_online c s"
  note d = sched_invD [OF i]
  obtain Q where q: "queues s Q" and p: "placed (states s) (running s) Q"
    using sched_inv_core [OF i] by (auto simp: core_def)
  have same: "states ?s = (states s)(Idle c := CANBOOT_TH_RUNNING)" "running ?s = (running s)(c := Some (Idle c))"
    "todo ?s t = (if t = Idle c then [Idle_loop] else todo s t)" "owns_gil ?s t = owns_gil s t" "g_sched ?s = None"
    "tls_base (thr ?s t) = (if t = Idle c then fs_base (cpus s c) else tls_base (thr s t))"
    "th_entry (thr ?s t) = th_entry (thr s t)" "online (cpus ?s c') = (c' = c \<or> online (cpus s c'))"
    "cpu_idle (cpus ?s c') = (if c' = c then Some (Idle c) else cpu_idle (cpus s c'))"
    "cpu_current (cpus ?s c') = (if c' = c then Some (Idle c) else cpu_current (cpus s c'))"
    "fs_base (cpus ?s c') = fs_base (cpus s c')" for t c'
    using g by (auto simp: canboot_sched_ap_online_def frame_simps states_def running_def fun_eq_iff
        canboot_gil_owned_by_current_def)
  have "queues ?s Q"
    using q unfolding canboot_sched_ap_online_def by (auto simp: frame_simps elim!: queues_frame)
  moreover have "placed (states ?s) (running ?s) Q"
    unfolding same using c(2) by (intro placed_idle [OF p]) (simp add: running_def)
  ultimately have "core ?s (running ?s) Q" by (simp add: core_def)
  moreover have live: "pool t \<Longrightarrow> states ?s t = states s t" for t by (auto simp: same)
  then have "parked_ok ?s" "gil_ok ?s {}" using d(4, 5) by (auto simp: parked_ok_def gil_ok_def same(3, 4))
  moreover have fs: "fs_base (cpus s c) = Some Boot_tls" using d(2) c(2) by (simp add: thread_ok_def)
  then have "thread_ok ?s" using d(2) live by (auto simp: thread_ok_def same(6-8, 11))
  moreover have "cpus_ok ?s" using d(1) c(1) by (simp add: cpus_ok_def same)
  moreover have "fs_ok ?s (running ?s)"
    using d(3) placedD(7) [OF p] unfolding fs_ok_def same
    by (metis fun_upd_apply option.inject pool_not_Idle tid.inject(2))
  moreover have "idle_ok ?s (running ?s)" using d(6) by (auto simp: idle_ok_def same)
  moreover have "idle_acts ?s" using d(7) by (auto simp: idle_acts_def same)
  moreover have "plain_ok ?s (running ?s)"
    using i g placedD(7) [OF p] by (auto simp: sched_inv_def plain_ok_def same plain_def)
  ultimately show ?thesis unfolding sched_inv_def same(5) by auto
qed

lemma init_inv: "sched_inv (canboot_sched_init (Some Boot_tls) (zero_sched irq))" (is "sched_inv ?s")
proof -
  have st: "states ?s t = (if t = Pool 0 then CANBOOT_TH_RUNNING else if t = Idle 0 then CANBOOT_TH_RUNNABLE
      else CANBOOT_TH_FREE)" for t
    by (simp add: states_def canboot_sched_init_def zero_sched_def zero_thread_def)
  have run: "running ?s c = (if c = 0 then Some (Pool 0) else None)" for c
    by (simp add: running_def canboot_sched_init_def)
  have q: "get_q q ?s = empty_wq" for q
    by (cases q) (simp_all add: canboot_sched_init_def zero_sched_def zero_thread_def)
  have "queues ?s (\<lambda>_. [])" by (simp add: queues_def q_rep_def q empty_wq_def)
  moreover have pool0: "pool (Pool 0)" by (simp add: pool_def CANBOOT_THREAD_POOL_def)
  then have "placed (states ?s) (running ?s) (\<lambda>_. [])"
    by (auto simp: placed_def sep_def st run)
  ultimately have "core ?s (running ?s) (\<lambda>_. [])" by (simp add: core_def)
  moreover have todo: "todo ?s t = (if t = Pool 0 then [User True] else if t = Idle 0 then [Trampoline] else [])" for t
    by (simp add: canboot_sched_init_def zero_sched_def zero_thread_def arch_ctx_init_def)
  have cpus: "online (cpus ?s c) = (c = 0)" "cpu_idle (cpus ?s 0) = Some (Idle 0)" "cpu_current (cpus ?s 0) = Some (Pool 0)"
    "fs_base (cpus ?s c) = Some Boot_tls" for c
    by (simp_all add: canboot_sched_init_def zero_sched_def)
  have thr: "tls_base (thr ?s t) = (if t = Pool 0 \<or> t = Idle 0 then Some Boot_tls else None)"
    "th_entry (thr ?s t) = (if t = Idle 0 then Idle_entry else No_entry)" for t
    by (simp_all add: canboot_sched_init_def zero_sched_def zero_thread_def)
  have "cpus_ok ?s" by (simp add: cpus_ok_def cpus CANBOOT_NR_CPUS_def)
  moreover have "thread_ok ?s" by (auto simp: thread_ok_def cpus thr st live_def home_tls_def)
  moreover have "fs_ok ?s (running ?s)" by (simp add: fs_ok_def run cpus thr)
  moreover have "gil_ok ?s {}"
    by (auto simp: gil_ok_def todo canboot_gil_owned_by_current_def) (simp_all add: canboot_sched_init_def)
  moreover have "parked_ok ?s" by (auto simp: parked_ok_def st todo plain_def pool_def)
  moreover have "idle_ok ?s (running ?s)" by (simp add: idle_ok_def cpus run todo plain_def)
  moreover have "idle_acts ?s" by (auto simp: idle_acts_def todo thr)
  moreover have "plain_ok ?s (running ?s)" by (simp add: plain_ok_def run todo plain_def)
  moreover have "g_sched ?s = None" by (simp add: canboot_sched_init_def)
  ultimately show ?thesis unfolding sched_inv_def by auto
qed

lemma step_inv: "step s s' \<Longrightarrow> sched_inv s \<Longrightarrow> sched_inv s'"
proof (induction rule: step.induct)
  case (step_act c s self a rest s')
  have r: "running s c = Some self" using step_act(2, 3) by (rule runningI)
  have "a \<noteq> User vm" "a \<noteq> Dead" for vm using step_act(7) by (auto simp: run_act_def)
  then show ?case using act_inv [OF step_act(8) r step_act(4, 5, 6)] step_act(7) by auto
qed (auto intro: call_inv return_inv tick_inv ap_inv runningI)

lemma reachable_inv: "reachable s \<Longrightarrow> sched_inv s"
  by (induction rule: reachable.induct) (auto intro: init_inv step_inv)

section \<open>What holds in every reachable state\<close>

text \<open>C5: In every reachable state the intrusive lists of the scheduler are well-formed FIFO queues
  and every pool thread is in exactly one place: a RUNNABLE thread is in the run queue, a BLOCKED one
  in exactly one wait queue, a RUNNING one on exactly one CPU.\<close>

theorem threads_in_one_place:
  assumes "reachable s"
  shows "\<exists>Q. queues s Q \<and> placed (states s) (running s) Q"
  using sched_inv_core [OF reachable_inv [OF assms]] by (auto simp: core_def)

theorem threads_in_one_place_witness:
  "\<exists>Q. queues (canboot_sched_init (Some Boot_tls) (zero_sched (\<lambda>_. False))) Q \<and>
     placed (states (canboot_sched_init (Some Boot_tls) (zero_sched (\<lambda>_. False))))
       (running (canboot_sched_init (Some Boot_tls) (zero_sched (\<lambda>_. False)))) Q"
  by (rule threads_in_one_place [OF reachable_init])

lemma in_vm_owns:
  assumes "reachable s" and "running s c = Some t" and "todo s t = User True # rest"
  shows "g_gil_locked s \<and> g_gil_owner s = Some t"
proof -
  note i = reachable_inv [OF assms(1)]
  have p: "pool t" using head_facts(5) [OF i assms(2, 3)] by auto
  show ?thesis using lockless_start(3) [OF i assms(2, 3)] p assms(3)
    by (simp add: canboot_gil_owned_by_current_def)
qed

text \<open>C3: The GIL is a mutual exclusion lock for the virtual machine: in every reachable state, two
  CPUs whose threads execute code that needs the GIL are the same CPU, whatever the interleaving of
  their steps, of timer preemption and of the boot of further CPUs; and that thread owns the GIL.\<close>

theorem gil_mutual_exclusion:
  assumes "reachable s" and "running s c = Some t" and "running s c' = Some t'"
    and "todo s t = User True # rest" and "todo s t' = User True # rest'"
  shows "c = c' \<and> t = t' \<and> g_gil_locked s \<and> g_gil_owner s = Some t"
proof -
  obtain Q where "placed (states s) (running s) Q"
    using sched_inv_core [OF reachable_inv [OF assms(1)]] by (auto simp: core_def)
  then have "running s a = Some t \<Longrightarrow> running s b = Some t \<Longrightarrow> a = b" for a b
    using placedD(8) by blast
  with assms(2, 3) in_vm_owns [OF assms(1, 2, 4)] in_vm_owns [OF assms(1, 3, 5)] show ?thesis by auto
qed

theorem gil_mutual_exclusion_witness:
  "(0::nat) = 0 \<and> Pool 0 = Pool 0 \<and> g_gil_locked (canboot_sched_init (Some Boot_tls) (zero_sched (\<lambda>_. False))) \<and>
   g_gil_owner (canboot_sched_init (Some Boot_tls) (zero_sched (\<lambda>_. False))) = Some (Pool 0)"
  by (rule gil_mutual_exclusion [OF reachable_init, of _ 0 _ 0 _ "[]" "[]"])
    (simp_all add: running_def canboot_sched_init_def)

lemma reschedule_keeps:
  "g_gil_locked (reschedule c s) = g_gil_locked s" "g_gil_owner (reschedule c s) = g_gil_owner s"
  "todo (reschedule c s) t = todo s t"
  using wq_pop_frame(5, 6) [of Q_run s] wq_pop_frame(8) [of Q_run s t]
  by (auto simp: reschedule_def rq_pop_def Let_def upd_thr_frame upd_cpu_frame set_state_def split_beta split: option.split)

text \<open>A run used by the witnesses below: the boot thread creates a thread, CPU 1 comes online and its
  idle thread picks the new thread up.\<close>

definition demo0 :: sched where "demo0 = canboot_sched_init (Some Boot_tls) (zero_sched (\<lambda>_. False))"
definition demo1 :: sched where "demo1 = invoke (Pool 0) (C_thread_create 7 9) True demo0"
definition demo2 :: sched where "demo2 = pthread_create 0 (Pool 0) (Raw_entry 7) 9 [User True] demo1"
definition demo3 :: sched where "demo3 = canboot_sched_ap_online 1 demo2"
definition demo4 :: sched where "demo4 = idle_entry 1 (Idle 1) [] demo3"

lemmas demo_simps = demo0_def canboot_sched_init_def zero_sched_def zero_thread_def demo1_def invoke_def call_code_def

lemma demo0_facts: "online (cpus demo0 0)" "cpu_current (cpus demo0 0) = Some (Pool 0)" "todo demo0 (Pool 0) = [User True]"
  "g_sched demo0 = None"
  by (simp_all add: demo_simps)

lemma demo1_facts: "online (cpus demo1 c) = (c = 0)" "cpu_current (cpus demo1 0) = Some (Pool 0)"
  "todo demo1 (Pool 0) = [Create (Raw_entry 7) 9, User True]" "g_sched demo1 = None"
  "states demo1 (Pool (Suc 0)) = CANBOOT_TH_FREE" "g_runq demo1 = empty_wq"
  by (simp_all add: demo_simps frame_simps states_def)

lemma find_1: "P (Suc 0) \<Longrightarrow> find P [Suc 0 ..< CANBOOT_THREAD_POOL] = Some (Suc 0)"
  by (simp add: CANBOOT_THREAD_POOL_def upt_conv_Cons)

lemmas create_simps = pthread_create_def canboot_thread_create_def Let_def enter_def canboot_sched_lock_def leave_def
  canboot_sched_unlock_def rq_push_def wq_push_def set_todo_def upd_thr_def upd_cpu_def set_next_def empty_wq_def

lemma demo2_facts: "online (cpus demo2 c) = (c = 0)" "cpu_current (cpus demo2 0) = Some (Pool 0)" 
   "g_sched demo2 = None" "g_runq demo2 = \<lparr> wq_head = Some (Pool 1), wq_tail = Some (Pool 1) \<rparr>"
   "q_next (thr demo2 (Pool 1)) = None" "tls_base (thr demo2 (Pool 1)) = Some (Thread_tls 1)"
  using demo1_facts unfolding demo2_def states_def
  by (simp_all add: create_simps find_1 arch_ctx_init_def)

lemma demo3_facts: "online (cpus demo3 c) = (c = 0 \<or> c = 1)" "cpu_current (cpus demo3 1) = Some (Idle 1)" "todo demo3 (Idle 1) = [Idle_loop]"
   "g_sched demo3 = None" "g_runq demo3 = \<lparr> wq_head = Some (Pool 1), wq_tail = Some (Pool 1) \<rparr>"
   "q_next (thr demo3 (Pool 1)) = None" "tls_base (thr demo3 (Pool 1)) = Some (Thread_tls 1)"
   "cpu_current (cpus demo3 0) = Some (Pool 0)" 
  using demo2_facts by (auto simp: demo3_def canboot_sched_ap_online_def frame_simps)

lemma demo4_facts: "running demo4 0 = Some (Pool 0)" "running demo4 1 = Some (Pool 1)" "g_sched demo4 = Some 1"
  using demo3_facts
  by (simp_all add: demo4_def idle_entry_def reschedule_def rq_pop_def wq_pop_def create_simps running_def)

lemma demo_reachable: "reachable demo1" "reachable demo4"
proof -
  have n: "(0::nat) < CANBOOT_NR_CPUS" "(1::nat) < CANBOOT_NR_CPUS" by (simp_all add: CANBOOT_NR_CPUS_def)
  have "reachable demo0" unfolding demo0_def by (rule reachable_init)
  moreover have "step demo0 demo1"
    unfolding demo1_def by (rule step_call [OF n(1) demo0_facts(1-3)])
  ultimately show r: "reachable demo1" by (rule reachable_step)
  have "step demo1 demo2"
    by (rule step_act [OF n(1), of _ "Pool 0" "Create (Raw_entry 7) 9" "[User True]"])
      (simp_all add: demo1_facts init_ok_def run_act_def demo2_def)
  with r have "reachable demo2" by (rule reachable_step)
  moreover have "step demo2 demo3"
    unfolding demo3_def by (rule step_ap [OF n(2)]) (simp_all add: demo2_facts)
  ultimately have "reachable demo3" by (rule reachable_step)
  moreover have "step demo3 demo4"
    by (rule step_act [OF n(2), of _ "Idle 1" Idle_loop "[]"])
      (use demo3_facts in \<open>simp_all add: init_ok_def run_act_def demo4_def\<close>)
  ultimately show "reachable demo4" by (rule reachable_step)
qed

definition exiting :: sched where "exiting = invoke (Pool 0) (C_exit 5) True demo0"

lemma exiting_facts: "reachable exiting" "running exiting 0 = Some (Pool 0)" "todo exiting (Pool 0) = [Exit, User True]"
  "g_sched exiting = None" "owns_gil exiting (Pool 0)"
proof -
  have "(0::nat) < CANBOOT_NR_CPUS" by (simp add: CANBOOT_NR_CPUS_def)
  from step_call [OF this demo0_facts(1-3)] show "reachable exiting"
    using reachable_step [OF reachable_init] unfolding demo0_def exiting_def by blast
qed (simp_all add: exiting_def running_def canboot_gil_owned_by_current_def demo_simps frame_simps)

text \<open>C11: Whenever the scheduler lock is held, its holder is an online CPU with interrupts disabled and
  a thread that is about to release it or to retry its blocking loop: the timer handler, which takes
  the same lock, never runs on the CPU that holds it.\<close>

theorem lock_holder_masks_interrupts:
  assumes "reachable s" and "g_sched s = Some c"
  shows "online (cpus s c) \<and> \<not> irq_on (cpus s c) \<and> (\<exists>t. running s c = Some t \<and> parked (todo s t))"
  using reachable_inv [OF assms(1)] assms(2) by (simp add: sched_inv_def lock_ok_def)

theorem lock_holder_masks_interrupts_witness:
  "online (cpus demo4 1) \<and> \<not> irq_on (cpus demo4 1) \<and> (\<exists>t. running demo4 1 = Some t \<and> parked (todo demo4 t))"
  by (rule lock_holder_masks_interrupts [OF demo_reachable(2) demo4_facts(3)])

text \<open>C9: No critical section gets stuck inside: in every reachable state, a CPU whose thread is at a
  scheduler or pthread operation and can take the lock completes that critical section (the loops
  that drain wait queues end), so that the system can take this step.\<close>

theorem critical_section_completes:
  assumes "reachable s" and "running s c = Some self" and "todo s self = a # rest"
    and "g_sched s = None \<or> g_sched s = Some c \<or> lockless a" and "init_ok s a" and "\<forall>vm. a \<noteq> User vm" and "a \<noteq> Dead"
  shows "\<exists>s'. run_act c self a rest s = Some s' \<and> step s s' \<and> reachable s'"
proof -
  note i = reachable_inv [OF assms(1)]
  obtain s' where s': "run_act c self a rest s = Some s'" using act_inv [OF i assms(2-5)] assms(6, 7) by blast
  have on: "online (cpus s c)" "cpu_current (cpus s c) = Some self"
    using assms(2) by (simp_all add: running_def split: if_splits)
  then have "c < CANBOOT_NR_CPUS" using sched_invD(1) [OF i] by (simp add: cpus_ok_def)
  from step_act [OF this on assms(3-5) s'] reachable_step [OF assms(1)] s' show ?thesis by blast
qed

theorem critical_section_completes_witness:
  "\<exists>s'. run_act 0 (Pool 0) Exit [User True] exiting = Some s' \<and> step exiting s' \<and> reachable s'"
  by (rule critical_section_completes [OF exiting_facts(1-3)]) (use exiting_facts(4) in \<open>simp_all add: init_ok_def\<close>)

text \<open>C15: Thread-local storage of pool threads is private: two threads of the pool (the boot thread and
  the threads created later, not the idle threads) that run at the same time on different CPUs have
  different TLS areas in the TLS registers of these CPUs, each the one set up for that thread.\<close>

theorem tls_registers_disjoint:
  assumes "reachable s" and "running s c = Some t" and "running s c' = Some t'" and "pool t" and "pool t'" and "c \<noteq> c'"
  shows "fs_base (cpus s c) = Some (home_tls t) \<and> fs_base (cpus s c') = Some (home_tls t') \<and>
    fs_base (cpus s c) \<noteq> fs_base (cpus s c')"
proof -
  note i = reachable_inv [OF assms(1)]
  obtain Q where p: "placed (states s) (running s) Q" using sched_inv_core [OF i] by (auto simp: core_def)
  have fs: "fs_base (cpus s k) = Some (home_tls x)" if "running s k = Some x" "pool x" for k x
  proof -
    have "states s x = CANBOOT_TH_RUNNING" using placedD(5) [OF p that(2)] that(1) by blast
    then have "tls_base (thr s x) = Some (home_tls x)"
      using sched_invD(2) [OF i] that(2) by (simp add: thread_ok_def live_def)
    then show ?thesis using sched_invD(3) [OF i] that(1) by (simp add: fs_ok_def)
  qed
  moreover have "t \<noteq> t'" using placedD(8) [OF p] assms(2, 3, 6) by blast
  then have "home_tls t \<noteq> home_tls t'"
    using assms(4, 5) by (auto simp: home_tls_def pool_def split: tid.splits if_splits)
  ultimately show ?thesis using assms(2-5) by simp
qed

theorem tls_registers_disjoint_witness:
  "fs_base (cpus demo4 0) = Some (home_tls (Pool 0)) \<and> fs_base (cpus demo4 1) = Some (home_tls (Pool 1)) \<and>
    fs_base (cpus demo4 0) \<noteq> fs_base (cpus demo4 1)"
  by (rule tls_registers_disjoint [OF demo_reachable(2) demo4_facts(1, 2)])
    (simp_all add: pool_def CANBOOT_THREAD_POOL_def)

text \<open>Waking every waiter of a queue returns, empties the queue and appends its threads to the run
  queue in the order in which they blocked; no other queue changes.\<close>

theorem wake_all_is_fifo:
  assumes "queues s Q" and "placed (states s) run Q" and "q \<noteq> Q_run"
  shows "\<exists>s'. canboot_sched_wake_all q s = Some s' \<and> queues s' (Q(q := [], Q_run := Q Q_run @ Q q)) \<and>
    placed (states s') run (Q(q := [], Q_run := Q Q_run @ Q q))"
  using wake_all_core [of s run Q q] assms by (auto simp: core_def)

definition waiting0 :: sched where
  "waiting0 = set_state (Pool 1) CANBOOT_TH_BLOCKED (set_state (Pool 2) CANBOOT_TH_BLOCKED (zero_sched (\<lambda>_. False)))"
definition waiting :: sched where
  "waiting = wq_push Q_gil (Pool 1) (wq_push Q_gil (Pool 2) waiting0)"

lemma waiting_facts:
  "queues waiting ((\<lambda>_. [])(Q_gil := [Pool 2, Pool 1]))"
  "placed (states waiting) (\<lambda>_. None) ((\<lambda>_. [])(Q_gil := [Pool 2, Pool 1]))"
proof -
  have "get_q q waiting0 = empty_wq" for q
    by (cases q) (simp_all add: waiting0_def zero_sched_def zero_thread_def set_state_def frame_simps)
  then have "queues waiting0 (\<lambda>_. [])" by (simp add: queues_def q_rep_def empty_wq_def)
  from queues_push [OF this, of "Pool 2" Q_gil]
  have "queues (wq_push Q_gil (Pool 2) waiting0) ((\<lambda>_. [])(Q_gil := [Pool 2]))" by simp
  from queues_push [OF this, of "Pool 1" Q_gil] show "queues waiting ((\<lambda>_. [])(Q_gil := [Pool 2, Pool 1]))"
    by (simp add: waiting_def)
  have st: "states waiting t = (if t = Pool 1 \<or> t = Pool 2 then CANBOOT_TH_BLOCKED else CANBOOT_TH_FREE)" for t
    by (simp add: states_def waiting_def waiting0_def frame_simps set_state_def zero_sched_def zero_thread_def)
  show "placed (states waiting) (\<lambda>_. None) ((\<lambda>_. [])(Q_gil := [Pool 2, Pool 1]))"
    by (auto simp: placed_def sep_def st pool_def CANBOOT_THREAD_POOL_def)
qed

theorem wake_all_is_fifo_witness:
  "\<exists>s'. canboot_sched_wake_all Q_gil waiting = Some s' \<and>
     queues s' ((\<lambda>_. [])(Q_gil := [], Q_run := [Pool 2, Pool 1]))"
  using wake_all_is_fifo [OF waiting_facts, of Q_gil] by auto

section \<open>The GIL of a thread that exited\<close>

text \<open>The GIL changes hands in \<open>canboot_gil_acquire\<close> and \<open>canboot_gil_release\<close> only.\<close>

definition gil_holder :: "sched \<Rightarrow> bool \<times> tid option" where
  "gil_holder s = (g_gil_locked s, g_gil_owner s)"

named_theorems gil_simps "operations that leave the GIL alone"

lemma holder_primitives [gil_simps]:
  "gil_holder (upd_thr t f s) = gil_holder s" "gil_holder (upd_cpu c g s) = gil_holder s"
  "gil_holder (set_state t st s) = gil_holder s" "gil_holder (set_todo t as s) = gil_holder s"
  "gil_holder (set_rc t v s) = gil_holder s" "gil_holder (wq_push q t s) = gil_holder s"
  "gil_holder (snd (wq_pop q s)) = gil_holder s" "gil_holder (upd_mutex m h s) = gil_holder s"
  "gil_holder (upd_cond w k s) = gil_holder s" "gil_holder (upd_once w l s) = gil_holder s"
  "gil_holder (s\<lparr> g_sched := x \<rparr>) = gil_holder s" "gil_holder (s\<lparr> g_ticks := n \<rparr>) = gil_holder s"
  "gil_holder (s\<lparr> g_thread_tls := y \<rparr>) = gil_holder s" "gil_holder (s\<lparr> g_preempt_enabled := b \<rparr>) = gil_holder s"
  "gil_holder (s\<lparr> g_irqs_armed := b \<rparr>) = gil_holder s" "gil_holder (reschedule c s) = gil_holder s"
  by (simp_all add: gil_holder_def frame_simps set_state_def set_todo_def set_rc_def upd_mutex_def upd_cond_def
      upd_once_def reschedule_keeps)

lemma holder_sections [gil_simps]:
  "gil_holder (enter c self s) = gil_holder s" "gil_holder (leave c self rest s) = gil_holder s"
  "gil_holder (make_runnable t s) = gil_holder s" "gil_holder (canboot_sched_wake_one q s) = gil_holder s"
  "gil_holder (canboot_sched_block_on c self q s) = gil_holder s"
  by (cases "wq_pop q s"; use holder_primitives(7) [of q s] in \<open>auto simp: enter_def leave_def canboot_sched_lock_def canboot_sched_unlock_def make_runnable_def rq_push_def
      canboot_sched_wake_one_def canboot_sched_block_on_def holder_primitives split: option.splits\<close>)+

lemma holder_wake_all:
  assumes "canboot_sched_wake_all q s = Some s'"
  shows "gil_holder s' = gil_holder s"
proof (rule canboot_sched_wake_all.raw_induct [of "\<lambda>q s s'. gil_holder s' = gil_holder s", OF _ assms])
  fix rec q s s'
  assume "\<And>q s s'. rec q s = Some s' \<Longrightarrow> gil_holder s' = gil_holder s"
    and "(case wq_pop q s of (popped, s1) \<Rightarrow>
      case popped of None \<Rightarrow> Some s1 | Some t \<Rightarrow> rec q (make_runnable t s1)) = Some s'"
  then show "gil_holder s' = gil_holder s"
    using holder_primitives(7) [of q s] by (cases "wq_pop q s") (auto simp: holder_sections(3) split: option.splits)
qed

lemma holder_act:
  assumes "run_act c self a rest s = Some s'" and "a \<noteq> Gil_release"
    and "a = Gil_acquire \<Longrightarrow> g_gil_locked s \<and> g_gil_owner s \<noteq> Some self"
  shows "gil_holder s' = gil_holder s"
proof (cases a)
  case Gil_acquire
  have "g_gil_locked (enter c self s) \<and> g_gil_owner (enter c self s) \<noteq> Some self"
    using assms(3) Gil_acquire holder_sections(1) [of c self s] by (simp add: gil_holder_def)
  then show ?thesis using assms(1) Gil_acquire
    by (auto simp: run_act_def canboot_gil_acquire_def Let_def gil_simps)
next
  case Exit
  then show ?thesis using assms(1)
    by (auto simp: run_act_def canboot_thread_exit_def Let_def gil_simps dest!: holder_wake_all split: option.splits)
next
  case (Cond_broadcast v)
  then show ?thesis using assms(1)
    by (auto simp: run_act_def pthread_cond_broadcast_def gil_simps dest!: holder_wake_all)
next
  case (Once_done v)
  then show ?thesis using assms(1)
    by (auto simp: run_act_def once_done_def gil_simps dest!: holder_wake_all)
qed (use assms(1, 2) in \<open>auto simp: run_act_def thread_trampoline_def idle_entry_def canboot_sched_yield_def
    pthread_create_def canboot_thread_create_def canboot_thread_detach_def canboot_thread_join_def pthread_join_def
    pthread_mutex_init_def pthread_mutex_trylock_def pthread_mutex_lock_def pthread_mutex_unlock_def take_mutex_def
    drop_mutex_def pthread_cond_init_def pthread_cond_wait_def cond_park_def pthread_cond_signal_def
    pthread_once_def once_wait_def canboot_preempt_disable_def canboot_preempt_enable_def rq_push_def
    Let_def gil_simps split: option.splits\<close>)

text \<open>A thread that neither runs nor waits cannot give the GIL up, and nobody else can take it.\<close>

lemma step_keeps_dead_owner:
  assumes st: "step s s'" and i: "sched_inv s" and t: "pool t" "\<not> live (states s t)" "gil_holder s = (True, Some t)"
  shows "gil_holder s' = (True, Some t)"
  using st
proof cases
  case (step_act c self a rest)
  have r: "running s c = Some self" using step_act(2, 3) by (rule runningI)
  obtain Q where Q: "core s (running s) Q" using i by (rule sched_inv_core)
  have ne: "self \<noteq> t" using running_state [OF Q r] t(1, 2) by (auto simp: live_def)
  then have "\<not> owns_gil s self" using t(3) by (simp add: canboot_gil_owned_by_current_def gil_holder_def)
  then have "a \<noteq> Gil_release"
    using lockless_start(3) [OF i r step_act(4)] head_facts(5) [OF i r step_act(4)] by (cases "pool self") auto
  with holder_act [OF step_act(7)] ne t(3) show ?thesis by (simp add: gil_holder_def)
qed (use t(3) in \<open>auto simp: invoke_def canboot_sched_on_tick_def canboot_sched_preempt_def
    canboot_sched_ap_online_def Let_def gil_simps split: sum.splits\<close>)

text \<open>The runs from \<open>s\<close> in which slot \<open>t\<close> is not given to a new thread.\<close>

inductive without_reuse :: "tid \<Rightarrow> sched \<Rightarrow> sched \<Rightarrow> bool" for t :: tid and s :: sched where
  without_reuse_refl: "\<not> live (states s t) \<Longrightarrow> without_reuse t s s"
| without_reuse_step: "without_reuse t s s' \<Longrightarrow> step s' s'' \<Longrightarrow> \<not> live (states s'' t) \<Longrightarrow> without_reuse t s s''"

lemma dead_owner_keeps:
  assumes "without_reuse t s s'" and "reachable s" and "pool t" and "gil_holder s = (True, Some t)"
  shows "reachable s' \<and> \<not> live (states s' t) \<and> gil_holder s' = (True, Some t)"
  using assms
proof (induction rule: without_reuse.induct)
  case (without_reuse_step s' s'')
  then have "reachable s'" "\<not> live (states s' t)" "gil_holder s' = (True, Some t)" by auto
  with without_reuse_step show ?case
    using reachable_step step_keeps_dead_owner [OF _ reachable_inv] by blast
qed simp

text \<open>C40: A thread that exits while it holds the GIL takes it along: in every later state up to the
  creation of a new thread in its slot, the GIL is locked in the name of the exited thread and no CPU
  executes code that needs the GIL.\<close>

theorem exit_keeps_gil:
  assumes "reachable s" and "running s c = Some self" and "todo s self = Exit # rest"
    and "g_sched s = None \<or> g_sched s = Some c" and "owns_gil s self"
  shows "\<exists>s'. run_act c self Exit rest s = Some s' \<and> \<not> live (states s' self) \<and>
    (\<forall>s''. without_reuse self s' s'' \<longrightarrow> g_gil_locked s'' \<and> g_gil_owner s'' = Some self \<and>
      (\<forall>c' t rest'. running s'' c' = Some t \<longrightarrow> todo s'' t \<noteq> User True # rest'))"
proof -
  note i = reachable_inv [OF assms(1)]
  obtain s' where ex: "canboot_thread_exit c self s = Some s'" using exit_inv [OF i assms(2-4)] by blast
  then have s': "run_act c self Exit rest s = Some s'" by (simp add: run_act_def)
  have on: "online (cpus s c)" "cpu_current (cpus s c) = Some self"
    using assms(2) by (simp_all add: running_def split: if_splits)
  then have "c < CANBOOT_NR_CPUS" using sched_invD(1) [OF i] by (simp add: cpus_ok_def)
  from step_act [OF this on assms(3) _ _ s'] have r: "reachable s'"
    using reachable_step [OF assms(1)] assms(4) by (auto simp: init_ok_def)
  have p: "pool self" using exit_dead [OF i assms(2-4) ex] ..
  have h: "gil_holder s' = (True, Some self)"
    using holder_act [OF s'] assms(5) by (simp add: gil_holder_def canboot_gil_owned_by_current_def)
  have "g_gil_locked s'' \<and> g_gil_owner s'' = Some self \<and>
      (\<forall>c' t rest'. running s'' c' = Some t \<longrightarrow> todo s'' t \<noteq> User True # rest')" if "without_reuse self s' s''" for s''
  proof -
    note d = dead_owner_keeps [OF that r p h]
    obtain Q where Q: "core s'' (running s'') Q" using sched_inv_core reachable_inv d by blast
    have "running s'' c' \<noteq> Some self" for c' using running_state [OF Q] p d by (auto simp: live_def)
    then show ?thesis using d in_vm_owns [of s''] by (fastforce simp: gil_holder_def)
  qed
  then show ?thesis using s' exit_dead [OF i assms(2-4) ex] by blast
qed

lemma exited_facts:
  assumes "run_act 0 (Pool 0) Exit [User True] exiting = Some s'"
  shows "online (cpus s' 0)" "cpu_current (cpus s' 0) = Some (Idle 0)" "todo s' (Idle 0) = [Trampoline]" "g_sched s' = Some 0"
  using assms
  by (auto simp: run_act_def canboot_thread_exit_def Let_def canboot_sched_wake_all.simps wq_pop_def exiting_def
      demo_simps enter_def canboot_sched_lock_def reschedule_def rq_pop_def set_state_def set_todo_def frame_simps
      empty_wq_def arch_ctx_init_def)

theorem exit_keeps_gil_witness:
  "\<exists>s'. run_act 0 (Pool 0) Exit [User True] exiting = Some s' \<and> step s' (thread_trampoline 0 (Idle 0) s') \<and>
     g_gil_locked (thread_trampoline 0 (Idle 0) s') \<and> g_gil_owner (thread_trampoline 0 (Idle 0) s') = Some (Pool 0)"
proof -
  obtain s' where s': "run_act 0 (Pool 0) Exit [User True] exiting = Some s'" "\<not> live (states s' (Pool 0))"
    and later: "\<And>s''. without_reuse (Pool 0) s' s'' \<Longrightarrow> g_gil_locked s'' \<and> g_gil_owner s'' = Some (Pool 0)"
    using exit_keeps_gil [OF exiting_facts(1-3)] exiting_facts(4, 5) by blast
  let ?t = "thread_trampoline 0 (Idle 0) s'"
  have st: "step s' ?t"
    by (rule step_act [of 0 _ "Idle 0" Trampoline "[]"])
      (use exited_facts [OF s'(1)] in \<open>simp_all add: CANBOOT_NR_CPUS_def init_ok_def run_act_def\<close>)
  have "states ?t (Pool 0) = states s' (Pool 0)"
    by (simp add: states_def thread_trampoline_def Let_def set_todo_def frame_simps)
  then have "without_reuse (Pool 0) s' ?t"
    using without_reuse_step [OF without_reuse_refl [OF s'(2)] st] s'(2) by simp
  from later [OF this] show ?thesis using s'(1) st by blast
qed

end
