(* ===== verification/Display.thy ===== *)
theory Display
  imports Canboot_Prelude
begin

text \<open>
  The framebuffer primitives of \<open>hal/display/display.c\<close>: clear, rectangles, pixels, lines, images,
  block moves and text. The state is the descriptor bound at boot, the channel shifts and the
  memory, as 32-bit words by address. \<open>int32_t\<close> values are integers, with \<open>s32\<close> at every operation
  that may leave the range of the type.
\<close>

section \<open>Definitions\<close>

record canboot_fb =
  fb_addr :: u64
  width :: u32
  height :: u32
  pitch :: u32
  bpp :: u8
  fb_format :: u8
  red_mask_size :: u8
  red_mask_shift :: u8
  green_mask_size :: u8
  green_mask_shift :: u8
  blue_mask_size :: u8
  blue_mask_shift :: u8

definition CANBOOT_FB_RGB :: u8 where "CANBOOT_FB_RGB = 1"

record display =
  g_fb :: "canboot_fb option"
  g_red_shift :: u32
  g_green_shift :: u32
  g_blue_shift :: u32
  vram :: "u64 \<Rightarrow> u32"

definition canboot_display_bind :: "canboot_fb option \<Rightarrow> display \<Rightarrow> display" where
  "canboot_display_bind fb d = (case fb of None \<Rightarrow> d\<lparr> g_fb := None \<rparr>
    | Some f \<Rightarrow>
        if fb_format f \<noteq> CANBOOT_FB_RGB \<or> bpp f \<noteq> 32 then d\<lparr> g_fb := None \<rparr>
        else d\<lparr> g_fb := Some f, g_red_shift := ucast (red_mask_shift f), g_green_shift := ucast (green_mask_shift f),
          g_blue_shift := ucast (blue_mask_shift f) \<rparr>)"

definition hal_display_present :: "display \<Rightarrow> bool" where
  "hal_display_present d = (g_fb d \<noteq> None)"

definition hal_display_width :: "display \<Rightarrow> int" where
  "hal_display_width d = (case g_fb d of None \<Rightarrow> 0 | Some f \<Rightarrow> s32 (uint (width f)))"

definition hal_display_height :: "display \<Rightarrow> int" where
  "hal_display_height d = (case g_fb d of None \<Rightarrow> 0 | Some f \<Rightarrow> s32 (uint (height f)))"

definition encode_pixel :: "display \<Rightarrow> u32 \<Rightarrow> u32" where
  "encode_pixel d rgb =
    (let r = drop_bit 16 rgb AND 0xFF;
         g = drop_bit 8 rgb AND 0xFF;
         b = rgb AND 0xFF in
     push_bit (unat (g_red_shift d)) r OR push_bit (unat (g_green_shift d)) g OR push_bit (unat (g_blue_shift d)) b)"

definition decode_pixel :: "display \<Rightarrow> u32 \<Rightarrow> u32" where
  "decode_pixel d raw =
    (let r = drop_bit (unat (g_red_shift d)) raw AND 0xFF;
         g = drop_bit (unat (g_green_shift d)) raw AND 0xFF;
         b = drop_bit (unat (g_blue_shift d)) raw AND 0xFF in
     push_bit 16 r OR push_bit 8 g OR b)"

definition fb_row :: "canboot_fb \<Rightarrow> int \<Rightarrow> u64" where
  "fb_row f y = fb_addr f + word_of_int y * ucast (pitch f)"

text \<open>The address of \<open>row[x]\<close>, and a store to it.\<close>

definition cell :: "u64 \<Rightarrow> int \<Rightarrow> u64" where
  "cell row x = row + 4 * word_of_int x"

definition store :: "u64 \<Rightarrow> u32 \<Rightarrow> display \<Rightarrow> display" where
  "store a v d = d\<lparr> vram := (vram d)(a := v) \<rparr>"

definition hal_display_clear :: "u32 \<Rightarrow> display \<Rightarrow> display" where
  "hal_display_clear color d = (case g_fb d of None \<Rightarrow> d
    | Some f \<Rightarrow>
        let raw = encode_pixel d color in
        fold (\<lambda>y. fold (\<lambda>x. store (cell (fb_row f (s32 y)) x) raw) [0 .. uint (width f) - 1])
          [0 .. uint (height f) - 1] d)"

definition hal_display_fill_rect :: "int \<Rightarrow> int \<Rightarrow> int \<Rightarrow> int \<Rightarrow> u32 \<Rightarrow> display \<Rightarrow> display" where
  "hal_display_fill_rect x0 y0 w h color d = (case g_fb d of None \<Rightarrow> d
    | Some f \<Rightarrow>
        if w \<le> 0 \<or> h \<le> 0 then d
        else
          let x1 = s32 (x0 + w);
              y1 = s32 (y0 + h);
              x0 = (if x0 < 0 then 0 else x0);
              y0 = (if y0 < 0 then 0 else y0);
              x1 = (if s32 (uint (width f)) < x1 then s32 (uint (width f)) else x1);
              y1 = (if s32 (uint (height f)) < y1 then s32 (uint (height f)) else y1);
              raw = encode_pixel d color in
          fold (\<lambda>y. fold (\<lambda>x. store (cell (fb_row f y) x) raw) [x0 .. x1 - 1]) [y0 .. y1 - 1] d)"

text \<open>\<open>x < 0 || y < 0 || x >= (int32_t)g_fb->width || y >= (int32_t)g_fb->height\<close>, negated.\<close>

definition on_screen :: "canboot_fb \<Rightarrow> int \<Rightarrow> int \<Rightarrow> bool" where
  "on_screen f x y \<longleftrightarrow> \<not> (x < 0 \<or> y < 0 \<or> s32 (uint (width f)) \<le> x \<or> s32 (uint (height f)) \<le> y)"

definition hal_display_pixel :: "int \<Rightarrow> int \<Rightarrow> u32 \<Rightarrow> display \<Rightarrow> display" where
  "hal_display_pixel x y color d = (case g_fb d of None \<Rightarrow> d
    | Some f \<Rightarrow> if \<not> on_screen f x y then d else store (cell (fb_row f y) x) (encode_pixel d color) d)"

definition hal_display_get_pixel :: "int \<Rightarrow> int \<Rightarrow> display \<Rightarrow> u32" where
  "hal_display_get_pixel x y d = (case g_fb d of None \<Rightarrow> 0
    | Some f \<Rightarrow> if \<not> on_screen f x y then 0 else decode_pixel d (vram d (cell (fb_row f y) x)))"

text \<open>The loop of \<open>hal_display_line\<close>, whose condition is \<open>1\<close>: it ends at the second end point.\<close>

partial_function (option) line_loop ::
    "canboot_fb \<Rightarrow> u32 \<Rightarrow> int \<Rightarrow> int \<Rightarrow> int \<Rightarrow> int \<Rightarrow> int \<Rightarrow> int \<Rightarrow> int \<Rightarrow> int \<Rightarrow> int \<Rightarrow> display \<Rightarrow> display option" where
  "line_loop f raw x1 y1 dx dy sx sy x0 y0 er d =
    (let d' = (if on_screen f x0 y0 then store (cell (fb_row f y0) x0) raw d else d) in
     if x0 = x1 \<and> y0 = y1 then Some d'
     else
       let e2 = s32 (2 * er);
           er' = (if dy \<le> e2 then s32 (er + dy) else er);
           x0' = (if dy \<le> e2 then s32 (x0 + sx) else x0);
           er'' = (if e2 \<le> dx then s32 (er' + dx) else er');
           y0' = (if e2 \<le> dx then s32 (y0 + sy) else y0) in
       line_loop f raw x1 y1 dx dy sx sy x0' y0' er'' d')"

definition hal_display_line :: "int \<Rightarrow> int \<Rightarrow> int \<Rightarrow> int \<Rightarrow> u32 \<Rightarrow> display \<Rightarrow> display option" where
  "hal_display_line x0 y0 x1 y1 color d = (case g_fb d of None \<Rightarrow> Some d
    | Some f \<Rightarrow>
        let dx = (if x0 < x1 then s32 (x1 - x0) else s32 (x0 - x1));
            dy = (if y0 < y1 then s32 (- s32 (y1 - y0)) else s32 (- s32 (y0 - y1)));
            sx = (if x0 < x1 then 1 else - 1);
            sy = (if y0 < y1 then 1 else - 1);
            er = s32 (dx + dy) in
        line_loop f (encode_pixel d color) x1 y1 dx dy sx sy x0 y0 er d)"

text \<open>\<open>src\<close> holds \<open>w * h\<close> pixels.\<close>

definition image_row :: "canboot_fb \<Rightarrow> int \<Rightarrow> int \<Rightarrow> int \<Rightarrow> u32 list \<Rightarrow> int \<Rightarrow> display \<Rightarrow> display" where
  "image_row f x y w src row d =
    (let yy = s32 (y + row) in
     if yy < 0 \<or> s32 (uint (height f)) \<le> yy then d
     else fold (\<lambda>col d.
         let xx = s32 (x + col) in
         if xx < 0 \<or> s32 (uint (width f)) \<le> xx then d
         else store (cell (fb_row f yy) xx) (encode_pixel d (src ! nat (s32 (s32 (row * w) + col)))) d)
       [0 .. w - 1] d)"

definition hal_display_image :: "int \<Rightarrow> int \<Rightarrow> int \<Rightarrow> int \<Rightarrow> u32 list option \<Rightarrow> display \<Rightarrow> display" where
  "hal_display_image x y w h src d = (case (g_fb d, src) of
      (Some f, Some src) \<Rightarrow> if w \<le> 0 \<or> h \<le> 0 then d else fold (image_row f x y w src) [0 .. h - 1] d
    | _ \<Rightarrow> d)"

definition copy_row ::
    "canboot_fb \<Rightarrow> int \<Rightarrow> int \<Rightarrow> int \<Rightarrow> int \<Rightarrow> int \<Rightarrow> int \<Rightarrow> display \<Rightarrow> display" where
  "copy_row f sx sy dx dy w r d =
    (let sy_r = s32 (sy + r); dy_r = s32 (dy + r) in
     if sy_r < 0 \<or> s32 (uint (height f)) \<le> sy_r then d
     else if dy_r < 0 \<or> s32 (uint (height f)) \<le> dy_r then d
     else fold (\<lambda>col d.
         let c = (if dx \<le> sx then col else w - 1 - col);
             sxc = s32 (sx + c); dxc = s32 (dx + c) in
         if sxc < 0 \<or> s32 (uint (width f)) \<le> sxc then d
         else if dxc < 0 \<or> s32 (uint (width f)) \<le> dxc then d
         else store (cell (fb_row f dy_r) dxc) (vram d (cell (fb_row f sy_r) sxc)) d)
       [0 .. w - 1] d)"

definition hal_display_copy_rect :: "int \<Rightarrow> int \<Rightarrow> int \<Rightarrow> int \<Rightarrow> int \<Rightarrow> int \<Rightarrow> display \<Rightarrow> display" where
  "hal_display_copy_rect sx sy dx dy w h d = (case g_fb d of None \<Rightarrow> d
    | Some f \<Rightarrow>
        if w \<le> 0 \<or> h \<le> 0 then d
        else fold (\<lambda>row. copy_row f sx sy dx dy w (if dy \<le> sy then row else h - 1 - row)) [0 .. h - 1] d)"

text \<open>The last of the 96 rows is not initialised by the source and therefore zero.\<close>

definition font8x8 :: "u8 list list" where
  "font8x8 =
    [[0, 0, 0, 0, 0, 0, 0, 0],
     [0x18, 0x18, 0x18, 0x18, 0x00, 0x00, 0x18, 0x00],
     [0x36, 0x36, 0x12, 0x00, 0x00, 0x00, 0x00, 0x00],
     [0x36, 0x36, 0x7F, 0x36, 0x7F, 0x36, 0x36, 0x00],
     [0x18, 0x3E, 0x60, 0x3C, 0x06, 0x7C, 0x18, 0x00],
     [0x46, 0x66, 0x30, 0x18, 0x0C, 0x66, 0x62, 0x00],
     [0x38, 0x6C, 0x38, 0x76, 0xDC, 0xCC, 0x76, 0x00],
     [0x06, 0x06, 0x03, 0x00, 0x00, 0x00, 0x00, 0x00],
     [0x18, 0x0C, 0x06, 0x06, 0x06, 0x0C, 0x18, 0x00],
     [0x06, 0x0C, 0x18, 0x18, 0x18, 0x0C, 0x06, 0x00],
     [0x00, 0x66, 0x3C, 0xFF, 0x3C, 0x66, 0x00, 0x00],
     [0x00, 0x18, 0x18, 0x7E, 0x18, 0x18, 0x00, 0x00],
     [0x00, 0x00, 0x00, 0x00, 0x00, 0x18, 0x18, 0x0C],
     [0x00, 0x00, 0x00, 0x7E, 0x00, 0x00, 0x00, 0x00],
     [0x00, 0x00, 0x00, 0x00, 0x00, 0x18, 0x18, 0x00],
     [0x60, 0x30, 0x18, 0x0C, 0x06, 0x03, 0x01, 0x00],
     [0x3C, 0x66, 0x76, 0x7E, 0x6E, 0x66, 0x3C, 0x00],
     [0x18, 0x1C, 0x18, 0x18, 0x18, 0x18, 0x7E, 0x00],
     [0x3C, 0x66, 0x60, 0x30, 0x0C, 0x06, 0x7E, 0x00],
     [0x3C, 0x66, 0x60, 0x38, 0x60, 0x66, 0x3C, 0x00],
     [0x30, 0x38, 0x3C, 0x36, 0x7E, 0x30, 0x30, 0x00],
     [0x7E, 0x06, 0x06, 0x3E, 0x60, 0x66, 0x3C, 0x00],
     [0x3C, 0x06, 0x06, 0x3E, 0x66, 0x66, 0x3C, 0x00],
     [0x7E, 0x60, 0x30, 0x18, 0x0C, 0x0C, 0x0C, 0x00],
     [0x3C, 0x66, 0x66, 0x3C, 0x66, 0x66, 0x3C, 0x00],
     [0x3C, 0x66, 0x66, 0x7C, 0x60, 0x60, 0x3C, 0x00],
     [0x00, 0x18, 0x18, 0x00, 0x00, 0x18, 0x18, 0x00],
     [0x00, 0x18, 0x18, 0x00, 0x00, 0x18, 0x18, 0x0C],
     [0x30, 0x18, 0x0C, 0x06, 0x0C, 0x18, 0x30, 0x00],
     [0x00, 0x00, 0x7E, 0x00, 0x7E, 0x00, 0x00, 0x00],
     [0x0C, 0x18, 0x30, 0x60, 0x30, 0x18, 0x0C, 0x00],
     [0x3C, 0x66, 0x60, 0x30, 0x18, 0x00, 0x18, 0x00],
     [0x3C, 0x66, 0x76, 0x76, 0x06, 0x06, 0x3C, 0x00],
     [0x3C, 0x66, 0x66, 0x7E, 0x66, 0x66, 0x66, 0x00],
     [0x3E, 0x66, 0x66, 0x3E, 0x66, 0x66, 0x3E, 0x00],
     [0x3C, 0x66, 0x06, 0x06, 0x06, 0x66, 0x3C, 0x00],
     [0x1E, 0x36, 0x66, 0x66, 0x66, 0x36, 0x1E, 0x00],
     [0x7E, 0x06, 0x06, 0x1E, 0x06, 0x06, 0x7E, 0x00],
     [0x7E, 0x06, 0x06, 0x1E, 0x06, 0x06, 0x06, 0x00],
     [0x3C, 0x66, 0x06, 0x76, 0x66, 0x66, 0x7C, 0x00],
     [0x66, 0x66, 0x66, 0x7E, 0x66, 0x66, 0x66, 0x00],
     [0x3C, 0x18, 0x18, 0x18, 0x18, 0x18, 0x3C, 0x00],
     [0x78, 0x30, 0x30, 0x30, 0x30, 0x36, 0x1C, 0x00],
     [0x66, 0x36, 0x1E, 0x0E, 0x1E, 0x36, 0x66, 0x00],
     [0x06, 0x06, 0x06, 0x06, 0x06, 0x06, 0x7E, 0x00],
     [0x66, 0x7E, 0x7E, 0x6E, 0x66, 0x66, 0x66, 0x00],
     [0x66, 0x6E, 0x7E, 0x76, 0x66, 0x66, 0x66, 0x00],
     [0x3C, 0x66, 0x66, 0x66, 0x66, 0x66, 0x3C, 0x00],
     [0x3E, 0x66, 0x66, 0x3E, 0x06, 0x06, 0x06, 0x00],
     [0x3C, 0x66, 0x66, 0x66, 0x66, 0x3C, 0x60, 0x00],
     [0x3E, 0x66, 0x66, 0x3E, 0x1E, 0x36, 0x66, 0x00],
     [0x3C, 0x66, 0x06, 0x3C, 0x60, 0x66, 0x3C, 0x00],
     [0x7E, 0x18, 0x18, 0x18, 0x18, 0x18, 0x18, 0x00],
     [0x66, 0x66, 0x66, 0x66, 0x66, 0x66, 0x3C, 0x00],
     [0x66, 0x66, 0x66, 0x66, 0x66, 0x3C, 0x18, 0x00],
     [0x66, 0x66, 0x66, 0x6E, 0x7E, 0x7E, 0x66, 0x00],
     [0x66, 0x66, 0x3C, 0x18, 0x3C, 0x66, 0x66, 0x00],
     [0x66, 0x66, 0x66, 0x3C, 0x18, 0x18, 0x18, 0x00],
     [0x7E, 0x60, 0x30, 0x18, 0x0C, 0x06, 0x7E, 0x00],
     [0x3C, 0x0C, 0x0C, 0x0C, 0x0C, 0x0C, 0x3C, 0x00],
     [0x03, 0x06, 0x0C, 0x18, 0x30, 0x60, 0x40, 0x00],
     [0x3C, 0x30, 0x30, 0x30, 0x30, 0x30, 0x3C, 0x00],
     [0x18, 0x3C, 0x66, 0x00, 0x00, 0x00, 0x00, 0x00],
     [0x00, 0x00, 0x00, 0x00, 0x00, 0x00, 0x00, 0xFF],
     [0x0C, 0x18, 0x30, 0x00, 0x00, 0x00, 0x00, 0x00],
     [0x00, 0x00, 0x3C, 0x60, 0x7C, 0x66, 0x7C, 0x00],
     [0x06, 0x06, 0x3E, 0x66, 0x66, 0x66, 0x3E, 0x00],
     [0x00, 0x00, 0x3C, 0x06, 0x06, 0x06, 0x3C, 0x00],
     [0x60, 0x60, 0x7C, 0x66, 0x66, 0x66, 0x7C, 0x00],
     [0x00, 0x00, 0x3C, 0x66, 0x7E, 0x06, 0x3C, 0x00],
     [0x70, 0x18, 0x3C, 0x18, 0x18, 0x18, 0x18, 0x00],
     [0x00, 0x00, 0x7C, 0x66, 0x66, 0x7C, 0x60, 0x3C],
     [0x06, 0x06, 0x3E, 0x66, 0x66, 0x66, 0x66, 0x00],
     [0x18, 0x00, 0x18, 0x18, 0x18, 0x18, 0x18, 0x00],
     [0x60, 0x00, 0x60, 0x60, 0x60, 0x60, 0x66, 0x3C],
     [0x06, 0x06, 0x36, 0x1E, 0x36, 0x66, 0x66, 0x00],
     [0x18, 0x18, 0x18, 0x18, 0x18, 0x18, 0x18, 0x00],
     [0x00, 0x00, 0x66, 0x7E, 0x7E, 0x6E, 0x66, 0x00],
     [0x00, 0x00, 0x3E, 0x66, 0x66, 0x66, 0x66, 0x00],
     [0x00, 0x00, 0x3C, 0x66, 0x66, 0x66, 0x3C, 0x00],
     [0x00, 0x00, 0x3E, 0x66, 0x66, 0x3E, 0x06, 0x06],
     [0x00, 0x00, 0x7C, 0x66, 0x66, 0x7C, 0x60, 0x60],
     [0x00, 0x00, 0x3E, 0x66, 0x06, 0x06, 0x06, 0x00],
     [0x00, 0x00, 0x7C, 0x06, 0x3C, 0x60, 0x3E, 0x00],
     [0x18, 0x18, 0x3C, 0x18, 0x18, 0x18, 0x18, 0x00],
     [0x00, 0x00, 0x66, 0x66, 0x66, 0x66, 0x7C, 0x00],
     [0x00, 0x00, 0x66, 0x66, 0x66, 0x3C, 0x18, 0x00],
     [0x00, 0x00, 0x66, 0x6E, 0x7E, 0x7E, 0x66, 0x00],
     [0x00, 0x00, 0x66, 0x3C, 0x18, 0x3C, 0x66, 0x00],
     [0x00, 0x00, 0x66, 0x66, 0x66, 0x7C, 0x60, 0x3C],
     [0x00, 0x00, 0x7E, 0x30, 0x18, 0x0C, 0x7E, 0x00],
     [0x18, 0x0C, 0x0C, 0x06, 0x0C, 0x0C, 0x18, 0x00],
     [0x18, 0x18, 0x18, 0x18, 0x18, 0x18, 0x18, 0x00],
     [0x18, 0x30, 0x30, 0x60, 0x30, 0x30, 0x18, 0x00],
     [0x00, 0x00, 0x76, 0xDC, 0x00, 0x00, 0x00, 0x00],
     [0, 0, 0, 0, 0, 0, 0, 0]]"

definition glyph_row :: "canboot_fb \<Rightarrow> int \<Rightarrow> int \<Rightarrow> bytes \<Rightarrow> u32 \<Rightarrow> u32 \<Rightarrow> nat \<Rightarrow> display \<Rightarrow> display" where
  "glyph_row f x y gl fg bg row d =
    (let yy = s32 (y + int row) in
     if yy < 0 \<or> s32 (uint (height f)) \<le> yy then d
     else fold (\<lambda>col d.
         let xx = s32 (x + int col) in
         if xx < 0 \<or> s32 (uint (width f)) \<le> xx then d
         else store (cell (fb_row f yy) xx) (encode_pixel d (if bit (gl ! row) col then fg else bg)) d)
       [0 ..< 8] d)"

text \<open>\<open>char\<close> is signed: bytes from 0x80 on are less than 0x20.\<close>

fun text_loop :: "canboot_fb \<Rightarrow> int \<Rightarrow> int \<Rightarrow> bytes \<Rightarrow> u32 \<Rightarrow> u32 \<Rightarrow> display \<Rightarrow> display" where
  "text_loop f x y [] fg bg d = d"
| "text_loop f x y (c # p) fg bg d =
    text_loop f (s32 (x + 8)) y p fg bg
      (if c < 0x20 \<or> 0x7E < c then d
       else fold (glyph_row f x y (font8x8 ! unat (c - 0x20)) fg bg) [0 ..< 8] d)"

definition hal_display_text :: "int \<Rightarrow> int \<Rightarrow> bytes option \<Rightarrow> u32 \<Rightarrow> u32 \<Rightarrow> display \<Rightarrow> display" where
  "hal_display_text x y str fg bg d = (case (g_fb d, str) of
      (Some f, Some p) \<Rightarrow> text_loop f x y (cstr p) fg bg d
    | _ \<Rightarrow> d)"

end
