(* ===== verification/Display_Properties.thy ===== *)
theory Display_Properties
  imports Display
begin

text \<open>
  What the framebuffer primitives do to the pixels on the screen and to the rest of memory.
\<close>

section \<open>Addresses of pixels\<close>

text \<open>A descriptor as the loaders fill it in: the dimensions are positive \<open>int32_t\<close> values and a row
  holds its pixels.\<close>

definition fb_ok :: "canboot_fb \<Rightarrow> bool" where
  "fb_ok f \<longleftrightarrow> uint (width f) < 2147483648 \<and> uint (height f) < 2147483648 \<and> 4 * uint (width f) \<le> uint (pitch f)"

abbreviation pix :: "canboot_fb \<Rightarrow> int \<Rightarrow> int \<Rightarrow> u64" where
  "pix f x y \<equiv> cell (fb_row f y) x"

text \<open>The addresses of the visible pixels.\<close>

definition visible :: "canboot_fb \<Rightarrow> u64 set" where
  "visible f = {pix f x y | x y. on_screen f x y}"

lemma on_screen_iff: "fb_ok f \<Longrightarrow> on_screen f x y \<longleftrightarrow> 0 \<le> x \<and> x < uint (width f) \<and> 0 \<le> y \<and> y < uint (height f)"
  by (auto simp: on_screen_def fb_ok_def s32_uint)

lemma pix_minus: "pix f x y - fb_addr f = word_of_int (y * uint (pitch f) + 4 * x)"
  unfolding cell_def fb_row_def ucast_eq by (simp only: of_int_add of_int_mult of_int_numeral) simp

lemma uint_word_of_int_u64: "0 \<le> n \<Longrightarrow> n < 18446744073709551616 \<Longrightarrow> uint (word_of_int n :: u64) = n"
  by (simp add: uint_word_of_int)

lemma pix_offset:
  assumes "fb_ok f" and "on_screen f x y"
  shows "uint (pix f x y - fb_addr f) = y * uint (pitch f) + 4 * x"
proof -
  have b: "0 \<le> x" "4 * x < uint (pitch f)" "0 \<le> y" "y < 2147483648"
    using assms by (simp_all add: on_screen_iff fb_ok_def)
  have p: "uint (pitch f) < 4294967296" using uint_lt2p [of "pitch f"] by simp
  have "0 \<le> y * uint (pitch f)" "y * uint (pitch f) \<le> 2147483648 * 4294967296"
    using mult_mono [of y 2147483648 "uint (pitch f)" 4294967296] b p by simp_all
  then show ?thesis unfolding pix_minus using b p by (intro uint_word_of_int_u64) linarith+
qed

lemma pix_inj:
  assumes "fb_ok f" and "on_screen f x y" and "on_screen f x' y'"
  shows "pix f x y = pix f x' y' \<longleftrightarrow> x = x' \<and> y = y'"
proof
  assume "pix f x y = pix f x' y'"
  then have e: "y * uint (pitch f) + 4 * x = y' * uint (pitch f) + 4 * x'"
    using pix_offset [OF assms(1, 2)] pix_offset [OF assms(1, 3)] by simp
  have b: "0 \<le> 4 * x" "4 * x < uint (pitch f)" "0 \<le> 4 * x'" "4 * x' < uint (pitch f)"
    using assms by (auto simp: on_screen_iff fb_ok_def)
  have "y = (y * uint (pitch f) + 4 * x) div uint (pitch f)" using b by simp
  also have "\<dots> = y'" unfolding e using b by simp
  finally show "x = x' \<and> y = y'" using e by simp
qed simp

section \<open>Folds of stores\<close>

lemma store_simps [simp]: "vram (store a v d) = (vram d)(a := v)" "g_fb (store a v d) = g_fb d"
  "encode_pixel (store a v d) = encode_pixel d" "decode_pixel (store a v d) = decode_pixel d"
  by (simp_all add: store_def encode_pixel_def decode_pixel_def fun_eq_iff)

lemma fold_product: "fold (\<lambda>a. fold (\<lambda>b. g a b) ys) xs = fold (\<lambda>(a, b). g a b) (List.product xs ys)"
  by (induction xs) (simp_all add: fold_map comp_def)

lemma fold_skip: "fold (\<lambda>x d. d) xs d = d"
  by (induction xs) simp_all

lemma fold_fill:
  "vram (fold (\<lambda>p. store (dst p) v) ps d) a = (if a \<in> dst ` set ps then v else vram d a)"
  by (induction ps arbitrary: d) auto

text \<open>Copying cell by cell is copying all cells at once when no cell is read after it was written.\<close>

lemma fold_copy:
  assumes "sorted_wrt (\<lambda>p q. vis p \<longrightarrow> vis q \<longrightarrow> dst p \<noteq> src q \<and> dst p \<noteq> dst q) ps"
  shows "vram (fold (\<lambda>p d. if vis p then store (dst p) (vram d (src p)) d else d) ps d) a =
    (case find (\<lambda>p. vis p \<and> dst p = a) ps of Some p \<Rightarrow> vram d (src p) | None \<Rightarrow> vram d a)"
  using assms
proof (induction ps arbitrary: d)
  case (Cons p ps)
  let ?d = "if vis p then store (dst p) (vram d (src p)) d else d"
  have step: "fold (\<lambda>p d. if vis p then store (dst p) (vram d (src p)) d else d) (p # ps) d =
      fold (\<lambda>p d. if vis p then store (dst p) (vram d (src p)) d else d) ps ?d" by simp
  show ?case
  proof (cases "find (\<lambda>p. vis p \<and> dst p = a) ps")
    case None
    then show ?thesis using Cons unfolding step by auto
  next
    case (Some q)
    then have "q \<in> set ps" "vis q" "dst q = a" by (auto simp: find_Some_iff)
    with Some Cons show ?thesis unfolding step by auto
  qed
qed simp

lemma sorted_wrt_product:
  assumes "sorted_wrt S xs" and "sorted_wrt T ys" and "\<And>x. \<not> S x x"
  shows "sorted_wrt (\<lambda>p q. S (fst p) (fst q) \<or> fst p = fst q \<and> T (snd p) (snd q)) (List.product xs ys)"
  using assms by (induction xs) (auto simp: sorted_wrt_append sorted_wrt_map)

lemma strict_upto: "sorted_wrt (<) [a .. b :: int]"
  using sorted_upto [of a b] distinct_upto [of a b] by (simp add: strict_sorted_iff)

section \<open>Rectangles\<close>

lemma fill_addresses:
  "(pix f x y \<in> (\<lambda>(y, x). pix f x y) ` set (List.product [y0 .. y1 - 1] [x0 .. x1 - 1])) =
    (\<exists>x' y'. x0 \<le> x' \<and> x' < x1 \<and> y0 \<le> y' \<and> y' < y1 \<and> pix f x y = pix f x' y')"
  by force

text \<open>C19: \<open>hal_display_fill_rect\<close> paints exactly the part of the rectangle that is on the screen, in the
  device encoding of the colour, whatever part of the rectangle lies off the screen; no other pixel
  and no other memory changes. Coordinates and sizes are within 2^30, so that their sums do not
  overflow.\<close>

theorem fill_rect_exact:
  assumes "g_fb d = Some f" and "fb_ok f"
    and "\<bar>x0\<bar> < 2 ^ 30" and "\<bar>y0\<bar> < 2 ^ 30" and "\<bar>w\<bar> < 2 ^ 30" and "\<bar>h\<bar> < 2 ^ 30"
  shows "(\<forall>x y. on_screen f x y \<longrightarrow> vram (hal_display_fill_rect x0 y0 w h color d) (pix f x y) =
      (if x0 \<le> x \<and> x < x0 + w \<and> y0 \<le> y \<and> y < y0 + h then encode_pixel d color else vram d (pix f x y))) \<and>
    (\<forall>a. a \<notin> visible f \<longrightarrow> vram (hal_display_fill_rect x0 y0 w h color d) a = vram d a)"
proof (cases "w \<le> 0 \<or> h \<le> 0")
  case False
  define X0 where "X0 = max 0 x0"
  define Y0 where "Y0 = max 0 y0"
  define X1 where "X1 = min (x0 + w) (uint (width f))"
  define Y1 where "Y1 = min (y0 + h) (uint (height f))"
  let ?ps = "List.product [Y0 .. Y1 - 1] [X0 .. X1 - 1]"
  have e: "s32 (x0 + w) = x0 + w" "s32 (y0 + h) = y0 + h" "s32 (uint (width f)) = uint (width f)"
    "s32 (uint (height f)) = uint (height f)"
    using assms by (auto simp: fb_ok_def s32_uint intro!: s32_id)
  have c: "(if x0 < 0 then 0 else x0) = X0" "(if y0 < 0 then 0 else y0) = Y0"
    "(if uint (width f) < x0 + w then uint (width f) else x0 + w) = X1"
    "(if uint (height f) < y0 + h then uint (height f) else y0 + h) = Y1"
    by (auto simp: X0_def X1_def Y0_def Y1_def)
  have "hal_display_fill_rect x0 y0 w h color d =
      fold (\<lambda>y. fold (\<lambda>x. store (pix f x y) (encode_pixel d color)) [X0 .. X1 - 1]) [Y0 .. Y1 - 1] d"
    unfolding hal_display_fill_rect_def assms(1) option.case if_not_P [OF False] Let_def e c ..
  also have "\<dots> = fold (\<lambda>p. store ((\<lambda>(y, x). pix f x y) p) (encode_pixel d color)) ?ps d"
    unfolding fold_product by (simp add: case_prod_unfold)
  finally have v: "vram (hal_display_fill_rect x0 y0 w h color d) a =
      (if a \<in> (\<lambda>(y, x). pix f x y) ` set ?ps then encode_pixel d color else vram d a)" for a
    by (simp only: fold_fill)
  have on: "X0 \<le> x \<and> x < X1 \<and> Y0 \<le> y \<and> y < Y1 \<longleftrightarrow>
      on_screen f x y \<and> x0 \<le> x \<and> x < x0 + w \<and> y0 \<le> y \<and> y < y0 + h" for x y
    by (auto simp: on_screen_iff [OF assms(2)] X0_def X1_def Y0_def Y1_def)
  show ?thesis
  proof (intro conjI allI impI)
    fix x y assume s: "on_screen f x y"
    show "vram (hal_display_fill_rect x0 y0 w h color d) (pix f x y) =
      (if x0 \<le> x \<and> x < x0 + w \<and> y0 \<le> y \<and> y < y0 + h then encode_pixel d color else vram d (pix f x y))"
    proof (cases "x0 \<le> x \<and> x < x0 + w \<and> y0 \<le> y \<and> y < y0 + h")
      case True
      then have "pix f x y \<in> (\<lambda>(y, x). pix f x y) ` set ?ps" unfolding fill_addresses using on s by blast
      then show ?thesis unfolding v using True by simp
    next
      case no: False
      then have "pix f x y \<notin> (\<lambda>(y, x). pix f x y) ` set ?ps"
        unfolding fill_addresses using on pix_inj [OF assms(2) s] by blast
      then show ?thesis unfolding v if_not_P [OF no] by simp
    qed
  next
    fix a assume "a \<notin> visible f"
    then have "a \<notin> (\<lambda>(y, x). pix f x y) ` set ?ps" using on unfolding visible_def by fastforce
    then show "vram (hal_display_fill_rect x0 y0 w h color d) a = vram d a" by (simp add: v)
  qed
qed (use assms(1) in \<open>auto simp: hal_display_fill_rect_def\<close>)

section \<open>Block moves\<close>

text \<open>Cell \<open>(r, c)\<close> of a block is copied when it is on the screen in both places.\<close>

abbreviation copied :: "canboot_fb \<Rightarrow> int \<Rightarrow> int \<Rightarrow> int \<Rightarrow> int \<Rightarrow> int \<times> int \<Rightarrow> bool" where
  "copied f sx sy dx dy p \<equiv> on_screen f (sx + snd p) (sy + fst p) \<and> on_screen f (dx + snd p) (dy + fst p)"

lemma fold_same: "(\<And>x d. x \<in> set xs \<Longrightarrow> g x d = g' x d) \<Longrightarrow> fold g xs d = fold g' xs d"
  by (induction xs arbitrary: d) simp_all

lemma copy_row_fold:
  assumes "fb_ok f" "\<bar>sx\<bar> < 2 ^ 30" "\<bar>sy\<bar> < 2 ^ 30" "\<bar>dx\<bar> < 2 ^ 30" "\<bar>dy\<bar> < 2 ^ 30" "w < 2 ^ 30" "0 \<le> r" "r < 2 ^ 30"
  shows "copy_row f sx sy dx dy w r d =
    fold (\<lambda>c d. if copied f sx sy dx dy (r, c) then store (pix f (dx + c) (dy + r)) (vram d (pix f (sx + c) (sy + r))) d else d)
      (map (\<lambda>col. if dx \<le> sx then col else w - 1 - col) [0 .. w - 1]) d"
proof -
  have e: "s32 (sy + r) = sy + r" "s32 (dy + r) = dy + r" using assms by (auto intro!: s32_id)
  have ec: "s32 (sx + (if dx \<le> sx then col else w - 1 - col)) = sx + (if dx \<le> sx then col else w - 1 - col)"
    "s32 (dx + (if dx \<le> sx then col else w - 1 - col)) = dx + (if dx \<le> sx then col else w - 1 - col)"
    if "col \<in> set [0 .. w - 1]" for col
    using assms that by (auto intro!: s32_id)
  have wh: "s32 (uint (width f)) = uint (width f)" "s32 (uint (height f)) = uint (height f)"
    using assms(1) by (simp_all add: fb_ok_def s32_uint)
  show ?thesis
  proof (cases "0 \<le> sy + r \<and> sy + r < uint (height f) \<and> 0 \<le> dy + r \<and> dy + r < uint (height f)")
    case False
    then have nc: "\<not> copied f sx sy dx dy (r, c)" for c by (auto simp: on_screen_iff [OF assms(1)])
    have "fold (\<lambda>c d. if copied f sx sy dx dy (r, c) then store (pix f (dx + c) (dy + r))
        (vram d (pix f (sx + c) (sy + r))) d else d) cols d = fold (\<lambda>c d. d) cols d" for cols
      by (intro fold_same) (rule if_not_P [OF nc])
    then show ?thesis using False unfolding copy_row_def Let_def e wh by (auto simp: fold_skip)
  next
    case True
    then show ?thesis
      unfolding copy_row_def Let_def e wh fold_map comp_def
      by (auto simp: ec on_screen_iff [OF assms(1)] intro!: fold_same)
  qed
qed

lemma copy_order:
  assumes "rows = (if dy \<le> sy then [0 .. h - 1] else rev [0 .. h - 1])"
    and "cols = (if dx \<le> sx then [0 .. w - 1] else rev [0 .. w - 1])"
    and "fb_ok f"
  shows "sorted_wrt (\<lambda>p q. copied f sx sy dx dy p \<longrightarrow> copied f sx sy dx dy q \<longrightarrow>
      pix f (dx + snd p) (dy + fst p) \<noteq> pix f (sx + snd q) (sy + fst q) \<and>
      pix f (dx + snd p) (dy + fst p) \<noteq> pix f (dx + snd q) (dy + fst q)) (List.product rows cols)"
proof -
  let ?S = "\<lambda>a b :: int. if dy \<le> sy then a < b else b < a"
  let ?T = "\<lambda>a b :: int. if dx \<le> sx then a < b else b < a"
  have "sorted_wrt ?S rows" "sorted_wrt ?T cols"
    using strict_upto [of 0 "h - 1"] strict_upto [of 0 "w - 1"] unfolding assms(1, 2)
    by (simp_all add: sorted_wrt_rev)
  then have "sorted_wrt (\<lambda>p q. ?S (fst p) (fst q) \<or> fst p = fst q \<and> ?T (snd p) (snd q)) (List.product rows cols)"
    by (rule sorted_wrt_product) simp
  then show ?thesis
    by (rule sorted_wrt_mono_rel [rotated]) (auto simp: pix_inj [OF assms(3)] split: if_splits)
qed

lemma map_flip_upto: "map (\<lambda>k. n - 1 - k) [0 .. n - 1] = rev [0 .. n - 1 :: int]"
proof (rule nth_equalityI)
  fix i assume "i < length (map (\<lambda>k. n - 1 - k) [0 .. n - 1])"
  then have i: "i < nat n" by simp
  then have "[0 .. n - 1] ! (nat n - Suc i) = int (nat n - Suc i)" "[0 .. n - 1] ! i = int i"
    using nth_upto [of 0 "nat n - Suc i" "n - 1"] nth_upto [of 0 i "n - 1"] by auto
  then show "map (\<lambda>k. n - 1 - k) [0 .. n - 1] ! i = rev [0 .. n - 1] ! i"
    using i by (simp add: rev_nth)
qed simp

lemma find_unique:
  assumes "p \<in> set xs" and "P p" and "\<And>q. P q \<Longrightarrow> q = p"
  shows "find P xs = Some p"
proof -
  have "P = (\<lambda>q. q = p)" using assms(2, 3) by blast
  with assms(1) show ?thesis by (induction xs) auto
qed

text \<open>C6: \<open>hal_display_copy_rect\<close> moves a block as if all its pixels were copied at once, also when
  source and destination overlap: every visible pixel of the destination whose source pixel is
  visible gets the value the source pixel had before the call; nothing else changes. Coordinates and
  sizes are within 2^30, so that their sums do not overflow.\<close>

theorem copy_rect_simultaneous:
  assumes "g_fb d = Some f" and "fb_ok f" and "\<bar>sx\<bar> < 2 ^ 30" and "\<bar>sy\<bar> < 2 ^ 30" and "\<bar>dx\<bar> < 2 ^ 30" and "\<bar>dy\<bar> < 2 ^ 30"
    and "\<bar>w\<bar> < 2 ^ 30" and "\<bar>h\<bar> < 2 ^ 30"
  shows "(\<forall>x y. on_screen f x y \<longrightarrow> vram (hal_display_copy_rect sx sy dx dy w h d) (pix f x y) =
      (if dx \<le> x \<and> x < dx + w \<and> dy \<le> y \<and> y < dy + h \<and> on_screen f (x - dx + sx) (y - dy + sy)
       then vram d (pix f (x - dx + sx) (y - dy + sy)) else vram d (pix f x y))) \<and>
    (\<forall>a. a \<notin> visible f \<longrightarrow> vram (hal_display_copy_rect sx sy dx dy w h d) a = vram d a)"
proof (cases "w \<le> 0 \<or> h \<le> 0")
  case False
  define rows where "rows = (if dy \<le> sy then [0 .. h - 1] else rev [0 .. h - 1])"
  define cols where "cols = (if dx \<le> sx then [0 .. w - 1] else rev [0 .. w - 1])"
  let ?src = "\<lambda>p. pix f (sx + snd p) (sy + fst p)" and ?dst = "\<lambda>p. pix f (dx + snd p) (dy + fst p)"
  let ?c = "\<lambda>p d. if copied f sx sy dx dy p then store (?dst p) (vram d (?src p)) d else d"
  have rc: "map (\<lambda>row. if dy \<le> sy then row else h - 1 - row) [0 .. h - 1] = rows"
    "map (\<lambda>col. if dx \<le> sx then col else w - 1 - col) [0 .. w - 1] = cols"
    by (simp_all add: rows_def cols_def map_flip_upto)
  have "hal_display_copy_rect sx sy dx dy w h d = fold (copy_row f sx sy dx dy w) rows d"
    unfolding rc(1) [symmetric] fold_map hal_display_copy_rect_def assms(1) option.case if_not_P [OF False]
    by (simp add: comp_def)
  also have "\<dots> = fold (\<lambda>r. fold (\<lambda>c. ?c (r, c)) cols) rows d"
  proof (rule fold_same)
    fix r e assume "r \<in> set rows"
    then have "0 \<le> r" "r < 2 ^ 30" using assms(8) by (auto simp: rows_def split: if_splits)
    moreover have "w < 2 ^ 30" using assms(7) by simp
    ultimately show "copy_row f sx sy dx dy w r e = fold (\<lambda>c. ?c (r, c)) cols e"
      using copy_row_fold [OF assms(2-6), of w r e] unfolding rc(2) fst_conv snd_conv by blast
  qed
  also have "\<dots> = fold ?c (List.product rows cols) d"
    unfolding fold_product case_prod_unfold prod.collapse fst_conv snd_conv ..
  finally have v: "vram (hal_display_copy_rect sx sy dx dy w h d) a =
      (case find (\<lambda>p. copied f sx sy dx dy p \<and> ?dst p = a) (List.product rows cols) of
         Some p \<Rightarrow> vram d (?src p) | None \<Rightarrow> vram d a)" for a
    using fold_copy [OF copy_order [OF rows_def cols_def assms(2)]] by simp
  have mem: "(r, c) \<in> set (List.product rows cols) \<longleftrightarrow> 0 \<le> r \<and> r < h \<and> 0 \<le> c \<and> c < w" for r c
    by (auto simp: rows_def cols_def)
  show ?thesis
  proof (intro conjI allI impI)
    fix x y assume s: "on_screen f x y"
    let ?p = "(y - dy, x - dx)"
    have hit: "copied f sx sy dx dy q \<and> ?dst q = pix f x y \<longleftrightarrow> q = ?p \<and> on_screen f (x - dx + sx) (y - dy + sy)" for q
      using s pix_inj [OF assms(2) _ s] by (cases q) (auto simp: algebra_simps)
    show "vram (hal_display_copy_rect sx sy dx dy w h d) (pix f x y) =
      (if dx \<le> x \<and> x < dx + w \<and> dy \<le> y \<and> y < dy + h \<and> on_screen f (x - dx + sx) (y - dy + sy)
       then vram d (pix f (x - dx + sx) (y - dy + sy)) else vram d (pix f x y))"
    proof (cases "?p \<in> set (List.product rows cols) \<and> on_screen f (x - dx + sx) (y - dy + sy)")
      case True
      then have "find (\<lambda>q. q = ?p \<and> on_screen f (x - dx + sx) (y - dy + sy)) (List.product rows cols) = Some ?p"
        by (intro find_unique) auto
      then show ?thesis using True unfolding v hit mem by (auto simp: add.commute)
    next
      case no: False
      then have "find (\<lambda>q. q = ?p \<and> on_screen f (x - dx + sx) (y - dy + sy)) (List.product rows cols) = None"
        by (auto simp: find_None_iff)
      then show ?thesis using no unfolding v hit mem by auto
    qed
  next
    fix a assume "a \<notin> visible f"
    then have "find (\<lambda>p. copied f sx sy dx dy p \<and> ?dst p = a) (List.product rows cols) = None"
      by (auto simp: find_None_iff visible_def)
    then show "vram (hal_display_copy_rect sx sy dx dy w h d) a = vram d a" by (simp add: v)
  qed
qed (use assms(1) in \<open>auto simp: hal_display_copy_rect_def\<close>)

section \<open>Lines\<close>

text \<open>The decisions of the loop after \<open>i\<close> steps in x and \<open>j\<close> steps in y, for a line of extent \<open>A\<close> by \<open>B\<close>:
  it makes at least one step, and none beyond the end point.\<close>

lemma bresenham_step:
  fixes A B i j :: int
  assumes "0 \<le> i" "i \<le> A" "0 \<le> j" "j \<le> B" "\<not> (i = A \<and> j = B)" and er: "er = A * (1 + j) - B * (1 + i)"
  shows "- B \<le> 2 * er \<Longrightarrow> i < A" and "2 * er \<le> A \<Longrightarrow> j < B" and "- B \<le> 2 * er \<or> 2 * er \<le> A"
proof -
  show "i < A" if "- B \<le> 2 * er"
  proof (rule ccontr)
    assume "\<not> i < A"
    then have i: "i = A" and "j < B" using assms by auto
    then have "A * (1 + j - B) \<le> 0" "0 < B" using assms by (auto simp: mult_nonneg_nonpos)
    moreover have "er = A * (1 + j - B) - B" by (simp add: er i algebra_simps)
    ultimately show False using that by linarith
  qed
  show "j < B" if "2 * er \<le> A"
  proof (rule ccontr)
    assume "\<not> j < B"
    then have j: "j = B" and "i < A" using assms by auto
    then have "0 \<le> B * (A - 1 - i)" "0 < A" using assms by auto
    moreover have "er = A + B * (A - 1 - i)" by (simp add: er j algebra_simps)
    ultimately show False using that by linarith
  qed
  show "- B \<le> 2 * er \<or> 2 * er \<le> A" using assms(1-4) by linarith
qed

definition drawn :: "canboot_fb \<Rightarrow> u32 \<Rightarrow> (int \<times> int) set \<Rightarrow> display \<Rightarrow> display \<Rightarrow> bool" where
  "drawn f raw C d d' \<longleftrightarrow> (\<forall>a. vram d' a = vram d a \<or>
     vram d' a = raw \<and> (\<exists>x y. (x, y) \<in> C \<and> on_screen f x y \<and> a = pix f x y))"

lemma drawn_store:
  "(x, y) \<in> C \<Longrightarrow> drawn f raw C d (if on_screen f x y then store (pix f x y) raw d else d)"
  by (auto simp: drawn_def)

lemma drawn_trans: "drawn f raw C d d1 \<Longrightarrow> drawn f raw C d1 d2 \<Longrightarrow> drawn f raw C d d2"
  unfolding drawn_def by (intro allI) (metis (no_types))

lemma drawn_keeps: "drawn f raw C d1 d2 \<Longrightarrow> vram d1 a = raw \<Longrightarrow> vram d2 a = raw"
  unfolding drawn_def by metis

lemma line_loop_draws:
  fixes A B i j :: int
  assumes "\<bar>X\<bar> < 2 ^ 28" "\<bar>Y\<bar> < 2 ^ 28" "A < 2 ^ 29" "B < 2 ^ 29" "sx = 1 \<or> sx = - 1" "sy = 1 \<or> sy = - 1"
    and "0 \<le> i" "i \<le> A" "0 \<le> j" "j \<le> B"
    and er: "er = A * (1 + j) - B * (1 + i)" "- 2 * B \<le> er" "er \<le> 2 * A"
  shows "\<exists>d'. line_loop f raw (X + sx * A) (Y + sy * B) A (- B) sx sy (X + sx * i) (Y + sy * j) er d = Some d' \<and>
    drawn f raw {(X + sx * k, Y + sy * l) | k l. 0 \<le> k \<and> k \<le> A \<and> 0 \<le> l \<and> l \<le> B} d d' \<and>
    (on_screen f (X + sx * i) (Y + sy * j) \<longrightarrow> vram d' (pix f (X + sx * i) (Y + sy * j)) = raw) \<and>
    (on_screen f (X + sx * A) (Y + sy * B) \<longrightarrow> vram d' (pix f (X + sx * A) (Y + sy * B)) = raw)"
  using assms(7-)
proof (induction "nat (A - i + (B - j))" arbitrary: i j er d rule: less_induct)
  case less
  let ?x = "X + sx * i" and ?y = "Y + sy * j"
  let ?d = "if on_screen f ?x ?y then store (pix f ?x ?y) raw d else d"
  let ?C = "{(X + sx * k, Y + sy * l) | k l. 0 \<le> k \<and> k \<le> A \<and> 0 \<le> l \<and> l \<le> B}"
  have C: "(?x, ?y) \<in> ?C" using less.prems by blast
  note here = drawn_store [OF C, of f raw d]
  show ?case
  proof (cases "i = A \<and> j = B")
    case True
    then show ?thesis using here by (subst line_loop.simps) simp
  next
    case False
    note st = bresenham_step [OF less.prems(1-4) False less.prems(5)]
    define cx where "cx = (- B \<le> 2 * er)"
    define cy where "cy = (2 * er \<le> A)"
    define i' where "i' = (if cx then i + 1 else i)"
    define j' where "j' = (if cy then j + 1 else j)"
    define er' where "er' = er + (if cx then - B else 0) + (if cy then A else 0)"
    have ij: "0 \<le> i'" "i' \<le> A" "0 \<le> j'" "j' \<le> B" "nat (A - i' + (B - j')) < nat (A - i + (B - j))"
      using st less.prems(1-4) by (auto simp: i'_def j'_def cx_def cy_def)
    have er': "er' = A * (1 + j') - B * (1 + i')" by (simp add: er'_def i'_def j'_def less.prems(5) algebra_simps)
    have rng: "- 2 * B \<le> er'" "er' \<le> 2 * A"
      using less.prems(1-4, 6, 7) st(3) by (auto simp: er'_def cx_def cy_def)
    have ne: "\<not> (?x = X + sx * A \<and> ?y = Y + sy * B)" using False assms(5, 6) by auto
    have e2: "s32 (2 * er) = 2 * er" using less.prems(6, 7) assms(3, 4) by (intro s32_id) auto
    have "s32 (?x + sx) = ?x + sx" "s32 (?y + sy) = ?y + sy"
      using less.prems(1-4) assms(1-6) by (auto intro!: s32_id)
    then have xy: "(if - B \<le> 2 * er then s32 (?x + sx) else ?x) = X + sx * i'"
        "(if 2 * er \<le> A then s32 (?y + sy) else ?y) = Y + sy * j'"
      by (simp_all add: i'_def j'_def cx_def cy_def algebra_simps)
    have "s32 (er + - B) = er + - B" "s32 (er + - B + A) = er + - B + A" "s32 (er + A) = er + A"
      using less.prems(1-7) assms(3, 4) by (auto intro!: s32_id)
    then have eer: "(if 2 * er \<le> A then s32 ((if - B \<le> 2 * er then s32 (er + - B) else er) + A)
        else (if - B \<le> 2 * er then s32 (er + - B) else er)) = er'"
      unfolding er'_def cx_def cy_def by simp
    have "line_loop f raw (X + sx * A) (Y + sy * B) A (- B) sx sy ?x ?y er d =
        line_loop f raw (X + sx * A) (Y + sy * B) A (- B) sx sy (X + sx * i') (Y + sy * j') er' ?d"
      by (subst line_loop.simps) (simp only: Let_def if_not_P [OF ne] e2 xy eer)
    moreover note less.hyps [OF ij(5) ij(1-4) er' rng, of ?d]
    ultimately obtain d' where d': "line_loop f raw (X + sx * A) (Y + sy * B) A (- B) sx sy ?x ?y er d = Some d'"
      and dr: "drawn f raw ?C ?d d'"
      and e: "on_screen f (X + sx * A) (Y + sy * B) \<longrightarrow> vram d' (pix f (X + sx * A) (Y + sy * B)) = raw"
      by auto
    have "drawn f raw ?C d d'" using here dr by (rule drawn_trans)
    moreover have "on_screen f ?x ?y \<longrightarrow> vram d' (pix f ?x ?y) = raw"
      using drawn_keeps [OF dr, of "pix f ?x ?y"] by simp
    ultimately show ?thesis using d' e by blast
  qed
qed

text \<open>C17: \<open>hal_display_line\<close> returns for all end points within 2^28 of the origin, on or off the screen;
  it paints both end points that are visible, and every word of memory it changes is a visible pixel
  of the bounding box of the line, set to the colour.\<close>

theorem line_terminates:
  assumes "g_fb d = Some f" and "\<bar>x0\<bar> < 2 ^ 28" and "\<bar>y0\<bar> < 2 ^ 28" and "\<bar>x1\<bar> < 2 ^ 28" and "\<bar>y1\<bar> < 2 ^ 28"
  shows "\<exists>d'. hal_display_line x0 y0 x1 y1 color d = Some d' \<and>
    (on_screen f x0 y0 \<longrightarrow> vram d' (pix f x0 y0) = encode_pixel d color) \<and>
    (on_screen f x1 y1 \<longrightarrow> vram d' (pix f x1 y1) = encode_pixel d color) \<and>
    (\<forall>a. vram d' a = vram d a \<or> vram d' a = encode_pixel d color \<and>
      (\<exists>x y. on_screen f x y \<and> a = pix f x y \<and> min x0 x1 \<le> x \<and> x \<le> max x0 x1 \<and> min y0 y1 \<le> y \<and> y \<le> max y0 y1))"
proof -
  define A where "A = \<bar>x1 - x0\<bar>"
  define B where "B = \<bar>y1 - y0\<bar>"
  define sx where "sx = (if x0 < x1 then 1 else - 1 :: int)"
  define sy where "sy = (if y0 < y1 then 1 else - 1 :: int)"
  let ?C = "{(x0 + sx * k, y0 + sy * l) | k l. 0 \<le> k \<and> k \<le> A \<and> 0 \<le> l \<and> l \<le> B}"
  have AB: "0 \<le> A" "A < 2 ^ 29" "0 \<le> B" "B < 2 ^ 29" using assms by (auto simp: A_def B_def)
  have ends: "x0 + sx * A = x1" "y0 + sy * B = y1" by (auto simp: A_def B_def sx_def sy_def)
  have "(if x0 < x1 then s32 (x1 - x0) else s32 (x0 - x1)) = A"
    "(if y0 < y1 then s32 (- s32 (y1 - y0)) else s32 (- s32 (y0 - y1))) = - B"
    using assms by (auto simp: A_def B_def s32_id)
  moreover have "s32 (A + - B) = A - B" using AB by (intro s32_id [THEN trans]) auto
  ultimately have "hal_display_line x0 y0 x1 y1 color d =
      line_loop f (encode_pixel d color) x1 y1 A (- B) sx sy x0 y0 (A - B) d"
    unfolding hal_display_line_def assms(1) by (simp add: Let_def flip: sx_def sy_def)
  moreover have "drawn f raw ?C d d' \<Longrightarrow> \<forall>a. vram d' a = vram d a \<or> vram d' a = raw \<and> (\<exists>x y. on_screen f x y \<and>
      a = pix f x y \<and> min x0 x1 \<le> x \<and> x \<le> max x0 x1 \<and> min y0 y1 \<le> y \<and> y \<le> max y0 y1)" for raw d'
  proof -
    have "(x, y) \<in> ?C \<Longrightarrow> min x0 x1 \<le> x \<and> x \<le> max x0 x1 \<and> min y0 y1 \<le> y \<and> y \<le> max y0 y1" for x y
      by (auto simp: A_def B_def sx_def sy_def split: if_splits)
    then show "drawn f raw ?C d d' \<Longrightarrow> ?thesis" unfolding drawn_def by meson
  qed
  ultimately show ?thesis
    using line_loop_draws [of x0 y0 A B sx sy 0 0 "A - B" f "encode_pixel d color" d] assms(2, 3) AB
    unfolding ends by (auto simp: sx_def sy_def)
qed

section \<open>Pixels\<close>

text \<open>The three channels of a pixel word do not overlap.\<close>

definition channels_ok :: "display \<Rightarrow> bool" where
  "channels_ok d \<longleftrightarrow> (let r = unat (g_red_shift d); g = unat (g_green_shift d); b = unat (g_blue_shift d) in
     r \<le> 24 \<and> g \<le> 24 \<and> b \<le> 24 \<and> (r + 8 \<le> g \<or> g + 8 \<le> r) \<and> (r + 8 \<le> b \<or> b + 8 \<le> r) \<and> (g + 8 \<le> b \<or> b + 8 \<le> g))"

lemma channel_bits:
  fixes x y z :: u32
  assumes "r \<le> 24" and "r + 8 \<le> g \<or> g + 8 \<le> r" and "r + 8 \<le> b \<or> b + 8 \<le> r"
  shows "drop_bit r (push_bit r (x AND mask 8) OR push_bit g (y AND mask 8) OR push_bit b (z AND mask 8)) AND mask 8 = x AND mask 8"
  by (rule bit_word_eqI) (use assms in \<open>auto simp: bit_simps\<close>)

lemma decode_encode:
  assumes "channels_ok d"
  shows "decode_pixel d (encode_pixel d c) = c AND 0xFFFFFF"
proof -
  let ?r = "unat (g_red_shift d)" and ?g = "unat (g_green_shift d)" and ?b = "unat (g_blue_shift d)"
  have m: "0xFF = (mask 8 :: u32)" "0xFFFFFF = (mask 24 :: u32)" by (simp_all add: mask_eq_exp_minus_1)
  have ok: "?r \<le> 24" "?g \<le> 24" "?b \<le> 24" "?r + 8 \<le> ?g \<or> ?g + 8 \<le> ?r" "?r + 8 \<le> ?b \<or> ?b + 8 \<le> ?r"
    "?g + 8 \<le> ?b \<or> ?b + 8 \<le> ?g"
    using assms by (simp_all add: channels_ok_def Let_def)
  have "drop_bit ?r (encode_pixel d c) AND mask 8 = drop_bit 16 c AND mask 8"
    unfolding encode_pixel_def Let_def m by (rule channel_bits) (use ok in auto)
  moreover have "drop_bit ?g (encode_pixel d c) AND mask 8 = drop_bit 8 c AND mask 8"
    using channel_bits [of ?g ?r ?b "drop_bit 8 c" "drop_bit 16 c" c] ok
    unfolding encode_pixel_def Let_def m by (auto simp: ac_simps)
  moreover have "drop_bit ?b (encode_pixel d c) AND mask 8 = c AND mask 8"
    using channel_bits [of ?b ?r ?g c "drop_bit 16 c" "drop_bit 8 c"] ok
    unfolding encode_pixel_def Let_def m by (auto simp: ac_simps)
  ultimately have "decode_pixel d (encode_pixel d c) =
      push_bit 16 (drop_bit 16 c AND mask 8) OR push_bit 8 (drop_bit 8 c AND mask 8) OR (c AND mask 8)"
    unfolding decode_pixel_def Let_def m by simp
  also have "\<dots> = c AND 0xFFFFFF" (is "?l = ?w")
  proof (rule bit_word_eqI)
    fix n assume "n < LENGTH(32)"
    then consider "n < 8" | "8 \<le> n" "n < 16" | "16 \<le> n" "n < 24" | "24 \<le> n" "n < 32" by fastforce
    then show "bit ?l n = bit ?w n" unfolding m by cases (auto simp: bit_simps)
  qed
  finally show ?thesis .
qed

text \<open>Reading back a pixel gives the colour last drawn there, in the 24 bits it has, on every channel
  layout in which the channels do not overlap; drawing a pixel leaves what is read at all others.\<close>

theorem get_pixel_after_pixel:
  assumes "g_fb d = Some f" and "fb_ok f" and "channels_ok d" and "on_screen f x y"
  shows "hal_display_get_pixel x' y' (hal_display_pixel x y color d) =
    (if x' = x \<and> y' = y then color AND 0xFFFFFF else hal_display_get_pixel x' y' d)"
  using assms pix_inj [OF assms(2) _ assms(4), of x' y']
  by (auto simp: hal_display_get_pixel_def hal_display_pixel_def decode_encode)

section \<open>A concrete screen\<close>

definition vga :: canboot_fb where
  "vga = \<lparr> fb_addr = 0xE0000000, width = 640, height = 480, pitch = 2560, bpp = 32, fb_format = CANBOOT_FB_RGB,
     red_mask_size = 8, red_mask_shift = 16, green_mask_size = 8, green_mask_shift = 8,
     blue_mask_size = 8, blue_mask_shift = 0 \<rparr>"

definition screen0 :: display where
  "screen0 = canboot_display_bind (Some vga)
     \<lparr> g_fb = None, g_red_shift = 0, g_green_shift = 0, g_blue_shift = 0, vram = (\<lambda>_. 0) \<rparr>"

lemma screen0_facts: "g_fb screen0 = Some vga" "fb_ok vga" "channels_ok screen0" "on_screen vga 3 4"
  by (simp_all add: screen0_def canboot_display_bind_def vga_def fb_ok_def channels_ok_def on_screen_def s32_id)

theorem fill_rect_exact_witness:
  "vram (hal_display_fill_rect (-5) 2 20 30 0xFF screen0) (pix vga 3 4) = encode_pixel screen0 0xFF \<and>
   vram (hal_display_fill_rect (-5) 5 20 30 0xFF screen0) (pix vga 3 4) = vram screen0 (pix vga 3 4)"
  using fill_rect_exact [OF screen0_facts(1, 2), of "-5" 2 20 30 "0xFF"]
    fill_rect_exact [OF screen0_facts(1, 2), of "-5" 5 20 30 "0xFF"] screen0_facts(4) by simp

theorem copy_rect_simultaneous_witness:
  "vram (hal_display_copy_rect 0 0 1 1 10 10 screen0) (pix vga 3 4) = vram screen0 (pix vga 2 3)"
proof -
  have "on_screen vga 2 3" by (simp add: on_screen_def vga_def s32_id)
  with copy_rect_simultaneous [OF screen0_facts(1, 2), of 0 0 1 1 10 10] screen0_facts(4) show ?thesis by simp
qed

theorem line_terminates_witness:
  "\<exists>d'. hal_display_line 3 4 (-100) 900 0xFF screen0 = Some d' \<and> vram d' (pix vga 3 4) = encode_pixel screen0 0xFF"
  using line_terminates [OF screen0_facts(1), of 3 4 "-100" 900 "0xFF"] screen0_facts(4) by auto

theorem get_pixel_after_pixel_witness:
  "hal_display_get_pixel 3 4 (hal_display_pixel 3 4 0x12345678 screen0) = 0x345678"
  using get_pixel_after_pixel [OF screen0_facts, of 3 4 "0x12345678"] by simp

end
