(* ===== verification/Encoding.thy ===== *)
theory Encoding
  imports Canboot_Prelude
begin

text \<open>
  The hex and base64 codecs of \<open>cando_port/lib/encoding.c\<close>. The argument of a method is the C string
  that the script value provides, or \<open>None\<close> where the source gets a null pointer; the result is the
  string pushed for the script, or \<open>None\<close> for null. Decoding what was encoded gives the string
  back, up to the capacity of the static buffers.
\<close>

section \<open>Definitions\<close>

definition hex_digits :: bytes where
  "hex_digits = ascii ''0123456789abcdef''"

definition unhex_nibble :: "u8 \<Rightarrow> int" where
  "unhex_nibble c =
    (if 0x30 \<le> c \<and> c \<le> 0x39 then uint c - 0x30
     else if 0x61 \<le> c \<and> c \<le> 0x66 then 10 + (uint c - 0x61)
     else if 0x41 \<le> c \<and> c \<le> 0x46 then 10 + (uint c - 0x41)
     else -1)"

definition h_encode :: "bytes option \<Rightarrow> bytes option" where
  "h_encode arg = (case arg of None \<Rightarrow> None
    | Some p \<Rightarrow>
        let src = cstr p;
            n = length src;
            n = (if 16384 - 1 < n * 2 then (16384 - 1) div 2 else n) in
        Some (concat (map (\<lambda>i. [hex_digits ! unat (drop_bit 4 (src ! i)), hex_digits ! unat (src ! i AND 0xF)])
          [0 ..< n])))"

primrec h_decode_loop :: "bytes \<Rightarrow> nat \<Rightarrow> nat \<Rightarrow> bytes option" where
  "h_decode_loop src 0 i = Some []"
| "h_decode_loop src (Suc k) i =
    (let hi = unhex_nibble (src ! (i * 2));
         lo = unhex_nibble (src ! (i * 2 + 1)) in
     if hi < 0 \<or> lo < 0 then None
     else (case h_decode_loop src k (i + 1) of None \<Rightarrow> None
           | Some out \<Rightarrow> Some (word_of_int (push_bit 4 hi OR lo) # out)))"

definition h_decode :: "bytes option \<Rightarrow> bytes option" where
  "h_decode arg = (case arg of None \<Rightarrow> None
    | Some p \<Rightarrow>
        let src = cstr p;
            n = length src in
        if n mod 2 \<noteq> 0 then None
        else let out_n = n div 2;
                 out_n = (if 8192 < out_n then 8192 else out_n) in
             h_decode_loop src out_n 0)"

definition b64_alphabet :: bytes where
  "b64_alphabet = ascii ''ABCDEFGHIJKLMNOPQRSTUVWXYZabcdefghijklmnopqrstuvwxyz0123456789+/''"

definition b64_value :: "u8 \<Rightarrow> int" where
  "b64_value c =
    (if 0x41 \<le> c \<and> c \<le> 0x5A then uint c - 0x41
     else if 0x61 \<le> c \<and> c \<le> 0x7A then 26 + (uint c - 0x61)
     else if 0x30 \<le> c \<and> c \<le> 0x39 then 52 + (uint c - 0x30)
     else if c = 0x2B then 62
     else if c = 0x2F then 63
     else -1)"

text \<open>\<open>b64_alphabet[(v >> k) & 0x3F]\<close>.\<close>

definition b64_digit :: "u32 \<Rightarrow> nat \<Rightarrow> u8" where
  "b64_digit v k = b64_alphabet ! unat (drop_bit k v AND 0x3F)"

text \<open>The loop of \<open>b_encode\<close> and the two cases after it, on the part of \<open>src\<close> from \<open>i\<close> on.\<close>

fun b_encode_loop :: "bytes \<Rightarrow> nat \<Rightarrow> bytes" where
  "b_encode_loop (a # b # c # rest) out_n =
    (if out_n + 4 \<le> 16384 - 1
     then let v = push_bit 16 (ucast a) OR push_bit 8 (ucast b) OR ucast c in
          b64_digit v 18 # b64_digit v 12 # b64_digit v 6 # b64_digit v 0 # b_encode_loop rest (out_n + 4)
     else [])"
| "b_encode_loop [a] out_n =
    (if out_n + 4 \<le> 16384 - 1
     then let v = push_bit 16 (ucast a) in [b64_digit v 18, b64_digit v 12, 0x3D, 0x3D]
     else [])"
| "b_encode_loop [a, b] out_n =
    (if out_n + 4 \<le> 16384 - 1
     then let v = push_bit 16 (ucast a) OR push_bit 8 (ucast b) in
          [b64_digit v 18, b64_digit v 12, b64_digit v 6, 0x3D]
     else [])"
| "b_encode_loop [] out_n = []"

definition b_encode :: "bytes option \<Rightarrow> bytes option" where
  "b_encode arg = (case arg of None \<Rightarrow> None | Some p \<Rightarrow> Some (b_encode_loop (cstr p) 0))"

text \<open>\<open>if (ok && out_n < sizeof(out)) out[out_n++] = b\<close>.\<close>

definition b_put :: "bool \<Rightarrow> u8 \<Rightarrow> bytes \<Rightarrow> bytes" where
  "b_put ok b out = (if ok \<and> length out < 12288 then out @ [b] else out)"

text \<open>One pass of the loop of \<open>b_decode\<close>.\<close>

definition b_decode_step :: "u8 \<Rightarrow> u8 \<Rightarrow> u8 \<Rightarrow> u8 \<Rightarrow> bytes \<Rightarrow> bytes option" where
  "b_decode_step s0 s1 s2 s3 out =
    (let a = b64_value s0;
         b = b64_value s1;
         c = (if s2 = 0x3D then -2 else b64_value s2);
         d = (if s3 = 0x3D then -2 else b64_value s3) in
     if a < 0 \<or> b < 0 \<or> c = -1 \<or> d = -1 then None
     else let v = push_bit 18 (word_of_int a) OR push_bit 12 (word_of_int b)
                    OR push_bit 6 (word_of_int (if c < 0 then 0 else c)) OR word_of_int (if d < 0 then 0 else d) :: u32 in
          Some (b_put (0 \<le> d) (ucast (v AND 0xFF))
            (b_put (0 \<le> c) (ucast (drop_bit 8 v AND 0xFF))
              (b_put True (ucast (drop_bit 16 v AND 0xFF)) out))))"

fun b_decode_loop :: "bytes \<Rightarrow> bytes \<Rightarrow> bytes option" where
  "b_decode_loop (s0 # s1 # s2 # s3 # rest) out =
    (case b_decode_step s0 s1 s2 s3 out of None \<Rightarrow> None | Some out \<Rightarrow> b_decode_loop rest out)"
| "b_decode_loop _ out = Some out"

definition b_decode :: "bytes option \<Rightarrow> bytes option" where
  "b_decode arg = (case arg of None \<Rightarrow> None
    | Some p \<Rightarrow>
        let src = cstr p in
        if length src mod 4 \<noteq> 0 then None else b_decode_loop src [])"

section \<open>Hex\<close>

lemma hex_digits_facts: "map unhex_nibble hex_digits = map int [0 ..< 16]" "list_all (\<lambda>x. x \<noteq> 0) hex_digits"
  "length hex_digits = 16"
  by (simp_all add: hex_digits_def ascii_def unhex_nibble_def upt_rec)

lemma unhex_hex: "k < 16 \<Longrightarrow> unhex_nibble (hex_digits ! k) = int k \<and> hex_digits ! k \<noteq> 0"
  using hex_digits_facts(1) [THEN arg_cong [where f = "\<lambda>xs. xs ! k"]] hex_digits_facts(2, 3)
  by (simp add: list_all_length)

lemma hex_nibbles:
  fixes b :: u8
  shows "unat (drop_bit 4 b) < 16" "unat (b AND 0xF) < 16"
    "word_of_int (push_bit 4 (int (unat (drop_bit 4 b))) OR int (unat (b AND 0xF))) = b"
proof -
  show d: "unat (drop_bit 4 b) < 16" using less_mult_imp_div_less [of "unat b" 16 16] unat_u8_lt [of b]
    by (simp add: drop_bit_eq_div unat_div)
  have m: "b AND 0xF = take_bit 4 b" by (simp add: take_bit_eq_mask mask_eq_exp_minus_1)
  then show "unat (b AND 0xF) < 16"
    using take_bit_nat_less_exp [of 4 "unat b"] by (simp add: unsigned_take_bit_eq)
  show "word_of_int (push_bit 4 (int (unat (drop_bit 4 b))) OR int (unat (b AND 0xF))) = b"
    by (rule bit_word_eqI) (auto simp: bit_simps m)
qed

lemma nth_pairs:
  "i < n \<Longrightarrow> concat (map (\<lambda>i. [f i, g i]) [0 ..< n]) ! (i * 2) = f i \<and>
    concat (map (\<lambda>i. [f i, g i]) [0 ..< n]) ! (i * 2 + 1) = g i"
  and length_pairs: "length (concat (map (\<lambda>i. [f i, g i]) [0 ..< n])) = n * 2"
proof -
  show l: "length (concat (map (\<lambda>i. [f i, g i]) [0 ..< n])) = n * 2" for n
    by (induction n) simp_all
  show "i < n \<Longrightarrow> concat (map (\<lambda>i. [f i, g i]) [0 ..< n]) ! (i * 2) = f i \<and>
    concat (map (\<lambda>i. [f i, g i]) [0 ..< n]) ! (i * 2 + 1) = g i"
    by (induction n) (auto simp: nth_append l less_Suc_eq)
qed

abbreviation hex_pairs :: "bytes \<Rightarrow> nat \<Rightarrow> bytes" where
  "hex_pairs src n \<equiv> concat (map (\<lambda>i. [hex_digits ! unat (drop_bit 4 (src ! i)), hex_digits ! unat (src ! i AND 0xF)]) [0 ..< n])"

lemma hex_pairs_nonzero: "0 \<notin> set (hex_pairs src n)"
  using unhex_hex [OF hex_nibbles(1)] unhex_hex [OF hex_nibbles(2)] by auto

lemma h_decode_pairs: "i + k \<le> n \<Longrightarrow> h_decode_loop (hex_pairs src n) k i = Some (map ((!) src) [i ..< i + k])"
proof (induction k arbitrary: i)
  case (Suc k)
  have "map ((!) src) [i ..< i + Suc k] = src ! i # map ((!) src) [i + 1 ..< i + 1 + k]"
    by (subst upt_conv_Cons) simp_all
  moreover have "i < n" using Suc(2) by simp
  ultimately show ?case
    using Suc unhex_hex [OF hex_nibbles(1), of "src ! i"] unhex_hex [OF hex_nibbles(2), of "src ! i"]
      nth_pairs [OF \<open>i < n\<close>, of "\<lambda>i. hex_digits ! unat (drop_bit 4 (src ! i))" "\<lambda>i. hex_digits ! unat (src ! i AND 0xF)"]
      hex_nibbles(3) [of "src ! i"]
    by (simp add: Let_def)
qed simp

text \<open>\<open>hex.decode(hex.encode(s))\<close> is \<open>s\<close> up to its first zero byte and up to the 8191 bytes that fit
  the output buffer of the encoder; the decoder never refuses the encoder's output.\<close>

theorem hex_roundtrip: "h_decode (h_encode (Some s)) = Some (take 8191 (cstr s))"
proof -
  define n where "n = (if 16384 - 1 < length (cstr s) * 2 then (16384 - 1) div 2 else length (cstr s))"
  have n: "n \<le> length (cstr s)" "n = min 8191 (length (cstr s))" by (auto simp: n_def)
  have e: "h_encode (Some s) = Some (hex_pairs (cstr s) n)" by (simp add: h_encode_def n_def Let_def)
  have "h_decode (Some (hex_pairs (cstr s) n)) = h_decode_loop (hex_pairs (cstr s) n) n 0"
    unfolding h_decode_def using n(2) by (simp add: cstr_nonzero [OF hex_pairs_nonzero] length_pairs Let_def)
  also have "\<dots> = Some (map ((!) (cstr s)) [0 ..< n])" using h_decode_pairs [of 0 n n] by simp
  also have "map ((!) (cstr s)) [0 ..< n] = take 8191 (cstr s)"
    using n by (intro nth_equalityI) auto
  finally show ?thesis by (simp add: e)
qed

section \<open>Base64\<close>

lemma b64_alphabet_facts: "map b64_value b64_alphabet = map int [0 ..< 64]"
  "list_all (\<lambda>x. x \<noteq> 0x3D \<and> x \<noteq> 0) b64_alphabet" "length b64_alphabet = 64"
  by (simp_all add: b64_alphabet_def ascii_def b64_value_def upt_rec)

lemma b64_value_digit:
  "0 \<le> b64_value (b64_digit v k) \<and> word_of_int (b64_value (b64_digit v k)) = drop_bit k v AND 0x3F \<and>
   b64_digit v k \<noteq> 0x3D \<and> b64_digit v k \<noteq> 0"
proof -
  let ?j = "unat (drop_bit k v AND 0x3F)"
  have "drop_bit k v AND 0x3F = take_bit 6 (drop_bit k v)" by (simp add: take_bit_eq_mask mask_eq_exp_minus_1)
  then have j: "?j < 64"
    using take_bit_nat_less_exp [of 6 "unat (drop_bit k v)"] by (simp add: unsigned_take_bit_eq)
  have "b64_value (b64_alphabet ! ?j) = int ?j"
    using b64_alphabet_facts(1) [THEN arg_cong [where f = "\<lambda>xs. xs ! ?j"]] b64_alphabet_facts(3) j by simp
  then show ?thesis
    using b64_alphabet_facts(2, 3) j unfolding b64_digit_def by (simp add: list_all_length)
qed

lemma b64_masks: "0x3F = (mask 6 :: u32)" "0xFF = (mask 8 :: u32)" "0xFFFFFF = (mask 24 :: u32)"
  by (simp_all add: mask_eq_exp_minus_1)

lemma b64_join:
  fixes v :: u32
  shows "push_bit 18 (drop_bit 18 v AND 0x3F) OR push_bit 12 (drop_bit 12 v AND 0x3F) OR push_bit 6 (drop_bit 6 v AND 0x3F)
     OR (drop_bit 0 v AND 0x3F) = v AND 0xFFFFFF" (is "?l = ?r")
proof (rule bit_word_eqI)
  fix n assume "n < LENGTH(32)"
  then consider "n < 6" | "6 \<le> n" "n < 12" | "12 \<le> n" "n < 18" | "18 \<le> n" "n < 24" | "24 \<le> n" "n < 32"
    by fastforce
  then show "bit ?l n = bit ?r n"
    unfolding b64_masks by cases (auto simp: bit_simps)
qed

lemma b64_low_zero:
  fixes a b :: u8
  shows "drop_bit 6 (push_bit 16 (ucast a) :: u32) AND 0x3F = 0" "drop_bit 0 (push_bit 16 (ucast a) :: u32) AND 0x3F = 0"
    "drop_bit 0 (push_bit 16 (ucast a) OR push_bit 8 (ucast b) :: u32) AND 0x3F = 0"
  unfolding b64_masks by (rule bit_word_eqI; auto simp: bit_simps)+

lemma b64_bytes:
  fixes a b c :: u8
  defines "v \<equiv> (push_bit 16 (ucast a) OR push_bit 8 (ucast b) OR ucast c) AND 0xFFFFFF :: u32"
  shows "ucast (drop_bit 16 v AND 0xFF) = a" "ucast (drop_bit 8 v AND 0xFF) = b" "ucast (v AND 0xFF) = c"
  unfolding v_def b64_masks by (rule bit_word_eqI; auto simp: bit_simps dest: bit_imp_le_length)+

lemmas b64_bytes1 = b64_bytes [of _ 0 0, simplified] b64_bytes [of _ _ 0, simplified]

lemma b_encode_shape: "0 \<notin> set (b_encode_loop s m) \<and> 4 dvd length (b_encode_loop s m)"
proof -
  have "4 dvd n \<Longrightarrow> 4 dvd Suc (Suc (Suc (Suc n)))" for n :: nat by presburger
  note four = this this [of 0, simplified]
  show ?thesis
    by (induction s m rule: b_encode_loop.induct) (use four b64_value_digit in \<open>auto simp: Let_def\<close>)
qed

lemma b64_digit_simps [simp]:
  "b64_digit v k \<noteq> 0x3D" "\<not> b64_value (b64_digit v k) < 0" "b64_value (b64_digit v k) \<noteq> -1"
  "0 \<le> b64_value (b64_digit v k)" "word_of_int (b64_value (b64_digit v k)) = drop_bit k v AND 0x3F"
  using b64_value_digit [of v k] by auto

lemma b_decode_quad:
  "b_decode_loop (b64_digit v 18 # b64_digit v 12 # b64_digit v 6 # b64_digit v 0 # rest) out =
     (let w = v AND 0xFFFFFF in
      b_decode_loop rest (b_put True (ucast (w AND 0xFF)) (b_put True (ucast (drop_bit 8 w AND 0xFF))
        (b_put True (ucast (drop_bit 16 w AND 0xFF)) out))))"
  unfolding b64_join [symmetric] b_decode_loop.simps b_decode_step_def Let_def b64_digit_simps if_False by simp

lemma b_decode_pad1:
  "drop_bit 0 v AND 0x3F = 0 \<Longrightarrow> b_decode_loop [b64_digit v 18, b64_digit v 12, b64_digit v 6, 0x3D] out =
     (let w = v AND 0xFFFFFF in
      Some (b_put True (ucast (drop_bit 8 w AND 0xFF)) (b_put True (ucast (drop_bit 16 w AND 0xFF)) out)))"
  unfolding b64_join [symmetric] b_decode_loop.simps b_decode_step_def Let_def b64_digit_simps if_False by (simp add: b_put_def)

lemma b_decode_pad2:
  "drop_bit 6 v AND 0x3F = 0 \<Longrightarrow> drop_bit 0 v AND 0x3F = 0 \<Longrightarrow>
   b_decode_loop [b64_digit v 18, b64_digit v 12, 0x3D, 0x3D] out =
     Some (b_put True (ucast (drop_bit 16 (v AND 0xFFFFFF) AND 0xFF)) out)"
  unfolding b64_join [symmetric] b_decode_loop.simps b_decode_step_def Let_def b64_digit_simps if_False by (simp add: b_put_def)

lemma b_decode_encode:
  assumes "j \<le> 4095" and "length out = 3 * j"
  shows "b_decode_loop (b_encode_loop s (4 * j)) out = Some (out @ take (12285 - 3 * j) s)"
  using assms
proof (induction s "4 * j" arbitrary: j out rule: b_encode_loop.induct)
  case (1 a b c rest)
  show ?case
  proof (cases "j = 4095")
    case False
    then have j: "4 * j + 4 \<le> 16384 - 1" "j + 1 \<le> 4095" using 1(2) by simp_all
    have "12285 - 3 * j = Suc (Suc (Suc (12285 - 3 * (j + 1))))" using j(2) by simp
    then have t: "take (12285 - 3 * j) (a # b # c # rest) = a # b # c # take (12285 - 3 * (j + 1)) rest"
      by simp
    let ?v = "push_bit 16 (ucast a) OR push_bit 8 (ucast b) OR ucast c :: u32"
    have "b_decode_loop (b_encode_loop (a # b # c # rest) (4 * j)) out = b_decode_loop (b_encode_loop rest (4 * (j + 1))) (out @ [a, b, c])"
      unfolding b_encode_loop.simps Let_def if_P [OF j(1)] b_decode_quad b64_bytes using j 1(3)
      by (simp add: b_put_def add.commute)
    then show ?thesis
      using 1(1) [OF j(1) refl, of "j + 1" "out @ [a, b, c]"] 1(3) j by (simp add: t)
  qed (simp add: 1)
next
  case (2 a)
  show ?case
  proof (cases "j = 4095")
    case False
    then have j: "4 * j + 4 \<le> 16384 - 1" "12285 - 3 * j > 0" using 2(1) by simp_all
    show ?thesis
      unfolding b_encode_loop.simps Let_def if_P [OF j(1)] b_decode_pad2 [OF b64_low_zero(1, 2)]
      using j 2 b64_bytes1(1) [of a] by (simp add: b_put_def take_Cons')
  qed (simp add: 2)
next
  case (3 a b)
  show ?case
  proof (cases "j = 4095")
    case False
    then have j: "4 * j + 4 \<le> 16384 - 1" "12285 - 3 * j > 1" using 3(1) by simp_all
    show ?thesis
      unfolding b_encode_loop.simps Let_def if_P [OF j(1)] b_decode_pad1 [OF b64_low_zero(3)]
      using j 3 b64_bytes1(4, 5) [of a b] by (simp add: b_put_def take_Cons')
  qed (simp add: 3)
qed simp

text \<open>\<open>base64.decode(base64.encode(s))\<close> is \<open>s\<close> up to its first zero byte and up to the 12285 bytes
  whose encoding fits the output buffer of the encoder.\<close>

theorem base64_roundtrip: "b_decode (b_encode (Some s)) = Some (take 12285 (cstr s))"
  using b_encode_shape [of "cstr s" 0] b_decode_encode [of 0 "[]" "cstr s"]
  by (simp add: b_encode_def b_decode_def Let_def cstr_nonzero dvd_eq_mod_eq_0)

end
