(* ===== verification/Input.thy ===== *)
theory Input
  imports Display
begin

text \<open>
  Input: the event ring, the pointer state and \<open>hal_input_getc\<close> of \<open>hal/input/input_queue.c\<close>, the
  PS/2 driver \<open>hal/input/ps2.c\<close> and the event translation of \<open>hal/input/virtio_input.c\<close>. The state of
  a driver extends the shared record. The registered pump functions are numbers, and what a number
  stands for is the parameter \<open>drivers\<close>; port access is the pair of parameters \<open>inb\<close> and \<open>outb\<close> over
  the hardware state \<open>'h\<close>.
\<close>

section \<open>Events and the ring\<close>

definition CANBOOT_EV_KEY_DOWN :: u32 where "CANBOOT_EV_KEY_DOWN = 1"
definition CANBOOT_EV_KEY_UP :: u32 where "CANBOOT_EV_KEY_UP = 2"
definition CANBOOT_EV_SRC_PS2 :: u32 where "CANBOOT_EV_SRC_PS2 = 1"
definition CANBOOT_EV_SRC_VIRTIO_INPUT :: u32 where "CANBOOT_EV_SRC_VIRTIO_INPUT = 2"

definition CANBOOT_KEY_ESC :: u32 where "CANBOOT_KEY_ESC = 0x101"
definition CANBOOT_KEY_ENTER :: u32 where "CANBOOT_KEY_ENTER = 0x102"
definition CANBOOT_KEY_BACKSP :: u32 where "CANBOOT_KEY_BACKSP = 0x103"
definition CANBOOT_KEY_TAB :: u32 where "CANBOOT_KEY_TAB = 0x104"
definition CANBOOT_KEY_LSHIFT :: u32 where "CANBOOT_KEY_LSHIFT = 0x110"
definition CANBOOT_KEY_RSHIFT :: u32 where "CANBOOT_KEY_RSHIFT = 0x111"
definition CANBOOT_KEY_LCTRL :: u32 where "CANBOOT_KEY_LCTRL = 0x112"
definition CANBOOT_KEY_RCTRL :: u32 where "CANBOOT_KEY_RCTRL = 0x113"
definition CANBOOT_KEY_LALT :: u32 where "CANBOOT_KEY_LALT = 0x114"
definition CANBOOT_KEY_RALT :: u32 where "CANBOOT_KEY_RALT = 0x115"
definition CANBOOT_KEY_CAPS :: u32 where "CANBOOT_KEY_CAPS = 0x116"
definition CANBOOT_KEY_UP :: u32 where "CANBOOT_KEY_UP = 0x120"
definition CANBOOT_KEY_DOWN :: u32 where "CANBOOT_KEY_DOWN = 0x121"
definition CANBOOT_KEY_LEFT :: u32 where "CANBOOT_KEY_LEFT = 0x122"
definition CANBOOT_KEY_RIGHT :: u32 where "CANBOOT_KEY_RIGHT = 0x123"

lemmas key_defs = CANBOOT_KEY_ESC_def CANBOOT_KEY_ENTER_def CANBOOT_KEY_BACKSP_def CANBOOT_KEY_TAB_def
  CANBOOT_KEY_LSHIFT_def CANBOOT_KEY_RSHIFT_def CANBOOT_KEY_LCTRL_def CANBOOT_KEY_RCTRL_def CANBOOT_KEY_LALT_def
  CANBOOT_KEY_RALT_def CANBOOT_KEY_CAPS_def CANBOOT_KEY_UP_def CANBOOT_KEY_DOWN_def CANBOOT_KEY_LEFT_def
  CANBOOT_KEY_RIGHT_def

definition CANBOOT_MOUSE_LEFT :: u32 where "CANBOOT_MOUSE_LEFT = 1"
definition CANBOOT_MOUSE_RIGHT :: u32 where "CANBOOT_MOUSE_RIGHT = 2"
definition CANBOOT_MOUSE_MIDDLE :: u32 where "CANBOOT_MOUSE_MIDDLE = 4"

record canboot_event =
  ev_type :: u32
  ev_source :: u32
  ev_code :: u32
  ev_raw :: u32
  ev_value :: int
  ev_x :: int
  ev_y :: int

definition CANBOOT_INPUT_QUEUE_SIZE :: u32 where "CANBOOT_INPUT_QUEUE_SIZE = 256"
definition CANBOOT_INPUT_MAX_DEVS :: nat where "CANBOOT_INPUT_MAX_DEVS = 4"

text \<open>\<open>dev_pumps\<close> holds the first \<open>dev_count\<close> slots of the C array.\<close>

record input =
  q_events :: "canboot_event list"
  q_head :: u32
  q_tail :: u32
  q_total :: u32
  q_dropped :: u32
  dev_pumps :: "nat list"
  g_mouse_x :: int
  g_mouse_y :: int
  g_mouse_buttons :: u32
  g_mouse_wheel :: int
  g_mouse_present :: bool
  g_mouse_init :: bool

definition canboot_input_register_pump :: "nat option \<Rightarrow> 'a input_scheme \<Rightarrow> 'a input_scheme" where
  "canboot_input_register_pump fn s = (case fn of None \<Rightarrow> s
    | Some p \<Rightarrow> if CANBOOT_INPUT_MAX_DEVS \<le> length (dev_pumps s) then s else s\<lparr> dev_pumps := dev_pumps s @ [p] \<rparr>)"

definition canboot_input_push :: "canboot_event option \<Rightarrow> 'a input_scheme \<Rightarrow> 'a input_scheme" where
  "canboot_input_push ev s = (case ev of None \<Rightarrow> s
    | Some e \<Rightarrow>
        let next = (q_head s + 1) AND (CANBOOT_INPUT_QUEUE_SIZE - 1) in
        if next = q_tail s then s\<lparr> q_dropped := q_dropped s + 1 \<rparr>
        else s\<lparr> q_events := (q_events s)[unat (q_head s) := e], q_head := next, q_total := q_total s + 1 \<rparr>)"

definition hal_input_pump :: "(nat \<Rightarrow> 'a input_scheme \<Rightarrow> 'a input_scheme) \<Rightarrow> 'a input_scheme \<Rightarrow> 'a input_scheme" where
  "hal_input_pump drivers s = fold drivers (dev_pumps s) s"

text \<open>\<open>hal_input_poll\<close> after its pump: take the event at the tail.\<close>

definition take_event :: "'a input_scheme \<Rightarrow> canboot_event option \<times> 'a input_scheme" where
  "take_event s =
    (if q_tail s = q_head s then (None, s)
     else (Some (q_events s ! unat (q_tail s)), s\<lparr> q_tail := (q_tail s + 1) AND (CANBOOT_INPUT_QUEUE_SIZE - 1) \<rparr>))"

definition hal_input_poll ::
    "(nat \<Rightarrow> 'a input_scheme \<Rightarrow> 'a input_scheme) \<Rightarrow> 'a input_scheme \<Rightarrow> canboot_event option \<times> 'a input_scheme" where
  "hal_input_poll drivers s = take_event (hal_input_pump drivers s)"

text \<open>What \<open>hal_input_getc\<close> returns for a key press, if it returns for it.\<close>

definition getc_code :: "u32 \<Rightarrow> int option" where
  "getc_code c =
    (if 0x20 \<le> c \<and> c < 0x80 then Some (uint c)
     else if c = CANBOOT_KEY_ENTER then Some 10
     else if c = CANBOOT_KEY_BACKSP then Some 8
     else if c = CANBOOT_KEY_TAB then Some 9
     else if c = CANBOOT_KEY_ESC \<or> c = CANBOOT_KEY_UP \<or> c = CANBOOT_KEY_DOWN \<or> c = CANBOOT_KEY_LEFT
       \<or> c = CANBOOT_KEY_RIGHT then Some (uint c)
     else None)"

partial_function (option) hal_input_getc ::
    "(nat \<Rightarrow> 'a input_scheme \<Rightarrow> 'a input_scheme) \<Rightarrow> 'a input_scheme \<Rightarrow> (int \<times> 'a input_scheme) option" where
  "hal_input_getc drivers s = (case hal_input_poll drivers s of
      (None, s') \<Rightarrow> Some (-1, s')
    | (Some ev, s') \<Rightarrow>
        if ev_type ev \<noteq> CANBOOT_EV_KEY_DOWN then hal_input_getc drivers s'
        else (case getc_code (ev_code ev) of Some r \<Rightarrow> Some (r, s') | None \<Rightarrow> hal_input_getc drivers s'))"

section \<open>The pointer\<close>

definition clampi :: "int \<Rightarrow> int \<Rightarrow> int \<Rightarrow> int" where
  "clampi v lo hi = (if v < lo then lo else if hi < v then hi else v)"

definition mouse_seed :: "display \<Rightarrow> 'a input_scheme \<Rightarrow> 'a input_scheme" where
  "mouse_seed d s =
    (if g_mouse_init s then s
     else let w = hal_display_width d; h = hal_display_height d in
       s\<lparr> g_mouse_x := (if 0 < w then w div 2 else 0), g_mouse_y := (if 0 < h then h div 2 else 0),
          g_mouse_init := True \<rparr>)"

definition mouse_clamp :: "display \<Rightarrow> 'a input_scheme \<Rightarrow> 'a input_scheme" where
  "mouse_clamp d s =
    (let w = hal_display_width d; h = hal_display_height d;
         s = (if 0 < w then s\<lparr> g_mouse_x := clampi (g_mouse_x s) 0 (w - 1) \<rparr> else s) in
     if 0 < h then s\<lparr> g_mouse_y := clampi (g_mouse_y s) 0 (h - 1) \<rparr> else s)"

definition canboot_input_mouse_move_rel :: "display \<Rightarrow> int \<Rightarrow> int \<Rightarrow> 'a input_scheme \<Rightarrow> 'a input_scheme" where
  "canboot_input_mouse_move_rel d dx dy s =
    (let s = mouse_seed d s;
         s = s\<lparr> g_mouse_x := s32 (g_mouse_x s + dx), g_mouse_y := s32 (g_mouse_y s + dy) \<rparr> in
     (mouse_clamp d s)\<lparr> g_mouse_present := True \<rparr>)"

definition canboot_input_mouse_move_abs :: "display \<Rightarrow> int \<Rightarrow> int \<Rightarrow> 'a input_scheme \<Rightarrow> 'a input_scheme" where
  "canboot_input_mouse_move_abs d x y s =
    (mouse_clamp d (s\<lparr> g_mouse_init := True, g_mouse_x := x, g_mouse_y := y \<rparr>))\<lparr> g_mouse_present := True \<rparr>"

definition canboot_input_mouse_button :: "u32 \<Rightarrow> bool \<Rightarrow> 'a input_scheme \<Rightarrow> 'a input_scheme" where
  "canboot_input_mouse_button m down s =
    s\<lparr> g_mouse_buttons := (if down then g_mouse_buttons s OR m else g_mouse_buttons s AND NOT m),
       g_mouse_present := True \<rparr>"

definition canboot_input_mouse_wheel :: "int \<Rightarrow> 'a input_scheme \<Rightarrow> 'a input_scheme" where
  "canboot_input_mouse_wheel delta s = s\<lparr> g_mouse_wheel := s32 (g_mouse_wheel s + delta), g_mouse_present := True \<rparr>"

definition canboot_input_mouse_state :: "display \<Rightarrow> 'a input_scheme \<Rightarrow> (int \<times> int \<times> u32) \<times> 'a input_scheme" where
  "canboot_input_mouse_state d s =
    (let s = mouse_seed d s in ((g_mouse_x s, g_mouse_y s, g_mouse_buttons s), s))"

definition canboot_input_mouse_take_wheel :: "'a input_scheme \<Rightarrow> int \<times> 'a input_scheme" where
  "canboot_input_mouse_take_wheel s = (g_mouse_wheel s, s\<lparr> g_mouse_wheel := 0 \<rparr>)"

definition canboot_input_mouse_set_present :: "bool \<Rightarrow> 'a input_scheme \<Rightarrow> 'a input_scheme" where
  "canboot_input_mouse_set_present present s = s\<lparr> g_mouse_present := present \<rparr>"

definition hal_input_init :: "'a input_scheme \<Rightarrow> 'a input_scheme" where
  "hal_input_init s = s\<lparr> q_head := 0, q_tail := 0, q_total := 0, q_dropped := 0, dev_pumps := [],
     g_mouse_x := 0, g_mouse_y := 0, g_mouse_buttons := 0, g_mouse_wheel := 0, g_mouse_present := False,
     g_mouse_init := False \<rparr>"

section \<open>PS/2\<close>

record 'h ps2 = input +
  g_mouse_enabled :: bool
  g_mouse_pkt :: bytes
  g_mouse_idx :: u8
  g_shift :: bool
  g_extended :: bool
  hw :: 'h

definition I8042_DATA :: u16 where "I8042_DATA = 0x60"
definition I8042_CMD :: u16 where "I8042_CMD = 0x64"
definition I8042_STATUS :: u16 where "I8042_STATUS = 0x64"

definition base_map_table :: "(nat \<times> u32) list" where
  "base_map_table =
    [(0x01, CANBOOT_KEY_ESC), (0x02, 0x31), (0x03, 0x32), (0x04, 0x33), (0x05, 0x34), (0x06, 0x35),
     (0x07, 0x36), (0x08, 0x37), (0x09, 0x38), (0x0A, 0x39), (0x0B, 0x30), (0x0C, 0x2D), (0x0D, 0x3D),
     (0x0E, CANBOOT_KEY_BACKSP), (0x0F, CANBOOT_KEY_TAB), (0x10, 0x71), (0x11, 0x77), (0x12, 0x65),
     (0x13, 0x72), (0x14, 0x74), (0x15, 0x79), (0x16, 0x75), (0x17, 0x69), (0x18, 0x6F), (0x19, 0x70),
     (0x1A, 0x5B), (0x1B, 0x5D), (0x1C, CANBOOT_KEY_ENTER), (0x1D, CANBOOT_KEY_LCTRL), (0x1E, 0x61),
     (0x1F, 0x73), (0x20, 0x64), (0x21, 0x66), (0x22, 0x67), (0x23, 0x68), (0x24, 0x6A), (0x25, 0x6B),
     (0x26, 0x6C), (0x27, 0x3B), (0x28, 0x27), (0x29, 0x60), (0x2A, CANBOOT_KEY_LSHIFT), (0x2B, 0x5C),
     (0x2C, 0x7A), (0x2D, 0x78), (0x2E, 0x63), (0x2F, 0x76), (0x30, 0x62), (0x31, 0x6E), (0x32, 0x6D),
     (0x33, 0x2C), (0x34, 0x2E), (0x35, 0x2F), (0x36, CANBOOT_KEY_RSHIFT), (0x38, CANBOOT_KEY_LALT),
     (0x39, 0x20), (0x3A, CANBOOT_KEY_CAPS)]"

definition base_map :: "u8 \<Rightarrow> u32" where
  "base_map sc = (case map_of base_map_table (unat sc) of None \<Rightarrow> 0 | Some c \<Rightarrow> c)"

definition shift_map_table :: "(u32 \<times> u32) list" where
  "shift_map_table =
    [(0x31, 0x21), (0x32, 0x40), (0x33, 0x23), (0x34, 0x24), (0x35, 0x25), (0x36, 0x5E), (0x37, 0x26),
     (0x38, 0x2A), (0x39, 0x28), (0x30, 0x29), (0x2D, 0x5F), (0x3D, 0x2B), (0x5B, 0x7B), (0x5D, 0x7D),
     (0x3B, 0x3A), (0x27, 0x22), (0x60, 0x7E), (0x5C, 0x7C), (0x2C, 0x3C), (0x2E, 0x3E), (0x2F, 0x3F)]"

definition shift_map :: "u32 \<Rightarrow> u32" where
  "shift_map c = (case map_of shift_map_table c of None \<Rightarrow> 0 | Some x \<Rightarrow> x)"

definition apply_shift :: "bool \<Rightarrow> u32 \<Rightarrow> u32" where
  "apply_shift shift code =
    (if 0x61 \<le> code \<and> code \<le> 0x7A then if shift then code - 0x61 + 0x41 else code
     else if shift \<and> code < 128 \<and> shift_map code \<noteq> 0 then shift_map code
     else code)"

definition ps2_emit :: "u32 \<Rightarrow> u32 \<Rightarrow> bool \<Rightarrow> 'a input_scheme \<Rightarrow> 'a input_scheme" where
  "ps2_emit code raw is_release =
    canboot_input_push (Some \<lparr> ev_type = (if is_release then CANBOOT_EV_KEY_UP else CANBOOT_EV_KEY_DOWN),
      ev_source = CANBOOT_EV_SRC_PS2, ev_code = code, ev_raw = raw, ev_value = (if is_release then 0 else 1),
      ev_x = 0, ev_y = 0 \<rparr>)"

definition extended_code :: "u8 \<Rightarrow> u32" where
  "extended_code mk =
    (if mk = 0x48 then CANBOOT_KEY_UP else if mk = 0x50 then CANBOOT_KEY_DOWN
     else if mk = 0x4B then CANBOOT_KEY_LEFT else if mk = 0x4D then CANBOOT_KEY_RIGHT
     else if mk = 0x1D then CANBOOT_KEY_RCTRL else if mk = 0x38 then CANBOOT_KEY_RALT
     else if mk = 0x1C then CANBOOT_KEY_ENTER else 0)"

definition process_scancode :: "u8 \<Rightarrow> 'h ps2 \<Rightarrow> 'h ps2" where
  "process_scancode sc s =
    (if sc = 0xE0 then s\<lparr> g_extended := True \<rparr>
     else
       let is_release = (sc AND 0x80 \<noteq> 0);
           mk = sc AND 0x7F in
       if g_extended s then
         let code = extended_code mk;
             s = (if code \<noteq> 0 then ps2_emit code (0xE000 OR ucast mk) is_release s else s) in
         s\<lparr> g_extended := False \<rparr>
       else
         let code = base_map mk in
         if code = 0 then s
         else if code = CANBOOT_KEY_LSHIFT \<or> code = CANBOOT_KEY_RSHIFT
         then ps2_emit code (ucast mk) is_release (s\<lparr> g_shift := \<not> is_release \<rparr>)
         else ps2_emit (apply_shift (g_shift s) code) (ucast mk) is_release s)"

definition process_mouse_byte :: "display \<Rightarrow> u8 \<Rightarrow> 'h ps2 \<Rightarrow> 'h ps2" where
  "process_mouse_byte d b s =
    (if g_mouse_idx s = 0 \<and> b AND 0x08 = 0 then s
     else
       let s = s\<lparr> g_mouse_pkt := (g_mouse_pkt s)[unat (g_mouse_idx s) := b], g_mouse_idx := g_mouse_idx s + 1 \<rparr> in
       if g_mouse_idx s < 3 then s
       else
         let s = s\<lparr> g_mouse_idx := 0 \<rparr>;
             flags = g_mouse_pkt s ! 0 in
         if flags AND 0xC0 \<noteq> 0 then s
         else
           let dx = uint (g_mouse_pkt s ! 1);
               dy = uint (g_mouse_pkt s ! 2);
               dx = (if flags AND 0x10 \<noteq> 0 then dx - 256 else dx);
               dy = (if flags AND 0x20 \<noteq> 0 then dy - 256 else dy);
               s = canboot_input_mouse_move_rel d dx (- dy) s;
               s = canboot_input_mouse_button CANBOOT_MOUSE_LEFT (flags AND 0x01 \<noteq> 0) s;
               s = canboot_input_mouse_button CANBOOT_MOUSE_RIGHT (flags AND 0x02 \<noteq> 0) s in
           canboot_input_mouse_button CANBOOT_MOUSE_MIDDLE (flags AND 0x04 \<noteq> 0) s)"

type_synonym 'h inb_fn = "u16 \<Rightarrow> 'h \<Rightarrow> u8 \<times> 'h"
type_synonym 'h outb_fn = "u16 \<Rightarrow> u8 \<Rightarrow> 'h \<Rightarrow> 'h"

primrec ps2_pump_loop :: "'h inb_fn \<Rightarrow> display \<Rightarrow> nat \<Rightarrow> 'h ps2 \<Rightarrow> 'h ps2" where
  "ps2_pump_loop inb d 0 s = s"
| "ps2_pump_loop inb d (Suc guard) s =
    (let (st, h) = inb I8042_STATUS (hw s); s = s\<lparr> hw := h \<rparr> in
     if st AND 0x01 = 0 then s
     else
       let (dat, h) = inb I8042_DATA (hw s); s = s\<lparr> hw := h \<rparr> in
       ps2_pump_loop inb d guard
         (if g_mouse_enabled s \<and> st AND 0x20 \<noteq> 0 then process_mouse_byte d dat s else process_scancode dat s))"

definition ps2_pump :: "'h inb_fn \<Rightarrow> display \<Rightarrow> 'h ps2 \<Rightarrow> 'h ps2" where
  "ps2_pump inb d s = ps2_pump_loop inb d 64 s"

primrec wait_write_loop :: "'h inb_fn \<Rightarrow> nat \<Rightarrow> 'h \<Rightarrow> 'h" where
  "wait_write_loop inb 0 h = h"
| "wait_write_loop inb (Suc guard) h =
    (let (st, h) = inb I8042_STATUS h in if st AND 0x02 \<noteq> 0 then wait_write_loop inb guard h else h)"

definition i8042_wait_write :: "'h inb_fn \<Rightarrow> 'h \<Rightarrow> 'h" where
  "i8042_wait_write inb h = wait_write_loop inb 100000 h"

primrec wait_read_loop :: "'h inb_fn \<Rightarrow> nat \<Rightarrow> 'h \<Rightarrow> int \<times> 'h" where
  "wait_read_loop inb 0 h = (-1, h)"
| "wait_read_loop inb (Suc guard) h =
    (let (st, h) = inb I8042_STATUS h in
     if st AND 0x01 \<noteq> 0 then let (dat, h) = inb I8042_DATA h in (uint dat, h)
     else wait_read_loop inb guard h)"

definition i8042_wait_read :: "'h inb_fn \<Rightarrow> 'h \<Rightarrow> int \<times> 'h" where
  "i8042_wait_read inb h = wait_read_loop inb 100000 h"

definition mouse_write :: "'h inb_fn \<Rightarrow> 'h outb_fn \<Rightarrow> u8 \<Rightarrow> 'h \<Rightarrow> 'h" where
  "mouse_write inb outb cmd h =
    (let h = outb I8042_CMD 0xD4 (i8042_wait_write inb h);
         h = outb I8042_DATA cmd (i8042_wait_write inb h) in
     snd (i8042_wait_read inb h))"

definition ps2_mouse_init :: "'h inb_fn \<Rightarrow> 'h outb_fn \<Rightarrow> 'h ps2 \<Rightarrow> 'h ps2" where
  "ps2_mouse_init inb outb s =
    (let h = outb I8042_CMD 0xA8 (i8042_wait_write inb (hw s));
         h = outb I8042_CMD 0x20 (i8042_wait_write inb h);
         (cfg, h) = i8042_wait_read inb h;
         h = (if 0 \<le> cfg then
                let c = word_of_int cfg AND NOT 0x20;
                    h = outb I8042_CMD 0x60 (i8042_wait_write inb h) in
                outb I8042_DATA c (i8042_wait_write inb h)
              else h);
         h = mouse_write inb outb 0xF6 h;
         h = mouse_write inb outb 0xF4 h in
     s\<lparr> hw := h, g_mouse_enabled := True, g_mouse_idx := 0 \<rparr>)"

primrec drain_loop :: "'h inb_fn \<Rightarrow> nat \<Rightarrow> 'h \<Rightarrow> 'h" where
  "drain_loop inb 0 h = h"
| "drain_loop inb (Suc guard) h =
    (let (st, h) = inb I8042_STATUS h in
     if st AND 0x01 \<noteq> 0 then drain_loop inb guard (snd (inb I8042_DATA h)) else h)"

text \<open>\<open>pump\<close> is the number of \<open>ps2_pump\<close>.\<close>

definition canboot_ps2_init :: "'h inb_fn \<Rightarrow> 'h outb_fn \<Rightarrow> nat \<Rightarrow> 'h ps2 \<Rightarrow> 'h ps2" where
  "canboot_ps2_init inb outb pump s =
    (let s = s\<lparr> g_shift := False, g_extended := False, g_mouse_enabled := False, g_mouse_idx := 0 \<rparr>;
         s = s\<lparr> hw := drain_loop inb 32 (hw s) \<rparr>;
         s = ps2_mouse_init inb outb s in
     canboot_input_register_pump (Some pump) s)"

section \<open>virtio-input events\<close>

record virtio_input = input +
  vi_shift :: bool
  vi_rawx :: int
  vi_rawy :: int

record virtio_input_event =
  vie_type :: u16
  vie_code :: u16
  vie_value :: u32

definition ascii_lower_table :: "(nat \<times> u32) list" where
  "ascii_lower_table =
    [(2, 0x31), (3, 0x32), (4, 0x33), (5, 0x34), (6, 0x35), (7, 0x36), (8, 0x37), (9, 0x38), (10, 0x39),
     (11, 0x30), (12, 0x2D), (13, 0x3D), (16, 0x71), (17, 0x77), (18, 0x65), (19, 0x72), (20, 0x74),
     (21, 0x79), (22, 0x75), (23, 0x69), (24, 0x6F), (25, 0x70), (26, 0x5B), (27, 0x5D), (30, 0x61),
     (31, 0x73), (32, 0x64), (33, 0x66), (34, 0x67), (35, 0x68), (36, 0x6A), (37, 0x6B), (38, 0x6C),
     (39, 0x3B), (40, 0x27), (41, 0x60), (43, 0x5C), (44, 0x7A), (45, 0x78), (46, 0x63), (47, 0x76),
     (48, 0x62), (49, 0x6E), (50, 0x6D), (51, 0x2C), (52, 0x2E), (53, 0x2F), (57, 0x20)]"

definition ascii_lower :: "u16 \<Rightarrow> u32" where
  "ascii_lower k = (case map_of ascii_lower_table (unat k) of None \<Rightarrow> 0 | Some c \<Rightarrow> c)"

definition ascii_shift_punct_table :: "(u32 \<times> u32) list" where
  "ascii_shift_punct_table =
    [(0x31, 0x21), (0x32, 0x40), (0x33, 0x23), (0x34, 0x24), (0x35, 0x25), (0x36, 0x5E), (0x37, 0x26),
     (0x38, 0x2A), (0x39, 0x28), (0x30, 0x29), (0x2D, 0x5F), (0x3D, 0x2B), (0x5B, 0x7B), (0x5D, 0x7D),
     (0x3B, 0x3A), (0x27, 0x22), (0x60, 0x7E), (0x5C, 0x7C), (0x2C, 0x3C), (0x2E, 0x3E), (0x2F, 0x3F)]"

definition ascii_shift_punct :: "u32 \<Rightarrow> u32" where
  "ascii_shift_punct c = (case map_of ascii_shift_punct_table c of None \<Rightarrow> 0 | Some x \<Rightarrow> x)"

text \<open>The cases of the \<open>switch\<close> in \<open>translate\<close>, and 0 for its \<open>default\<close>.\<close>

definition special_code :: "u16 \<Rightarrow> u32" where
  "special_code k =
    (if k = 1 then CANBOOT_KEY_ESC else if k = 14 then CANBOOT_KEY_BACKSP else if k = 15 then CANBOOT_KEY_TAB
     else if k = 28 \<or> k = 96 then CANBOOT_KEY_ENTER else if k = 29 then CANBOOT_KEY_LCTRL
     else if k = 97 then CANBOOT_KEY_RCTRL else if k = 42 then CANBOOT_KEY_LSHIFT else if k = 54 then CANBOOT_KEY_RSHIFT
     else if k = 56 then CANBOOT_KEY_LALT else if k = 100 then CANBOOT_KEY_RALT else if k = 58 then CANBOOT_KEY_CAPS
     else if k = 103 then CANBOOT_KEY_UP else if k = 108 then CANBOOT_KEY_DOWN else if k = 105 then CANBOOT_KEY_LEFT
     else if k = 106 then CANBOOT_KEY_RIGHT
     else 0)"

definition translate :: "bool \<Rightarrow> u16 \<Rightarrow> u32" where
  "translate shift k =
    (if special_code k \<noteq> 0 then special_code k
     else if k < 256 \<and> ascii_lower k \<noteq> 0 then
       let c = ascii_lower k in
       if shift \<and> 0x61 \<le> c \<and> c \<le> 0x7A then c - 0x61 + 0x41
       else if shift \<and> ascii_shift_punct c \<noteq> 0 then ascii_shift_punct c
       else c
     else 0)"

definition vi_emit :: "u32 \<Rightarrow> u16 \<Rightarrow> bool \<Rightarrow> 'a input_scheme \<Rightarrow> 'a input_scheme" where
  "vi_emit code keycode down =
    canboot_input_push (Some \<lparr> ev_type = (if down then CANBOOT_EV_KEY_DOWN else CANBOOT_EV_KEY_UP),
      ev_source = CANBOOT_EV_SRC_VIRTIO_INPUT, ev_code = code, ev_raw = ucast keycode,
      ev_value = (if down then 1 else 0), ev_x = 0, ev_y = 0 \<rparr>)"

text \<open>\<open>(int32_t)((int64_t)raw * (extent - 1) / 32767)\<close>; C division truncates.\<close>

definition scale_abs :: "int \<Rightarrow> int \<Rightarrow> int" where
  "scale_abs raw extent =
    (if 0 < extent then let n = raw * (extent - 1) in s32 (if n < 0 then - ((- n) div 32767) else n div 32767) else raw)"

definition handle_event :: "display \<Rightarrow> virtio_input_event \<Rightarrow> virtio_input \<Rightarrow> virtio_input" where
  "handle_event d e s =
    (let v = sint (vie_value e) in
     if vie_type e = 0 then s
     else if vie_type e = 2 then
       if vie_code e = 0 then canboot_input_mouse_move_rel d v 0 s
       else if vie_code e = 1 then canboot_input_mouse_move_rel d 0 v s
       else if vie_code e = 8 then canboot_input_mouse_wheel v s
       else s
     else if vie_type e = 3 then
       if vie_code e \<noteq> 0 \<and> vie_code e \<noteq> 1 then s
       else
         let s = (if vie_code e = 0 then s\<lparr> vi_rawx := v \<rparr> else s\<lparr> vi_rawy := v \<rparr>) in
         canboot_input_mouse_move_abs d (scale_abs (vi_rawx s) (hal_display_width d))
           (scale_abs (vi_rawy s) (hal_display_height d)) s
     else if vie_type e \<noteq> 1 then s
     else
       let down = (vie_value e \<noteq> 0) in
       if vie_code e = 0x110 then canboot_input_mouse_button CANBOOT_MOUSE_LEFT down s
       else if vie_code e = 0x111 then canboot_input_mouse_button CANBOOT_MOUSE_RIGHT down s
       else if vie_code e = 0x112 then canboot_input_mouse_button CANBOOT_MOUSE_MIDDLE down s
       else
         let s = (if vie_code e = 42 \<or> vie_code e = 54 then s\<lparr> vi_shift := down \<rparr> else s);
             code = translate (vi_shift s) (vie_code e) in
         if code = 0 then s else vi_emit code (vie_code e) down s)"

end
