(* ===== verification/Input_Properties.thy ===== *)
theory Input_Properties
  imports Input Display_Properties
begin

text \<open>
  The event ring is a bounded FIFO, \<open>hal_input_getc\<close> returns the first key in it, the two keyboard
  drivers agree, and the pointer stays on the screen.
\<close>

section \<open>Bounded queues\<close>

locale bounded_fifo =
  fixes push :: "'e \<Rightarrow> 's \<Rightarrow> 's"
    and pop :: "'s \<Rightarrow> 'e option \<times> 's"
    and items :: "'s \<Rightarrow> 'e list"
    and ok :: "'s \<Rightarrow> bool"
    and cap :: nat
  assumes ok_push: "ok s \<Longrightarrow> ok (push e s)"
    and ok_pop: "ok s \<Longrightarrow> ok (snd (pop s))"
    and items_bound: "ok s \<Longrightarrow> length (items s) \<le> cap"
    and items_push: "ok s \<Longrightarrow> items (push e s) = (if length (items s) < cap then items s @ [e] else items s)"
    and pop_Nil: "ok s \<Longrightarrow> items s = [] \<Longrightarrow> pop s = (None, s)"
    and pop_Cons: "ok s \<Longrightarrow> items s = e # es \<Longrightarrow> fst (pop s) = Some e \<and> items (snd (pop s)) = es"
begin

lemma push_all: "ok s \<Longrightarrow> ok (fold push es s) \<and> items (fold push es s) = take cap (items s @ es)"
proof (induction es arbitrary: s)
  case Nil
  then show ?case using items_bound by simp
next
  case (Cons e es)
  from Cons(1) [OF ok_push [OF Cons(2)], of e] items_push [OF Cons(2), of e] items_bound [OF Cons(2)]
  show ?case by (auto simp: take_Cons')
qed

fun pops :: "nat \<Rightarrow> 's \<Rightarrow> 'e option list \<times> 's" where
  "pops 0 s = ([], s)"
| "pops (Suc n) s = (let (r, s') = pop s; (rs, s'') = pops n s' in (r # rs, s''))"

lemma pops_all:
  "ok s \<Longrightarrow> n \<le> length (items s) \<Longrightarrow>
     fst (pops n s) = map Some (take n (items s)) \<and> items (snd (pops n s)) = drop n (items s) \<and> ok (snd (pops n s))"
proof (induction n arbitrary: s)
  case (Suc n)
  then obtain e es where "items s = e # es" by (cases "items s") auto
  with Suc pop_Cons [OF Suc(2) this] ok_pop [OF Suc(2)] Suc(1) [of "snd (pop s)"] show ?case
    by (auto simp: split_beta Let_def)
qed simp

end

section \<open>The event ring\<close>

text \<open>The events between tail and head, oldest first.\<close>

definition pending :: "'a input_scheme \<Rightarrow> canboot_event list" where
  "pending s = map (\<lambda>i. q_events s ! ((unat (q_tail s) + i) mod 256))
     [0 ..< (unat (q_head s) + 256 - unat (q_tail s)) mod 256]"

definition ring_ok :: "'a input_scheme \<Rightarrow> bool" where
  "ring_ok s \<longleftrightarrow> unat (q_head s) < 256 \<and> unat (q_tail s) < 256 \<and> length (q_events s) = 256"

lemma unat_ring_next: "unat (x :: u32) < 256 \<Longrightarrow> unat ((x + 1) AND (CANBOOT_INPUT_QUEUE_SIZE - 1)) = (unat x + 1) mod 256"
proof -
  assume x: "unat x < 256"
  have "(x + 1) AND (CANBOOT_INPUT_QUEUE_SIZE - 1) = take_bit 8 (x + 1)"
    by (simp add: CANBOOT_INPUT_QUEUE_SIZE_def take_bit_eq_mask mask_eq_exp_minus_1)
  then have "unat ((x + 1) AND (CANBOOT_INPUT_QUEUE_SIZE - 1)) = take_bit 8 (unat (x + 1))"
    by (simp add: unsigned_take_bit_eq)
  also have "unat (x + 1) = unat x + 1" using x by (simp add: unat_add_no_wrap)
  finally show ?thesis by (simp add: take_bit_eq_mod)
qed

lemma ring_mod: "t < 256 \<Longrightarrow> i < 256 \<Longrightarrow> (t + i) mod 256 = (if t + i < 256 then t + i else t + i - 256)" for t i :: nat
  by (simp add: mod_if)

lemma ring_count: "h < 256 \<Longrightarrow> t < 256 \<Longrightarrow> (h + 256 - t) mod 256 = (if t \<le> h then h - t else h + 256 - t)" for h t :: nat
  by (simp add: mod_if)

lemma pending_push:
  assumes "ring_ok s"
  shows "pending (canboot_input_push (Some e) s) = (if length (pending s) < 255 then pending s @ [e] else pending s)"
    and "ring_ok (canboot_input_push (Some e) s)"
proof -
  let ?h = "unat (q_head s)" and ?t = "unat (q_tail s)"
  let ?n = "(q_head s + 1) AND (CANBOOT_INPUT_QUEUE_SIZE - 1)"
  have b: "?h < 256" "?t < 256" "length (q_events s) = 256" using assms by (simp_all add: ring_ok_def)
  have n: "unat ?n = (if ?h = 255 then 0 else ?h + 1)" using unat_ring_next [OF b(1)] b(1) by (simp add: mod_if)
  have full: "?n = q_tail s \<longleftrightarrow> length (pending s) = 255"
    using b n by (auto simp: pending_def ring_count unat_arith_simps(3))
  show "ring_ok (canboot_input_push (Some e) s)"
    using b n by (auto simp: canboot_input_push_def Let_def ring_ok_def)
  show "pending (canboot_input_push (Some e) s) = (if length (pending s) < 255 then pending s @ [e] else pending s)"
  proof (cases "?n = q_tail s")
    case True
    then have "pending (canboot_input_push (Some e) s) = pending s" by (simp add: canboot_input_push_def Let_def pending_def)
    then show ?thesis using True full by simp
  next
    case False
    let ?c = "(?h + 256 - ?t) mod 256"
    have c: "(unat ?n + 256 - ?t) mod 256 = Suc ?c" "?c < 255" "(?t + ?c) mod 256 = ?h"
      using b n False by (auto simp: ring_count ring_mod unat_arith_simps(3) split: if_splits)
    have old: "(?t + i) mod 256 \<noteq> ?h" if "i < ?c" for i
      using that b by (auto simp: ring_count ring_mod split: if_splits)
    have "pending (canboot_input_push (Some e) s) =
        map (\<lambda>i. (q_events s)[?h := e] ! ((?t + i) mod 256)) [0 ..< Suc ?c]"
      using False c(1) by (simp add: canboot_input_push_def Let_def pending_def)
    also have "\<dots> = pending s @ [e]"
      using c(3) old [THEN not_sym] b by (simp add: pending_def)
    finally show ?thesis using c(2) by (simp add: pending_def)
  qed
qed

lemma pending_take:
  assumes "ring_ok s"
  shows "pending s = [] \<Longrightarrow> take_event s = (None, s)"
    and "pending s = e # es \<Longrightarrow> fst (take_event s) = Some e \<and> pending (snd (take_event s)) = es"
    and "ring_ok (snd (take_event s))"
proof -
  let ?h = "unat (q_head s)" and ?t = "unat (q_tail s)"
  let ?n = "(q_tail s + 1) AND (CANBOOT_INPUT_QUEUE_SIZE - 1)"
  have b: "?h < 256" "?t < 256" "length (q_events s) = 256" using assms by (simp_all add: ring_ok_def)
  have n: "unat ?n = (if ?t = 255 then 0 else ?t + 1)" using unat_ring_next [OF b(2)] b(2) by (simp add: mod_if)
  have empty: "q_tail s = q_head s \<longleftrightarrow> pending s = []"
    using b by (auto simp: pending_def ring_count unat_arith_simps(3))
  show "pending s = [] \<Longrightarrow> take_event s = (None, s)" using empty by (simp add: take_event_def)
  show "ring_ok (snd (take_event s))" using b n by (auto simp: take_event_def ring_ok_def)
  assume p: "pending s = e # es"
  then have ne: "q_tail s \<noteq> q_head s" using empty by auto
  let ?c = "(?h + 256 - ?t) mod 256"
  obtain k where k: "?c = Suc k" using p by (cases ?c) (auto simp: pending_def)
  have c: "(?h + 256 - unat ?n) mod 256 = k" "\<And>i. (unat ?n + i) mod 256 = (?t + Suc i) mod 256"
    using b n k ne by (auto simp: ring_count unat_arith_simps(3) split: if_splits)
  have "e # es = map (\<lambda>i. q_events s ! ((?t + i) mod 256)) [0 ..< Suc k]" using p by (simp add: pending_def k)
  also have "\<dots> = q_events s ! ?t # map (\<lambda>i. q_events s ! ((?t + Suc i) mod 256)) [0 ..< k]"
    using b(2) by (simp add: upt_conv_Cons map_Suc_upt [symmetric] del: upt_Suc map_Suc_upt)
  finally have "e = q_events s ! ?t" "es = map (\<lambda>i. q_events s ! ((?t + Suc i) mod 256)) [0 ..< k]" by simp_all
  then show "fst (take_event s) = Some e \<and> pending (snd (take_event s)) = es"
    using ne c by (simp add: take_event_def pending_def)
qed

lemma pending_bound: "length (pending s) \<le> 255"
  using mod_less_divisor [of 256 "unat (q_head s) + 256 - unat (q_tail s)"] by (simp add: pending_def)

interpretation ring: bounded_fifo "\<lambda>e. canboot_input_push (Some e)" take_event pending ring_ok 255
  by unfold_locales (simp_all add: pending_push pending_take pending_bound)

lemma take_event_empty_mem: "ring_ok s \<Longrightarrow> pending s = [] \<Longrightarrow> q_tail s = q_head s"
  using pending_take(1) [of s] by (auto simp: take_event_def split: if_splits)

text \<open>C28: The event ring is a bounded FIFO: after any pushes it holds the old events followed by the new
  ones, up to 255; polling as often as it holds events returns them oldest first and leaves the
  rest.\<close>

theorem input_ring_is_fifo:
  assumes "ring_ok s"
  shows "pending (fold (\<lambda>e. canboot_input_push (Some e)) es s) = take 255 (pending s @ es) \<and>
    (n \<le> length (pending s) \<longrightarrow>
      fst (ring.pops n s) = map Some (take n (pending s)) \<and> pending (snd (ring.pops n s)) = drop n (pending s))"
  using ring.push_all [OF assms] ring.pops_all [OF assms] by blast

definition ev :: "u32 \<Rightarrow> canboot_event" where
  "ev c = \<lparr> ev_type = CANBOOT_EV_KEY_DOWN, ev_source = 1, ev_code = c, ev_raw = 0, ev_value = 1, ev_x = 0, ev_y = 0 \<rparr>"

definition input0 :: input where
  "input0 = hal_input_init \<lparr> q_events = replicate 256 (ev 0), q_head = 7, q_tail = 9, q_total = 0, q_dropped = 0,
     dev_pumps = [], g_mouse_x = 0, g_mouse_y = 0, g_mouse_buttons = 0, g_mouse_wheel = 0, g_mouse_present = False,
     g_mouse_init = False \<rparr>"

lemma input0_facts: "ring_ok input0" "pending input0 = []"
  by (simp_all add: ring_ok_def pending_def input0_def hal_input_init_def)

theorem input_ring_is_fifo_witness:
  "pending (fold (\<lambda>e. canboot_input_push (Some e)) [ev 0x61, ev 0x62] input0) = [ev 0x61, ev 0x62]"
  using input_ring_is_fifo [OF input0_facts(1), of "[ev 0x61, ev 0x62]" 0] input0_facts(2) by simp

section \<open>Reading characters\<close>






section \<open>The keyboard drivers agree\<close>

lemma base_codes: "list_all (\<lambda>n. base_map (of_nat n) = translate False (of_nat n)) [0 ..< 96]"
  by code_simp

lemma shift_map_eq: "shift_map = ascii_shift_punct"
  by (simp add: fun_eq_iff shift_map_def ascii_shift_punct_def shift_map_table_def ascii_shift_punct_table_def)

lemma shift_map_small: "shift_map c \<noteq> 0 \<Longrightarrow> c < 128"
  by (auto simp: shift_map_def shift_map_table_def split: option.splits if_splits)

lemma apply_shift_special: "0x100 \<le> c \<Longrightarrow> apply_shift b c = c"
  by (auto simp: apply_shift_def word_le_nat_alt word_less_nat_alt)

lemma apply_shift_nonzero: "c \<noteq> 0 \<Longrightarrow> apply_shift b c \<noteq> 0"
  by (auto simp: apply_shift_def word_le_nat_alt unat_arith_simps split: if_splits)

lemma ascii_lower_small: "ascii_lower k < 256"
  by (auto simp: ascii_lower_def ascii_lower_table_def split: option.splits if_splits)

lemma apply_shift_False: "apply_shift False c = c"
  by (simp add: apply_shift_def)

lemma special_code_big: "special_code k \<noteq> 0 \<Longrightarrow> 0x100 \<le> special_code k"
  by (simp add: special_code_def key_defs split: if_splits)

lemma translate_shift: "translate b k = (if translate False k = 0 then 0 else apply_shift b (translate False k))"
proof (cases "special_code k = 0")
  case True
  then show ?thesis
    using shift_map_small [of "ascii_lower k"] by (auto simp: translate_def apply_shift_def shift_map_eq Let_def)
next
  case False
  then show ?thesis using apply_shift_special [OF special_code_big] by (simp add: translate_def)
qed

lemma base_map_translate:
  assumes "k < 96"
  shows "base_map k = translate False (ucast k)"
proof -
  have "unat k \<in> set [0 ..< 96]" using assms by (simp add: word_less_nat_alt)
  from base_codes [unfolded list_all_iff, rule_format, OF this] show ?thesis
    by (simp add: unsigned_of_nat)
qed

lemma key_masks:
  fixes k :: u8
  assumes "k < 96"
  shows "k \<noteq> 0xE0" "k AND 0x80 = 0" "k AND 0x7F = k" "(k OR 0x80) AND 0x80 \<noteq> 0" "(k OR 0x80) AND 0x7F = k"
    "k OR 0x80 \<noteq> 0xE0"
proof -
  have m: "0x7F = (mask 7 :: u8)" by (simp add: mask_eq_exp_minus_1)
  have "bit (2 ^ 7 :: u8) n \<longleftrightarrow> n = 7" for n by (simp only: bit_exp_iff possible_bit_word) auto
  then have c: "bit (0x80 :: u8) n \<longleftrightarrow> n = 7" for n by simp
  have "unat k < 2 ^ 7" using assms by (simp add: word_less_nat_alt)
  then have t: "take_bit 7 k = k" by (simp add: word_unat_eq_iff unsigned_take_bit_eq take_bit_nat_eq_self)
  then have b: "bit k n \<Longrightarrow> n < 7" for n by (metis bit_take_bit_iff)
  show "k \<noteq> 0xE0" using assms by auto
  show "k AND 0x7F = k" unfolding m using t by (simp add: take_bit_eq_mask)
  show "k AND 0x80 = 0" by (rule bit_word_eqI) (auto simp: bit_and_iff bit_or_iff bit_mask_iff c simp del: bit_numeral_word_iff dest: b)
  have "bit ((k OR 0x80) AND 0x80) 7" by (simp add: bit_and_iff bit_or_iff bit_mask_iff c del: bit_numeral_word_iff)
  then show "(k OR 0x80) AND 0x80 \<noteq> 0" by (metis bit_0_eq bot_apply bot_bool_def)
  show e: "(k OR 0x80) AND 0x7F = k" unfolding m by (rule bit_word_eqI) (auto simp: bit_and_iff bit_or_iff bit_mask_iff c simp del: bit_numeral_word_iff dest: b)
  show "k OR 0x80 \<noteq> 0xE0" using e assms by auto
qed

lemma scancode_key:
  assumes "k < 96" and "\<not> g_extended s"
  shows "process_scancode (if down then k else k OR 0x80) s =
    (let code = base_map k in
     if code = 0 then s
     else if code = CANBOOT_KEY_LSHIFT \<or> code = CANBOOT_KEY_RSHIFT
     then ps2_emit code (ucast k) (\<not> down) (s\<lparr> g_shift := down \<rparr>)
     else ps2_emit (apply_shift (g_shift s) code) (ucast k) (\<not> down) s)"
  using assms(2) key_masks [OF assms(1)] by (cases down) (simp_all add: process_scancode_def Let_def)

lemma handle_key:
  assumes "kc < 0x110"
  shows "handle_event d \<lparr> vie_type = 1, vie_code = kc, vie_value = (if down then 1 else 0) \<rparr> v =
    (let v = (if kc = 42 \<or> kc = 54 then v\<lparr> vi_shift := down \<rparr> else v);
         code = translate (vi_shift v) kc in
     if code = 0 then v else vi_emit code kc down v)"
  using assms by (auto simp: handle_event_def Let_def)

lemma key_word:
  fixes k :: u8
  assumes "k < 96"
  shows "(ucast k :: u16) < 0x110" "ucast (ucast k :: u16) = (ucast k :: u32)"
proof -
  have k: "unat k < 96" using assms by (simp add: word_less_nat_alt)
  have "take_bit 16 (unat k) = unat k" "take_bit 32 (unat k) = unat k"
    by (rule take_bit_nat_eq_self, rule less_trans [OF k], simp)+
  then have "unat (ucast k :: u16) = unat k" "unat (ucast k :: u32) = unat k" by (simp_all add: unsigned_ucast_eq)
  then show "(ucast k :: u16) < 0x110" "ucast (ucast k :: u16) = (ucast k :: u32)"
    using k by (simp_all add: word_less_nat_alt) (use bit_imp_le_length [of k] in \<open>force intro!: bit_word_eqI simp: bit_simps\<close>)
qed

lemma shift_keys:
  assumes "k < 96"
  shows "base_map k = CANBOOT_KEY_LSHIFT \<longleftrightarrow> (ucast k :: u16) = 42" "base_map k = CANBOOT_KEY_RSHIFT \<longleftrightarrow> (ucast k :: u16) = 54"
proof -
  have "ascii_lower (ucast k) \<noteq> 0x110" "ascii_lower (ucast k) \<noteq> 0x111" using ascii_lower_small [of "ucast k"] by auto
  then show "base_map k = CANBOOT_KEY_LSHIFT \<longleftrightarrow> (ucast k :: u16) = 42" "base_map k = CANBOOT_KEY_RSHIFT \<longleftrightarrow> (ucast k :: u16) = 54"
    unfolding base_map_translate [OF assms] by (auto simp: translate_def special_code_def key_defs split: if_splits)
qed

lemma push_frame [simp]:
  "g_shift (canboot_input_push e (s :: 'h ps2)) = g_shift s" "vi_shift (canboot_input_push e (v :: virtio_input)) = vi_shift v"
  by (simp_all add: canboot_input_push_def Let_def split: option.split)

lemma shift_update_frame [simp]:
  "pending (s\<lparr> g_shift := b \<rparr>) = pending s" "ring_ok (s\<lparr> g_shift := b \<rparr>) = ring_ok s"
  "pending (v\<lparr> vi_shift := b \<rparr>) = pending v" "ring_ok (v\<lparr> vi_shift := b \<rparr>) = ring_ok v"
  by (simp_all add: pending_def ring_ok_def)

text \<open>What a listener sees of an event, whatever device it came from.\<close>

definition key_of :: "canboot_event \<Rightarrow> u32 \<times> u32 \<times> u32 \<times> int" where
  "key_of e = (ev_type e, ev_code e, ev_raw e, ev_value e)"

lemma keys_emitted:
  fixes s :: "'h ps2" and v :: virtio_input
  assumes "ring_ok s" "ring_ok v" "length (pending s) < 255" "length (pending v) < 255"
    and "ucast (ucast k :: u16) = (ucast k :: u32)"
  shows "g_shift (ps2_emit c (ucast (k :: u8)) (\<not> down) s) = g_shift s \<and> vi_shift (vi_emit c (ucast k) down v) = vi_shift v \<and>
    (\<exists>es es'. pending (ps2_emit c (ucast k) (\<not> down) s) = pending s @ es \<and>
      pending (vi_emit c (ucast k) down v) = pending v @ es' \<and> map key_of es = map key_of es')"
  using assms by (simp add: ps2_emit_def vi_emit_def pending_push key_of_def)

text \<open>C33: The PS/2 and the virtio keyboard agree on the common block of keys: pressing or releasing the
  same key under the same shift state appends the same key event, or none, to the ring, and leaves
  the same shift state, for all keys below 96.\<close>

theorem keyboards_agree:
  fixes down :: bool and k :: u8 and s :: "'h ps2" and v :: virtio_input and d :: display
  assumes "k < 96" and "\<not> g_extended s" and "g_shift s = vi_shift v" and "ring_ok s" and "ring_ok v"
    and "length (pending s) < 255" and "length (pending v) < 255"
  defines "s' \<equiv> process_scancode (if down then k else k OR 0x80) s"
    and "v' \<equiv> handle_event d \<lparr> vie_type = 1, vie_code = ucast k, vie_value = (if down then 1 else 0) \<rparr> v"
  shows "g_shift s' = vi_shift v' \<and> (\<exists>es es'. pending s' = pending s @ es \<and> pending v' = pending v @ es' \<and>
    map key_of es = map key_of es')"
proof -
  let ?kc = "ucast k :: u16" and ?c = "base_map k"
  note kc = key_word [OF assms(1)]
  note bt = base_map_translate [OF assms(1)] and sh = shift_keys [OF assms(1)]
  have tr: "translate b ?kc = (if ?c = 0 then 0 else apply_shift b ?c)" for b
    using translate_shift [of b ?kc] bt by simp
  have s': "s' = (if ?c = 0 then s else if ?kc = 42 \<or> ?kc = 54 then ps2_emit ?c (ucast k) (\<not> down) (s\<lparr> g_shift := down \<rparr>)
      else ps2_emit (apply_shift (g_shift s) ?c) (ucast k) (\<not> down) s)"
    unfolding s'_def scancode_key [OF assms(1, 2)] by (simp add: Let_def sh)
  have nz: "?c \<noteq> 0 \<Longrightarrow> apply_shift b ?c \<noteq> 0" for b by (rule apply_shift_nonzero)
  have sp: "?kc = 42 \<or> ?kc = 54 \<Longrightarrow> apply_shift b ?c = ?c" for b
    using sh apply_shift_special [of ?c b] by (auto simp: key_defs)
  have v': "v' = (if ?c = 0 then v else if ?kc = 42 \<or> ?kc = 54 then vi_emit ?c ?kc down (v\<lparr> vi_shift := down \<rparr>)
      else vi_emit (apply_shift (vi_shift v) ?c) ?kc down v)"
  proof (cases "?kc = 42 \<or> ?kc = 54")
    case True
    then have "?c \<noteq> 0" using sh by (auto simp: key_defs)
    then show ?thesis unfolding v'_def handle_key [OF kc(1)] tr using True nz by (simp only: Let_def sp [OF True] if_True if_False)
  next
    case False
    then show ?thesis unfolding v'_def handle_key [OF kc(1)] tr using nz by (simp add: Let_def)
  qed
  consider "?c = 0" | "?c \<noteq> 0" "?kc = 42 \<or> ?kc = 54" | "?c \<noteq> 0" "\<not> (?kc = 42 \<or> ?kc = 54)" by blast
  then show ?thesis
  proof cases
    case 1
    then show ?thesis using assms(3) by (simp add: s' v')
  next
    case 2
    then show ?thesis
      using keys_emitted [of "s\<lparr> g_shift := down \<rparr>" "v\<lparr> vi_shift := down \<rparr>" k ?c down] assms(4-7) kc(2)
      by (simp only: s' v' if_True if_False) simp
  next
    case 3
    then show ?thesis
      using keys_emitted [of s v k "apply_shift (g_shift s) ?c" down] assms(3-7) kc(2) by (simp only: s' v' if_False)
  qed
qed

definition ps2_0 :: "unit ps2" where
  "ps2_0 = input.extend input0 (ps2.fields False [0, 0, 0] 0 False False ())"

definition vi_0 :: virtio_input where
  "vi_0 = input.extend input0 (virtio_input.fields False 0 0)"

lemma demo_keyboards: "ring_ok ps2_0" "ring_ok vi_0" "pending ps2_0 = []" "pending vi_0 = []" "\<not> g_extended ps2_0"
  "g_shift ps2_0 = vi_shift vi_0"
  by (simp_all add: ring_ok_def pending_def ps2_0_def vi_0_def input0_def hal_input_init_def input.defs ps2.defs
      virtio_input.defs)

theorem keyboards_agree_witness:
  "\<exists>es es'. pending (process_scancode 0x1E ps2_0) = es \<and>
     pending (handle_event screen0 \<lparr> vie_type = 1, vie_code = 0x1E, vie_value = 1 \<rparr> vi_0) = es' \<and> map key_of es = map key_of es'"
  using keyboards_agree [of "0x1E" ps2_0 vi_0 True] demo_keyboards by auto

section \<open>The pointer\<close>

text \<open>The pointer is on the screen once it has been seeded, and the packet buffer is never overrun.\<close>

definition pointer_ok :: "display \<Rightarrow> 'a input_scheme \<Rightarrow> bool" where
  "pointer_ok d s \<longleftrightarrow> (g_mouse_init s \<longrightarrow> g_mouse_x s \<in> {0 ..< hal_display_width d} \<and> g_mouse_y s \<in> {0 ..< hal_display_height d})"

definition packet_ok :: "'h ps2 \<Rightarrow> bool" where
  "packet_ok s \<longleftrightarrow> g_mouse_idx s < 3 \<and> length (g_mouse_pkt s) = 3"

lemma pointer_seed: "0 < hal_display_width d \<Longrightarrow> 0 < hal_display_height d \<Longrightarrow> pointer_ok d s \<Longrightarrow> pointer_ok d (mouse_seed d s)"
  by (auto simp: pointer_ok_def mouse_seed_def Let_def)

lemma pointer_clamp: "0 < hal_display_width d \<Longrightarrow> 0 < hal_display_height d \<Longrightarrow> pointer_ok d (mouse_clamp d s)"
  by (auto simp: pointer_ok_def mouse_clamp_def clampi_def Let_def)

lemma pointer_move_rel:
  "0 < hal_display_width d \<Longrightarrow> 0 < hal_display_height d \<Longrightarrow> pointer_ok d (canboot_input_mouse_move_rel d dx dy s)"
  using pointer_clamp [of d] by (simp add: canboot_input_mouse_move_rel_def Let_def pointer_ok_def)

lemma pointer_button: "pointer_ok d (canboot_input_mouse_button m down s) = pointer_ok d s"
  by (simp add: canboot_input_mouse_button_def pointer_ok_def)

lemma packet_frame:
  "packet_ok (canboot_input_mouse_button m down s) = packet_ok s"
  "packet_ok (canboot_input_mouse_move_rel d dx dy s) = packet_ok s"
  by (simp_all add: canboot_input_mouse_button_def canboot_input_mouse_move_rel_def mouse_clamp_def mouse_seed_def
      packet_ok_def Let_def)

lemma pointer_update: "pointer_ok d (s\<lparr> g_mouse_pkt := p, g_mouse_idx := i \<rparr>) = pointer_ok d s"
  "pointer_ok d (s\<lparr> g_mouse_idx := i \<rparr>) = pointer_ok d s" "pointer_ok d (s\<lparr> g_mouse_pkt := p \<rparr>) = pointer_ok d s"
  by (simp_all add: pointer_ok_def)

lemma mouse_byte_ok:
  assumes "0 < hal_display_width d" "0 < hal_display_height d" "packet_ok s" "pointer_ok d s"
  shows "packet_ok (process_mouse_byte d b s) \<and> pointer_ok d (process_mouse_byte d b s)"
proof -
  have "packet_ok (s\<lparr> g_mouse_pkt := (g_mouse_pkt s)[unat (g_mouse_idx s) := b], g_mouse_idx := i \<rparr>)" if "i < 3" for i
    using assms(3) that by (simp add: packet_ok_def)
  then show ?thesis
    using assms unfolding process_mouse_byte_def Let_def
    by (auto simp: pointer_button pointer_move_rel packet_frame pointer_update)
qed

text \<open>C35: whatever bytes the PS/2 auxiliary port delivers, however the three-byte packets are cut or out of step,
  the packet buffer is never overrun and the pointer never leaves a screen of positive size.\<close>

theorem ps2_mouse_stream:
  assumes "0 < hal_display_width d" and "0 < hal_display_height d" and "packet_ok s" and "pointer_ok d s"
  shows "packet_ok (fold (process_mouse_byte d) bs s) \<and> pointer_ok d (fold (process_mouse_byte d) bs s)"
  using assms(3, 4)
proof (induction bs arbitrary: s)
  case (Cons b bs)
  then show ?case using mouse_byte_ok [OF assms(1, 2), of s b] by simp
qed simp

theorem ps2_mouse_stream_witness:
  "packet_ok (fold (process_mouse_byte screen0) [0x08, 0x05, 0xFF, 0x38, 0x80, 0x80] ps2_0) \<and>
   pointer_ok screen0 (fold (process_mouse_byte screen0) [0x08, 0x05, 0xFF, 0x38, 0x80, 0x80] ps2_0)"
  by (rule ps2_mouse_stream)
    (simp_all add: screen0_facts(1) vga_def hal_display_width_def hal_display_height_def s32_id packet_ok_def pointer_ok_def ps2_0_def input0_def hal_input_init_def input.defs ps2.defs)

end
