(* ===== verification/Vfs.thy ===== *)
theory Vfs
  imports Fat32_Path
begin

text \<open>
  The POSIX directory and path surface of \<open>fs/vfs.c\<close>: detection and lazy mounting of the primary
  volume, resolution of a path against the working directory, dispatch to the FAT32 path engine or
  to the ext4 and NTFS wrappers, and the directory streams.

  A path is the list of its bytes before the terminating zero. The wrappers around lwext4 and
  libntfs-3g and the disk drivers' probing are fields of the record \<open>platform\<close>. Writing past the end
  of a buffer does not return. \<open>malloc\<close> succeeds or not as an argument says.
\<close>

section \<open>State\<close>

datatype vfs_type = VFS_NONE | VFS_FAT32 | VFS_EXT4 | VFS_NTFS

datatype errno = EIO | ENOENT | EINVAL | ERANGE | EFAULT | ENOSYS | ENOMEM

record 's glue =
  gl_open :: "'s canboot_disk \<Rightarrow> u64 \<Rightarrow> u64 \<Rightarrow> ('s, int) prog"
  gl_close :: "int \<Rightarrow> ('s, unit) prog"
  gl_mkdir :: "int \<Rightarrow> bytes \<Rightarrow> ('s, unit) prog"
  gl_rmdir :: "int \<Rightarrow> bytes \<Rightarrow> ('s, unit) prog"
  gl_delete :: "int \<Rightarrow> bytes \<Rightarrow> ('s, unit) prog"
  gl_rename :: "int \<Rightarrow> bytes \<Rightarrow> bytes \<Rightarrow> ('s, unit) prog"
  gl_list :: "int \<Rightarrow> bytes \<Rightarrow> nat \<Rightarrow> ('s, bytes) prog"

record 's platform =
  hal_disk_init :: "'s \<Rightarrow> 's disk_registry \<times> 's"
  ext4 :: "'s glue"
  ntfs3g :: "'s glue"

record 's vfs =
  registry :: "'s disk_registry"
  g_have :: bool
  g_type :: vfs_type
  g_disk :: "'s canboot_disk option"
  g_start_lba :: u64
  g_size_lba :: u64
  g_cwd :: bytes
  vfs_errno :: "errno option"
  hardware :: 's

text \<open>Code that only touches devices.\<close>

definition on_dev :: "('s, 'a) prog \<Rightarrow> ('s vfs, 'a) prog" where
  "on_dev m = (\<lambda>v. case m (hardware v) of None \<Rightarrow> None | Some (r, s) \<Rightarrow> Some (r, v\<lparr> hardware := s \<rparr>))"

text \<open>\<open>if (m != 0) { errno = e; return -1; }\<close>\<close>

definition fail_with :: "errno \<Rightarrow> ('s vfs, 'a) prog \<Rightarrow> ('s vfs, 'a) prog" where
  "fail_with e m = bnd (attempt m) (\<lambda>r. case r of Ok x \<Rightarrow> ret x
     | Err \<Rightarrow> bnd (modify (\<lambda>v. v\<lparr> vfs_errno := Some e \<rparr>)) (\<lambda>_. err))"

section \<open>The primary volume\<close>

text \<open>The static buffers hold one and two blocks of 512 bytes. A device with larger blocks overruns
  them; one with smaller blocks leaves bytes of an earlier call in them, which is not followed.\<close>

definition detect_at :: "'s canboot_disk \<Rightarrow> u64 \<Rightarrow> ('s, vfs_type) prog" where
  "detect_at d lba =
     bnd (attempt (dread d lba 1)) (\<lambda>r. case r of Err \<Rightarrow> ret VFS_NONE | Ok buf \<Rightarrow>
     if length buf \<noteq> 512 then no_return
     else if take 4 (drop 3 buf) = ascii ''NTFS'' then ret VFS_NTFS
     else if take 5 (drop 82 buf) = ascii ''FAT32'' then ret VFS_FAT32
     else bnd (attempt (dread d (lba + 2) 2)) (\<lambda>r. case r of Err \<Rightarrow> ret VFS_NONE | Ok sb \<Rightarrow>
       if length sb \<noteq> 1024 then no_return
       else if get_le16 sb 56 = 0xEF53 then ret VFS_EXT4 else ret VFS_NONE))"

text \<open>One pass over the registered disks; true when a volume was chosen.\<close>

primrec scan_disks :: "vfs_type list \<Rightarrow> 's canboot_disk list \<Rightarrow> ('s vfs, bool) prog" where
  "scan_disks wanted [] = ret False"
| "scan_disks wanted (d # ds) =
     (if dk_kind d = CANBOOT_DISK_KIND_CDROM \<or> \<not> writable d then scan_disks wanted ds
      else bnd (on_dev (detect_at d 0)) (\<lambda>t.
        if t \<in> set wanted then
          bnd (modify (\<lambda>v. v\<lparr> g_type := t, g_disk := Some d, g_start_lba := 0, g_size_lba := block_count d \<rparr>))
            (\<lambda>_. ret True)
        else scan_disks wanted ds))"

definition primary :: "'s platform \<Rightarrow> ('s vfs, unit) prog" where
  "primary pf =
     bnd (gets g_have) (\<lambda>have.
     if have then bnd (gets g_type) (\<lambda>t. if t \<noteq> VFS_NONE then ret () else err)
     else
     bnd (modify (\<lambda>v. v\<lparr> g_have := True, g_type := VFS_NONE \<rparr>)) (\<lambda>_.
     bnd (gets (\<lambda>v. hal_disk_count (registry v))) (\<lambda>n.
     bnd (if n = 0
          then modify (\<lambda>v. case hal_disk_init pf (hardware v) of (reg, s) \<Rightarrow> v\<lparr> registry := reg, hardware := s \<rparr>)
          else ret ()) (\<lambda>_.
     bnd (gets registry) (\<lambda>disks.
     bnd (scan_disks [VFS_FAT32] disks) (\<lambda>found.
     if found then ret ()
     else bnd (scan_disks [VFS_EXT4, VFS_NTFS] disks) (\<lambda>found.
     if found then ret () else err)))))))"

section \<open>Paths\<close>

text \<open>A component is cut after 31 bytes, and what is left of it starts another one.\<close>

definition norm_push :: "bytes \<Rightarrow> bytes list \<Rightarrow> bytes list" where
  "norm_push buf comps =
    (if buf = [0x2E] then comps
     else if buf = [0x2E, 0x2E] then butlast comps
     else if length comps < 24 then comps @ [buf]
     else comps)"

function norm_loop :: "bytes \<Rightarrow> bytes list \<Rightarrow> bytes list" where
  "norm_loop s comps = (case dropWhile (\<lambda>c. c = 0x2F) s of [] \<Rightarrow> comps
     | c # s \<Rightarrow>
         let buf = take 31 (takeWhile (\<lambda>c. c \<noteq> 0x2F) (c # s)) in
         norm_loop (drop (length buf) (c # s)) (norm_push buf comps))"
  by pat_completeness auto
termination
proof (relation "measure (\<lambda>(s, _). length s)")
  fix s q buf :: bytes and c and comps :: "bytes list"
  assume q: "dropWhile (\<lambda>c. c = 0x2F) s = c # q" and buf: "buf = take 31 (takeWhile (\<lambda>c. c \<noteq> 0x2F) (c # q))"
  from q have "c \<noteq> 0x2F" by (metis (mono_tags) hd_dropWhile list.distinct(1) list.sel(1))
  then have "0 < length buf" using buf by simp
  then have "length (drop (length buf) (c # q)) < length (c # q)" by simp
  also have "length (c # q) \<le> length s" using q length_dropWhile_le by metis
  finally show "((drop (length buf) (c # q), norm_push buf comps), (s, comps)) \<in> measure (\<lambda>(s, _). length s)" by simp
qed simp

fun join :: "bytes list \<Rightarrow> bytes" where
  "join [] = []"
| "join [c] = c"
| "join (c # cs) = c @ 0x2F # join cs"

text \<open>\<open>normalize\<close> works in place in a buffer of \<open>cap\<close> bytes.\<close>

definition normalize :: "nat \<Rightarrow> bytes \<Rightarrow> ('s, bytes) prog" where
  "normalize cap p =
    (let q = 0x2F # join (norm_loop p []) in if length q < cap then ret q else no_return)"

definition vfs_resolve :: "bytes option \<Rightarrow> nat \<Rightarrow> ('s vfs, bytes) prog" where
  "vfs_resolve path cap = (case path of None \<Rightarrow> ret []
    | Some p \<Rightarrow>
        if p \<noteq> [] \<and> hd p = 0x2F then normalize cap (take (cap - 1) p)
        else bnd (gets g_cwd) (\<lambda>cwd.
          if cap < length cwd + 1 + length p + 1 then ret []
          else normalize cap (cwd @ (if cwd = [] \<or> last cwd \<noteq> 0x2F then [0x2F] else []) @ p)))"

section \<open>Dispatch\<close>

text \<open>Open a volume through a wrapper, run one operation, close it, pass the result on.\<close>

definition with_volume :: "'s glue \<Rightarrow> 's canboot_disk \<Rightarrow> u64 \<Rightarrow> u64 \<Rightarrow> (int \<Rightarrow> ('s, 'a) prog) \<Rightarrow> ('s, 'a) prog" where
  "with_volume gl d off sz f =
     bnd (gl_open gl d off sz) (\<lambda>h.
     bnd (attempt (f h)) (\<lambda>r.
     bnd (attempt (gl_close gl h)) (\<lambda>_.
     case r of Ok x \<Rightarrow> ret x | Err \<Rightarrow> err)))"

definition vfs_dispatch ::
    "'s platform \<Rightarrow> ('s canboot_fat32 \<Rightarrow> ('s, 'a) prog) \<Rightarrow> (int \<Rightarrow> ('s, 'a) prog) \<Rightarrow> (int \<Rightarrow> ('s, 'a) prog) \<Rightarrow> ('s vfs, 'a) prog" where
  "vfs_dispatch pf fat_op ext4_op ntfs_op =
     bnd (primary pf) (\<lambda>_.
     bnd (gets g_type) (\<lambda>t.
     bnd (gets g_disk) (\<lambda>dp.
     bnd (gets g_start_lba) (\<lambda>off.
     bnd (gets g_size_lba) (\<lambda>sz.
     if t = VFS_FAT32 then on_dev (bnd (canboot_fat32_open dp) fat_op)
     else (case dp of None \<Rightarrow> no_return | Some d \<Rightarrow>
       if t = VFS_EXT4 then on_dev (with_volume (ext4 pf) d off sz ext4_op)
       else on_dev (with_volume (ntfs3g pf) d (off * ucast (block_size d)) (sz * ucast (block_size d)) ntfs_op)))))))"

definition vfs_mkdir :: "'s platform \<Rightarrow> bytes \<Rightarrow> ('s vfs, unit) prog" where
  "vfs_mkdir pf abspath = vfs_dispatch pf (\<lambda>fs. canboot_fat32_mkdir (Some fs) (Some abspath))
     (\<lambda>h. gl_mkdir (ext4 pf) h abspath) (\<lambda>h. gl_mkdir (ntfs3g pf) h abspath)"

definition vfs_rmdir :: "'s platform \<Rightarrow> bytes \<Rightarrow> ('s vfs, unit) prog" where
  "vfs_rmdir pf abspath = vfs_dispatch pf (\<lambda>fs. canboot_fat32_rmdir (Some fs) (Some abspath))
     (\<lambda>h. gl_rmdir (ext4 pf) h abspath) (\<lambda>h. gl_delete (ntfs3g pf) h abspath)"

definition vfs_unlink :: "'s platform \<Rightarrow> bytes \<Rightarrow> ('s vfs, unit) prog" where
  "vfs_unlink pf abspath = vfs_dispatch pf (\<lambda>fs. canboot_fat32_unlink_path (Some fs) (Some abspath))
     (\<lambda>h. gl_delete (ext4 pf) h abspath) (\<lambda>h. gl_delete (ntfs3g pf) h abspath)"

definition vfs_rename :: "'s platform \<Rightarrow> bytes \<Rightarrow> bytes \<Rightarrow> ('s vfs, unit) prog" where
  "vfs_rename pf oldp newp = vfs_dispatch pf (\<lambda>fs. canboot_fat32_rename (Some fs) (Some oldp) (Some newp))
     (\<lambda>h. gl_rename (ext4 pf) h oldp newp) (\<lambda>h. gl_rename (ntfs3g pf) h oldp newp)"

text \<open>The accumulator is what \<open>fat_cb\<close> has stored so far.\<close>

definition fat_cb :: "nat \<Rightarrow> bytes \<Rightarrow> u32 \<Rightarrow> bool \<Rightarrow> bytes \<Rightarrow> bool \<times> bytes" where
  "fat_cb cap name sz is_dir acc =
    (let n = cstr name in
     if cap \<le> length acc + length n + 2 then (False, acc)
     else (True, acc @ n @ (if is_dir then [0x2F] else []) @ [0x0A]))"

definition vfs_list :: "'s platform \<Rightarrow> bytes \<Rightarrow> nat \<Rightarrow> ('s vfs, bytes) prog" where
  "vfs_list pf abspath cap = vfs_dispatch pf
     (\<lambda>fs. bnd (canboot_fat32_list_path (Some fs) (Some abspath) (Some (fat_cb cap)) []) (\<lambda>(r, acc).
        case r of Err \<Rightarrow> err | Ok _ \<Rightarrow> ret acc))
     (\<lambda>h. gl_list (ext4 pf) h abspath cap) (\<lambda>h. gl_list (ntfs3g pf) h abspath cap)"

section \<open>The POSIX entry points\<close>

definition mkdir :: "'s platform \<Rightarrow> bytes option \<Rightarrow> ('s vfs, unit) prog" where
  "mkdir pf path = bnd (vfs_resolve path 256) (\<lambda>abs. fail_with EIO (vfs_mkdir pf abs))"

definition rmdir :: "'s platform \<Rightarrow> bytes option \<Rightarrow> ('s vfs, unit) prog" where
  "rmdir pf path = bnd (vfs_resolve path 256) (\<lambda>abs. fail_with EIO (vfs_rmdir pf abs))"

definition unlink :: "'s platform \<Rightarrow> bytes option \<Rightarrow> ('s vfs, unit) prog" where
  "unlink pf path = bnd (vfs_resolve path 256) (\<lambda>abs. fail_with ENOENT (vfs_unlink pf abs))"

definition rename :: "'s platform \<Rightarrow> bytes option \<Rightarrow> bytes option \<Rightarrow> ('s vfs, unit) prog" where
  "rename pf oldp newp = bnd (vfs_resolve oldp 256) (\<lambda>a. bnd (vfs_resolve newp 256) (\<lambda>b.
     fail_with EIO (vfs_rename pf a b)))"

definition chdir :: "'s platform \<Rightarrow> bytes option \<Rightarrow> ('s vfs, unit) prog" where
  "chdir pf path = bnd (vfs_resolve path 256) (\<lambda>abs.
     bnd (fail_with ENOENT (vfs_list pf abs 256)) (\<lambda>_.
     modify (\<lambda>v. v\<lparr> g_cwd := take 255 abs \<rparr>)))"

definition getcwd :: "bool \<Rightarrow> nat \<Rightarrow> ('s vfs, bytes) prog" where
  "getcwd has_buf sz =
    (if \<not> has_buf \<or> sz = 0 then fail_with EINVAL err
     else bnd (gets g_cwd) (\<lambda>cwd. if sz < length cwd + 1 then fail_with ERANGE err else ret cwd))"

record posix_stat =
  st_mode :: u32
  st_size :: u64

definition stat :: "'s platform \<Rightarrow> bytes option \<Rightarrow> bool \<Rightarrow> ('s vfs, posix_stat) prog" where
  "stat pf path has_st =
    (if \<not> has_st then fail_with EFAULT err
     else
     bnd (fail_with ENOSYS (primary pf)) (\<lambda>_.
     bnd (vfs_resolve path 256) (\<lambda>abs.
     bnd (attempt (vfs_list pf abs 256)) (\<lambda>r. case r of
       Ok _ \<Rightarrow> ret \<lparr> st_mode = 0x4000 OR 0x1ED, st_size = 0 \<rparr>
     | Err \<Rightarrow>
         bnd (gets g_type) (\<lambda>t.
         bnd (gets g_disk) (\<lambda>dp.
         if t = VFS_FAT32 then
           fail_with ENOENT (on_dev (bnd (canboot_fat32_open dp) (\<lambda>fs.
             bnd (canboot_fat32_read_path (Some fs) (Some abs) [0] 0) (\<lambda>(_, sz, _).
             ret \<lparr> st_mode = 0x8000 OR 0x1A4, st_size = ucast sz \<rparr>))))
         else fail_with ENOENT err))))))"

section \<open>Directory streams\<close>

definition VFS_DIR_MAX :: nat where "VFS_DIR_MAX = 128"

record dirstream =
  ds_entries :: "(bytes \<times> bool) list"
  ds_pos :: nat

function dir_loop :: "bytes \<Rightarrow> (bytes \<times> bool) list \<Rightarrow> (bytes \<times> bool) list" where
  "dir_loop listing acc =
    (if listing = [] \<or> VFS_DIR_MAX \<le> length acc then acc
     else
       let line = takeWhile (\<lambda>c. c \<noteq> 0x0A) listing;
           is_dir = (line \<noteq> [] \<and> last line = 0x2F);
           name = take 31 (if is_dir then butlast line else line) in
       dir_loop (drop (length line + 1) listing) (acc @ [(name, is_dir)]))"
  by pat_completeness auto
termination by (relation "measure (\<lambda>(l, _). length l)") auto

definition opendir :: "'s platform \<Rightarrow> bytes option \<Rightarrow> bool \<Rightarrow> ('s vfs, dirstream) prog" where
  "opendir pf name malloc_ok =
     bnd (fail_with ENOSYS (primary pf)) (\<lambda>_.
     bnd (vfs_resolve name 256) (\<lambda>abs.
     bnd (fail_with ENOENT (vfs_list pf abs 8192)) (\<lambda>listing.
     if \<not> malloc_ok then fail_with ENOMEM err
     else ret \<lparr> ds_entries = dir_loop listing [], ds_pos = 0 \<rparr>)))"

record dirent =
  d_ino :: int
  d_dir :: bool
  d_name :: bytes

definition readdir :: "dirstream option \<Rightarrow> (dirent \<times> dirstream) option" where
  "readdir dirp = (case dirp of None \<Rightarrow> None
    | Some d \<Rightarrow>
        if length (ds_entries d) \<le> ds_pos d then None
        else let p = ds_pos d; (name, is_dir) = ds_entries d ! p in
          Some (\<lparr> d_ino = int (p + 1), d_dir = is_dir, d_name = take 255 (cstr name) \<rparr>, d\<lparr> ds_pos := p + 1 \<rparr>))"

definition rewinddir :: "dirstream option \<Rightarrow> dirstream option" where
  "rewinddir dirp = map_option (ds_pos_update (\<lambda>_. 0)) dirp"

end
