(* ===== verification/Vfs_Properties.thy ===== *)
theory Vfs_Properties
  imports Vfs
begin

text \<open>
  Path resolution: what \<open>normalize\<close> computes, that its results are canonical, when it stays inside
  its buffer and when it does not; and that a directory stream gives back the entries of the listing
  it was made from.
\<close>

section \<open>Components\<close>

text \<open>The components of a path, of any length.\<close>

function segments :: "bytes \<Rightarrow> bytes list" where
  "segments p = (case dropWhile (\<lambda>c. c = 0x2F) p of [] \<Rightarrow> []
     | c # q \<Rightarrow> takeWhile (\<lambda>c. c \<noteq> 0x2F) (c # q) # segments (dropWhile (\<lambda>c. c \<noteq> 0x2F) (c # q)))"
  by pat_completeness auto
termination
proof (relation "measure length")
  fix p c q
  assume q: "dropWhile (\<lambda>c. c = (0x2F :: u8)) p = c # q"
  then have "c \<noteq> 0x2F" by (metis (mono_tags) hd_dropWhile list.distinct(1) list.sel(1))
  then have "length (dropWhile (\<lambda>c. c \<noteq> 0x2F) (c # q)) < length (c # q)"
    by (simp add: length_dropWhile_le le_imp_less_Suc)
  also have "length (c # q) \<le> length p" using q length_dropWhile_le by metis
  finally show "(dropWhile (\<lambda>c. c \<noteq> 0x2F) (c # q), p) \<in> measure length" by simp
qed simp

declare segments.simps [simp del] norm_loop.simps [simp del] dir_loop.simps [simp del]

text \<open>A dot stays, two dots go up, and the root is its own parent.\<close>

definition walk_up :: "bytes \<Rightarrow> bytes list \<Rightarrow> bytes list" where
  "walk_up c st = (if c = ascii ''.'' then st else if c = ascii ''..'' then butlast st else st @ [c])"

definition collapse :: "bytes list \<Rightarrow> bytes list" where
  "collapse cs = fold walk_up cs []"

definition comp_ok :: "bytes \<Rightarrow> bool" where
  "comp_ok c \<longleftrightarrow> c \<noteq> [] \<and> length c \<le> 31 \<and> 0x2F \<notin> set c \<and> c \<noteq> ascii ''.'' \<and> c \<noteq> ascii ''..''"

definition clean :: "bytes list \<Rightarrow> bool" where
  "clean cs \<longleftrightarrow> length cs \<le> 24 \<and> list_all comp_ok cs"

lemma ascii_dots: "ascii ''.'' = [0x2E]" "ascii ''..'' = [0x2E, 0x2E]"
  by (simp_all add: ascii_def)

lemma butlast_subset: "list_all P cs \<Longrightarrow> list_all P (butlast cs)"
  by (auto simp: list_all_iff dest: in_set_butlastD)

lemma norm_push_clean: "clean cs \<Longrightarrow> buf \<noteq> [] \<Longrightarrow> length buf \<le> 31 \<Longrightarrow> 0x2F \<notin> set buf \<Longrightarrow> clean (norm_push buf cs)"
  by (auto simp: norm_push_def clean_def comp_ok_def ascii_dots butlast_subset)

lemma slash_head: "dropWhile (\<lambda>c. c = (0x2F :: u8)) p = c # q \<Longrightarrow> c \<noteq> 0x2F"
  by (metis (mono_tags) hd_dropWhile list.distinct(1) list.sel(1))

lemma takeWhile_no_slash: "0x2F \<notin> set (take n (takeWhile (\<lambda>c. c \<noteq> (0x2F :: u8)) xs))"
  by (metis in_set_takeD set_takeWhileD)

lemma norm_loop_Nil: "dropWhile (\<lambda>c. c = 0x2F) p = [] \<Longrightarrow> norm_loop p acc = acc"
  by (subst norm_loop.simps) (simp only: list.case)

lemma norm_loop_Cons:
  "dropWhile (\<lambda>c. c = 0x2F) p = c # q \<Longrightarrow> buf = take 31 (takeWhile (\<lambda>c. c \<noteq> 0x2F) (c # q)) \<Longrightarrow>
     norm_loop p acc = norm_loop (drop (length buf) (c # q)) (norm_push buf acc)"
  by (subst norm_loop.simps) (simp only: list.case Let_def)

lemma segments_Nil: "dropWhile (\<lambda>c. c = 0x2F) p = [] \<Longrightarrow> segments p = []"
  by (subst segments.simps) (simp only: list.case)

lemma segments_Cons:
  "dropWhile (\<lambda>c. c = 0x2F) p = c # q \<Longrightarrow>
     segments p = takeWhile (\<lambda>c. c \<noteq> 0x2F) (c # q) # segments (dropWhile (\<lambda>c. c \<noteq> 0x2F) (c # q))"
  by (subst segments.simps) (simp only: list.case)

lemma norm_loop_clean: "clean cs \<Longrightarrow> clean (norm_loop p cs)"
proof (induction p cs rule: norm_loop.induct)
  case (1 p cs)
  show ?case
  proof (cases "dropWhile (\<lambda>c. c = (0x2F :: u8)) p")
    case Nil
    then show ?thesis using 1(2) by (simp only: norm_loop_Nil)
  next
    case (Cons c q)
    let ?b = "take 31 (takeWhile (\<lambda>c. c \<noteq> (0x2F :: u8)) (c # q))"
    have "clean (norm_push ?b cs)"
      using 1(2) slash_head [OF Cons] takeWhile_no_slash [of 31 "c # q"] by (intro norm_push_clean) auto
    from 1(1) [OF Cons refl this] show ?thesis by (simp only: norm_loop_Cons [OF Cons refl])
  qed
qed

lemma join_Cons: "cs \<noteq> [] \<Longrightarrow> join (c # cs) = c @ 0x2F # join cs"
  by (cases cs) simp_all

lemma slash_split:
  assumes "c \<noteq> []" and "0x2F \<notin> set c" and "r = [] \<or> (\<exists>r'. r = (0x2F :: u8) # r')"
  shows "dropWhile (\<lambda>c. c = 0x2F) (0x2F # c @ r) = c @ r" "takeWhile (\<lambda>c. c \<noteq> 0x2F) (c @ r) = c"
    "dropWhile (\<lambda>c. c \<noteq> 0x2F) (c @ r) = r" "dropWhile (\<lambda>c. c = 0x2F) (c @ r) = c @ r"
proof -
  show "dropWhile (\<lambda>c. c = 0x2F) (0x2F # c @ r) = c @ r" "dropWhile (\<lambda>c. c = 0x2F) (c @ r) = c @ r"
    using assms(1, 2) by (cases c; auto)+
  have "\<forall>x\<in>set c. x \<noteq> 0x2F" using assms(2) by blast
  then show "takeWhile (\<lambda>c. c \<noteq> 0x2F) (c @ r) = c" "dropWhile (\<lambda>c. c \<noteq> 0x2F) (c @ r) = r"
    using assms(3) by (auto simp: takeWhile_append2 dropWhile_append2)
qed

lemma norm_loop_join: "clean (acc @ cs) \<Longrightarrow> norm_loop (0x2F # join cs) acc = acc @ cs"
proof (induction cs arbitrary: acc)
  case Nil
  then show ?case by (simp add: norm_loop.simps [of "[0x2F]"])
next
  case (Cons c cs)
  let ?r = "if cs = [] then [] else 0x2F # join cs"
  have c: "c \<noteq> []" "length c \<le> 31" "0x2F \<notin> set c" "norm_push c acc = acc @ [c]"
    using Cons(2) by (auto simp: clean_def comp_ok_def norm_push_def ascii_dots)
  have j: "join (c # cs) = c @ ?r" by (simp add: join_Cons)
  note sp = slash_split [OF c(1, 3), of ?r]
  obtain x xs where cx: "c @ ?r = x # xs" using c(1) by (cases c) auto
  have tw: "take 31 (takeWhile (\<lambda>c. c \<noteq> 0x2F) (x # xs)) = c" unfolding cx [symmetric] using sp(2) c(2) by auto
  have "norm_loop (0x2F # join (c # cs)) acc = norm_loop ?r (acc @ [c])"
  proof -
    have "dropWhile (\<lambda>c. c = 0x2F) (0x2F # join (c # cs)) = x # xs" unfolding j cx [symmetric] by (rule sp(1)) simp
    then have "norm_loop (0x2F # join (c # cs)) acc = norm_loop (drop (length c) (x # xs)) (norm_push c acc)"
      using norm_loop_Cons [OF _ tw [symmetric]] by blast
    then show ?thesis unfolding cx [symmetric] c(4) by simp
  qed
  also have "\<dots> = acc @ c # cs"
    using Cons(1) [of "acc @ [c]"] Cons(2) by (simp add: norm_loop.simps [of "[]"])
  finally show ?case .
qed

lemma segments_join: "list_all comp_ok cs \<Longrightarrow> segments (0x2F # join cs) = cs"
proof (induction cs)
  case Nil
  then show ?case by (simp add: segments.simps)
next
  case (Cons c cs)
  let ?r = "if cs = [] then [] else 0x2F # join cs"
  have c: "c \<noteq> []" "0x2F \<notin> set c" using Cons(2) by (auto simp: comp_ok_def)
  have j: "join (c # cs) = c @ ?r" by (simp add: join_Cons)
  note sp = slash_split [OF c, of ?r]
  obtain x xs where cx: "c @ ?r = x # xs" using c(1) by (cases c) auto
  have "dropWhile (\<lambda>c. c = 0x2F) (0x2F # join (c # cs)) = x # xs" unfolding j cx [symmetric] by (rule sp(1)) simp
  then have "segments (0x2F # join (c # cs)) = takeWhile (\<lambda>c. c \<noteq> 0x2F) (x # xs) # segments (dropWhile (\<lambda>c. c \<noteq> 0x2F) (x # xs))"
    by (rule segments_Cons)
  also have "\<dots> = c # segments ?r" unfolding cx [symmetric] using sp(2, 3) by simp
  also have "segments ?r = cs" using Cons by (simp add: segments.simps [of "[]"])
  finally show ?case .
qed

lemma norm_loop_segments:
  "list_all (\<lambda>c. length c \<le> 31) (segments p) \<Longrightarrow> norm_loop p acc = fold norm_push (segments p) acc"
proof (induction p arbitrary: acc rule: segments.induct)
  case (1 p)
  show ?case
  proof (cases "dropWhile (\<lambda>c. c = (0x2F :: u8)) p")
    case Nil
    then show ?thesis by (simp only: norm_loop_Nil segments_Nil fold_simps)
  next
    case (Cons c q)
    let ?b = "takeWhile (\<lambda>c. c \<noteq> (0x2F :: u8)) (c # q)"
    have s: "segments p = ?b # segments (dropWhile (\<lambda>c. c \<noteq> 0x2F) (c # q))"
      by (rule segments_Cons [OF Cons])
    have "take 31 ?b = ?b" using 1(2) unfolding s by simp
    moreover have "drop (length ?b) (c # q) = dropWhile (\<lambda>c. c \<noteq> 0x2F) (c # q)"
      by (simp only: dropWhile_eq_drop)
    ultimately have "norm_loop p acc = norm_loop (dropWhile (\<lambda>c. c \<noteq> 0x2F) (c # q)) (norm_push ?b acc)"
      using norm_loop_Cons [OF Cons refl, of acc] by (simp only:)
    also have "\<dots> = fold norm_push (segments p) acc"
      unfolding s using 1(1) [OF Cons, of "norm_push ?b acc"] 1(2) unfolding s by simp
    finally show ?thesis .
  qed
qed

lemma norm_push_walk_up: "length st < 24 \<Longrightarrow> norm_push c st = walk_up c st"
  by (simp add: norm_push_def walk_up_def ascii_dots)

lemma walk_up_length: "length (walk_up c st) \<le> Suc (length st)"
  by (auto simp: walk_up_def)

lemma fold_norm_push: "length st + length cs \<le> 24 \<Longrightarrow> fold norm_push cs st = fold walk_up cs st"
proof (induction cs arbitrary: st)
  case (Cons c cs)
  then show ?case using walk_up_length [of c st] norm_push_walk_up [of st c] by simp
qed simp

text \<open>The length of a joined path, and why collapsing does not make it longer.\<close>

definition weight :: "bytes list \<Rightarrow> nat" where
  "weight cs = (\<Sum>c\<leftarrow>cs. Suc (length c))"

lemma length_join: "cs \<noteq> [] \<Longrightarrow> Suc (length (join cs)) = weight cs"
  by (induction cs rule: join.induct) (simp_all add: weight_def)

lemma weight_append: "weight (xs @ ys) = weight xs + weight ys"
  by (simp add: weight_def)

lemma weight_butlast: "weight (butlast cs) \<le> weight cs"
proof (cases cs rule: rev_cases)
  case (snoc ys y)
  then show ?thesis by (simp add: weight_append)
qed simp

lemma weight_walk_up: "weight (walk_up c st) \<le> weight st + Suc (length c)"
  using weight_butlast [of st] by (auto simp: walk_up_def weight_append) (simp_all add: weight_def)

lemma weight_collapse: "weight (fold walk_up cs st) \<le> weight st + weight cs"
proof (induction cs arbitrary: st)
  case (Cons c cs)
  from Cons [of "walk_up c st"] weight_walk_up [of c st] show ?case by (simp add: weight_def)
qed (simp add: weight_def)

lemma weight_segments: "weight (segments p) \<le> (if p = [] \<or> hd p = 0x2F then length p else Suc (length p))"
proof (induction p rule: segments.induct)
  case (1 p)
  show ?case
  proof (cases "dropWhile (\<lambda>c. c = (0x2F :: u8)) p")
    case Nil
    then show ?thesis by (simp only: segments_Nil) (simp add: weight_def)
  next
    case (Cons c q)
    let ?b = "takeWhile (\<lambda>c. c \<noteq> (0x2F :: u8)) (c # q)" and ?r = "dropWhile (\<lambda>c. c \<noteq> (0x2F :: u8)) (c # q)"
    have "?r = [] \<or> hd ?r = 0x2F" using hd_dropWhile [of "\<lambda>c. c \<noteq> 0x2F" "c # q"] by auto
    then have "weight (segments ?r) \<le> length ?r" using 1 [OF Cons] by (simp only: if_True)
    moreover have "length ?b + length ?r = length (c # q)" by (metis length_append takeWhile_dropWhile_id)
    moreover have "length (c # q) \<le> (if hd p = 0x2F then length p - 1 else length p)" "p \<noteq> []"
      using Cons length_dropWhile_le [of "\<lambda>c. c = 0x2F" p] length_dropWhile_le [of "\<lambda>c. c = 0x2F" "tl p"] by (cases p; auto)+
    ultimately show ?thesis unfolding segments_Cons [OF Cons] by (auto simp: weight_def split: if_splits)
  qed
qed

lemma length_canonical:
  assumes "p \<noteq> []" and "hd p = 0x2F"
  shows "length (0x2F # join (collapse (segments p))) \<le> length p"
  using weight_collapse [of "segments p" "[]"] weight_segments [of p] length_join [of "collapse (segments p)"] assms
  by (cases "collapse (segments p) = []") (auto simp: collapse_def weight_def Suc_le_eq)

section \<open>normalize\<close>

text \<open>C16: \<open>normalize\<close> on an absolute path of at most 24 components of at most 31 bytes returns the path whose
  components are those of the input with dots skipped and each pair of dots cancelling the component
  before it, and it needs no more room than the input had.\<close>

theorem normalize_correct:
  assumes "p \<noteq> []" and "hd p = 0x2F" and "length p < cap"
    and "list_all (\<lambda>c. length c \<le> 31) (segments p)" and "length (segments p) \<le> 24"
  shows "normalize cap p s = Some (Ok (0x2F # join (collapse (segments p))), s)"
proof -
  have "norm_loop p [] = collapse (segments p)"
    using norm_loop_segments [OF assms(4), of "[]"] fold_norm_push [of "[]"] assms(5) by (simp add: collapse_def)
  then show ?thesis using length_canonical [OF assms(1, 2)] assms(3) by (simp add: normalize_def Let_def ret_def)
qed

theorem normalize_correct_witness:
  "normalize 256 (ascii ''/a/./b//../c'') () = Some (Ok (ascii ''/a/c''), ())"
proof -
  have seg: "segments (ascii ''/a/./b//../c'') = [ascii ''a'', ascii ''.'', ascii ''b'', ascii ''..'', ascii ''c'']"
    by (simp add: segments.simps ascii_def)
  then have "collapse (segments (ascii ''/a/./b//../c'')) = [ascii ''a'', ascii ''c'']"
    by (simp add: collapse_def walk_up_def ascii_def)
  with normalize_correct [of "ascii ''/a/./b//../c''" 256 "()"] seg show ?thesis by (simp add: ascii_def)
qed

text \<open>C27: whatever path it is given, when \<open>normalize\<close> returns, the result is canonical: an absolute path of
  at most 24 components, none of them empty, a dot, two dots or longer than 31 bytes, that fits the
  buffer and that \<open>normalize\<close> maps to itself.\<close>

theorem normalize_canonical:
  assumes "normalize cap p s = Some (Ok q, s')"
  shows "q = 0x2F # join (segments q) \<and> clean (segments q) \<and> length q < cap \<and> normalize cap q s' = Some (Ok q, s')"
proof -
  let ?cs = "norm_loop p []"
  have q: "q = 0x2F # join ?cs" "length q < cap"
    using assms by (auto simp: normalize_def Let_def ret_def no_return_def split: if_splits)
  have c: "clean ?cs" by (rule norm_loop_clean) (simp add: clean_def)
  then have "segments q = ?cs" unfolding q(1) by (intro segments_join) (simp add: clean_def)
  moreover have "norm_loop q [] = ?cs" unfolding q(1) using norm_loop_join [of "[]" ?cs] c by simp
  ultimately show ?thesis using q c by (simp add: normalize_def Let_def ret_def)
qed

theorem normalize_canonical_witness:
  "normalize 256 (ascii ''/a'') () = Some (Ok (ascii ''/a''), ()) \<and> clean (segments (ascii ''/a''))"
proof -
  have "normalize 256 (ascii ''//a/'') () = Some (Ok (ascii ''/a''), ())"
    by (simp add: normalize_def norm_loop.simps norm_push_def ascii_def ret_def)
  from normalize_canonical [OF this] show ?thesis by simp
qed

section \<open>A component that is too long\<close>

function chunks :: "bytes \<Rightarrow> bytes list" where
  "chunks c = (if c = [] then [] else take 31 c # chunks (drop 31 c))"
  by pat_completeness auto
termination by (relation "measure length") auto

declare chunks.simps [simp del]

lemma chunks_sum: "sum_list (map length (chunks c)) = length c"
  by (induction c rule: chunks.induct) (subst chunks.simps, simp add: min_def)

lemma chunks_count: "31 * length (chunks c) < length c + 31 \<and> length c \<le> 31 * length (chunks c)"
proof (induction c rule: chunks.induct)
  case (1 c)
  show ?case
  proof (cases "length c \<le> 31")
    case True
    then show ?thesis by (auto simp: chunks.simps [of c] chunks.simps [of "[]"] Suc_le_eq)
  next
    case False
    then have "chunks c = take 31 c # chunks (drop 31 c)" by (subst chunks.simps) auto
    then show ?thesis using 1 False by fastforce
  qed
qed

lemma norm_loop_chunks:
  "set c \<inter> {0x2E, 0x2F} = {} \<Longrightarrow> length acc + length (chunks c) \<le> 24 \<Longrightarrow> norm_loop c acc = acc @ chunks c"
proof (induction c arbitrary: acc rule: chunks.induct)
  case (1 c)
  show ?case
  proof (cases c)
    case Nil
    then show ?thesis by (simp add: norm_loop_Nil chunks.simps [of "[]"])
  next
    case (Cons x xs)
    have ns: "\<forall>y\<in>set c. y \<noteq> 0x2F" using 1(2) by auto
    then have dw: "dropWhile (\<lambda>c. c = 0x2F) c = x # xs" unfolding Cons by simp
    have tw: "takeWhile (\<lambda>c. c \<noteq> 0x2F) (x # xs) = c" using ns unfolding Cons by (simp add: takeWhile_eq_all_conv)
    have cc: "chunks c = take 31 c # chunks (drop 31 c)" using Cons by (subst chunks.simps) simp
    have "0x2E \<notin> set (take 31 c)" using 1(2) set_take_subset [of 31 c] by blast
    then have "take 31 c \<noteq> [0x2E]" "take 31 c \<noteq> [0x2E, 0x2E]" by auto
    then have push: "norm_push (take 31 c) acc = acc @ [take 31 c]" using 1(3) cc by (simp add: norm_push_def)
    have "norm_loop c acc = norm_loop (drop (length (take 31 c)) c) (acc @ [take 31 c])"
      using norm_loop_Cons [OF dw, of "take 31 c" acc] tw push Cons by simp
    also have "drop (length (take 31 c)) c = drop 31 c" by (simp add: min_def)
    also have "norm_loop (drop 31 c) (acc @ [take 31 c]) = (acc @ [take 31 c]) @ chunks (drop 31 c)"
    proof (rule 1(1))
      show "c \<noteq> []" using Cons by simp
      show "set (drop 31 c) \<inter> {0x2E, 0x2F} = {}" using 1(2) set_drop_subset [of 31 c] by blast
      show "length (acc @ [take 31 c]) + length (chunks (drop 31 c)) \<le> 24" using 1(3) cc by simp
    qed
    finally show ?thesis using cc by simp
  qed
qed

text \<open>C36: \<open>normalize\<close> cuts a long component into pieces of 31 bytes and joins them with slashes, so that the
  result is longer than the input: an absolute path of one component of 248 to 254 ordinary bytes fits
  the 256-byte buffer of the caller, and resolving it writes past the end of that buffer.\<close>

theorem resolve_overruns_buffer:
  assumes "248 \<le> length c" and "length c \<le> 254" and "set c \<inter> {0x2E, 0x2F} = {}"
  shows "length (0x2F # c) < 256 \<and> vfs_resolve (Some (0x2F # c)) 256 v = None"
proof -
  have n: "8 \<le> length (chunks c)" "length (chunks c) \<le> 9" using chunks_count [of c] assms(1, 2) by linarith+
  have "norm_loop (0x2F # c) [] = norm_loop c []"
    by (subst norm_loop.simps, subst (2) norm_loop.simps) simp
  also have "\<dots> = chunks c" using norm_loop_chunks [OF assms(3), of "[]"] n by simp
  finally have l: "norm_loop (0x2F # c) [] = chunks c" .
  have "weight (chunks c) = length c + length (chunks c)"
    using chunks_sum [of c] by (simp add: weight_def sum_list_Suc)
  moreover have "Suc (length (join (chunks c))) = weight (chunks c)" by (rule length_join) (use n in auto)
  ultimately have "255 \<le> length (join (chunks c))" using assms(1) n by simp
  then show ?thesis using assms(2) by (simp add: vfs_resolve_def normalize_def l no_return_def)
qed

definition vfs0 :: "unit vfs" where
  "vfs0 = \<lparr> registry = [], g_have = False, g_type = VFS_NONE, g_disk = None, g_start_lba = 0, g_size_lba = 0,
     g_cwd = [0x2F], vfs_errno = None, hardware = () \<rparr>"

theorem resolve_overruns_buffer_witness:
  "vfs_resolve (Some (0x2F # replicate 250 0x61)) 256 vfs0 = None"
  using resolve_overruns_buffer [of "replicate 250 0x61" vfs0] by simp

section \<open>Directory streams\<close>

definition entry_ok :: "bytes \<times> bool \<Rightarrow> bool" where
  "entry_ok e \<longleftrightarrow> (case e of (n, _) \<Rightarrow> n \<noteq> [] \<and> length n \<le> 31 \<and> set n \<inter> {0, 0x0A, 0x2F} = {})"

definition line_of :: "bytes \<times> bool \<Rightarrow> bytes" where
  "line_of e = (case e of (n, d) \<Rightarrow> n @ (if d then [0x2F] else []) @ [0x0A])"

lemma fat_cb_line:
  assumes "entry_ok (n, d)" and "length acc + length n + 2 < cap"
  shows "snd (fat_cb cap n sz d acc) = acc @ line_of (n, d)"
proof -
  have "cstr n = n" using assms(1) by (intro cstr_nonzero) (auto simp: entry_ok_def)
  then show ?thesis using assms(2) by (simp add: fat_cb_def line_of_def Let_def)
qed

lemma dir_loop_line:
  assumes "entry_ok e" and "length acc < VFS_DIR_MAX"
  shows "dir_loop (line_of e @ rest) acc = dir_loop rest (acc @ [e])"
proof -
  obtain n d where e: "e = (n, d)" by fastforce
  let ?l = "n @ (if d then [0x2F] else [])"
  have n: "n \<noteq> []" "length n \<le> 31" "0x0A \<notin> set n" "0x2F \<notin> set n" using assms(1) e by (auto simp: entry_ok_def)
  have l: "line_of e @ rest = ?l @ 0x0A # rest" by (simp add: e line_of_def)
  have "\<forall>x\<in>set ?l. x \<noteq> 0x0A" using n(3) by auto
  then have tw: "takeWhile (\<lambda>c. c \<noteq> 0x0A) (?l @ 0x0A # rest) = ?l" by (cases d) (auto simp: takeWhile_append2)
  have "last n \<noteq> 0x2F" using n(1, 4) last_in_set by metis
  then have dr: "(?l \<noteq> [] \<and> last ?l = 0x2F) = d" using n(1) by simp
  have nm: "take 31 (if d then butlast ?l else ?l) = n" using n(2) by simp
  have "dir_loop (?l @ 0x0A # rest) acc = dir_loop (drop (length ?l + 1) (?l @ 0x0A # rest)) (acc @ [(n, d)])"
    by (subst dir_loop.simps) (use assms(2) in \<open>simp only: tw Let_def dr nm, simp\<close>)
  then show ?thesis unfolding l by (simp add: e)
qed

lemma listing_collected:
  "list_all entry_ok es \<Longrightarrow> length acc + length (concat (map line_of es)) + 1 < cap \<Longrightarrow>
     fold (\<lambda>(n, d) acc. snd (fat_cb cap n sz d acc)) es acc = acc @ concat (map line_of es)"
proof (induction es arbitrary: acc)
  case (Cons e es)
  obtain n d where e: "e = (n, d)" by fastforce
  have "length n + 1 \<le> length (line_of (n, d))" by (simp add: line_of_def)
  then have "snd (fat_cb cap n sz d acc) = acc @ line_of (n, d)" using Cons(2, 3) e by (intro fat_cb_line) auto
  then show ?case using Cons e by simp
qed simp

lemma dir_loop_listing:
  "list_all entry_ok es \<Longrightarrow> length acc + length es \<le> VFS_DIR_MAX \<Longrightarrow> dir_loop (concat (map line_of es)) acc = acc @ es"
proof (induction es arbitrary: acc)
  case (Cons e es)
  then show ?case using dir_loop_line [of e acc "concat (map line_of es)"] by simp
qed (simp add: dir_loop.simps)

text \<open>A directory whose entries have names of 1 to 31 bytes without slashes, line feeds or zeros, of at most
  128 entries that fit the listing buffer, is read back through the listing text exactly: the stream
  that \<open>opendir\<close> builds holds its entries in order, and \<open>readdir\<close> returns the name and the kind of each.\<close>

theorem dirstream_roundtrip:
  fixes cap p :: nat and sz :: u32 and es :: "(bytes \<times> bool) list"
  assumes "list_all entry_ok es" and "length es \<le> VFS_DIR_MAX" and "length (concat (map line_of es)) + 1 < cap"
    and "p < length es"
  defines "ents \<equiv> dir_loop (fold (\<lambda>(n, d) acc. snd (fat_cb cap n sz d acc)) es []) []"
  shows "ents = es \<and> readdir (Some \<lparr> ds_entries = ents, ds_pos = p \<rparr>) =
    Some (\<lparr> d_ino = int p + 1, d_dir = snd (es ! p), d_name = fst (es ! p) \<rparr>, \<lparr> ds_entries = es, ds_pos = p + 1 \<rparr>)"
proof -
  have e: "ents = es"
    unfolding ents_def using listing_collected [OF assms(1), of "[]" cap sz] dir_loop_listing [OF assms(1), of "[]"] assms(2, 3)
    by simp
  have ok: "entry_ok (es ! p)" using assms(1, 4) by (simp add: list_all_length)
  obtain n d where np: "es ! p = (n, d)" by fastforce
  have "cstr n = n" using ok np by (intro cstr_nonzero) (auto simp: entry_ok_def)
  moreover have "length n \<le> 31" using ok np by (simp add: entry_ok_def)
  ultimately show ?thesis using e assms(4) np by (simp add: readdir_def)
qed

theorem dirstream_roundtrip_witness:
  "readdir (Some \<lparr> ds_entries = dir_loop (fold (\<lambda>(n, d) acc. snd (fat_cb 8192 n 0 d acc))
     [(ascii ''BOOT'', True), (ascii ''A.TXT'', False)] []) [], ds_pos = 1 \<rparr>) =
   Some (\<lparr> d_ino = 2, d_dir = False, d_name = ascii ''A.TXT'' \<rparr>,
     \<lparr> ds_entries = [(ascii ''BOOT'', True), (ascii ''A.TXT'', False)], ds_pos = 2 \<rparr>)"
proof -
  let ?es = "[(ascii ''BOOT'', True), (ascii ''A.TXT'', False)]"
  have "list_all entry_ok ?es" "length ?es \<le> VFS_DIR_MAX" "length (concat (map line_of ?es)) + 1 < 8192" "1 < length ?es"
    by (simp_all add: entry_ok_def line_of_def ascii_def VFS_DIR_MAX_def)
  from dirstream_roundtrip [OF this, of 0, THEN conjunct2] show ?thesis by (simp add: numeral_2_eq_2)
qed

end
