(* ===== verification/Inet.thy ===== *)
theory Inet
  imports Canboot_Prelude
begin

text \<open>
  Textual internet addresses and URLs: \<open>inet_pton\<close> of \<open>net/mbedtls_port/inet_pton.c\<close> and the parser
  behind the script module \<open>url\<close> (\<open>cando_port/lib/url.c\<close>). Strings are the bytes before the
  terminating zero. A parser returns whether it accepts and the caller's buffer, which holds what was
  stored before a rejection.
\<close>

section \<open>inet\_pton\<close>

definition is_digit :: "u8 \<Rightarrow> bool" where
  "is_digit c \<longleftrightarrow> 0x30 \<le> c \<and> c \<le> 0x39"

fun ipv4_loop :: "bytes \<Rightarrow> bool \<Rightarrow> nat \<Rightarrow> int \<Rightarrow> bytes \<Rightarrow> bool \<times> bytes" where
  "ipv4_loop [] saw oct v dst =
    (if oct \<noteq> 3 \<or> \<not> saw then (False, dst) else (True, dst[3 := word_of_int v]))"
| "ipv4_loop (c # p) saw oct v dst =
    (if is_digit c then
       let v = v * 10 + (uint c - 0x30) in
       if 255 < v then (False, dst) else ipv4_loop p True oct v dst
     else if c = 0x2E then
       if \<not> saw then (False, dst)
       else if 3 \<le> oct then (False, dst)
       else ipv4_loop p False (oct + 1) 0 (dst[oct := word_of_int v])
     else (False, dst))"

definition parse_ipv4 :: "bytes \<Rightarrow> bytes \<Rightarrow> bool \<times> bytes" where
  "parse_ipv4 src dst = ipv4_loop src False 0 0 dst"

definition hex_val :: "u8 \<Rightarrow> int" where
  "hex_val c =
    (if 0x30 \<le> c \<and> c \<le> 0x39 then uint c - 0x30
     else if 0x61 \<le> c \<and> c \<le> 0x66 then 10 + uint c - 0x61
     else if 0x41 \<le> c \<and> c \<le> 0x46 then 10 + uint c - 0x41
     else -1)"

text \<open>The digits of one group: at most four.\<close>

definition hex_run :: "bytes \<Rightarrow> bytes" where
  "hex_run p = take 4 (takeWhile (\<lambda>c. 0 \<le> hex_val c) p)"

definition hex_group :: "bytes \<Rightarrow> int" where
  "hex_group ds = foldl (\<lambda>v c. v * 16 + hex_val c) 0 ds"

text \<open>The groups read so far and the place of the double colon.\<close>

function ipv6_loop :: "bytes \<Rightarrow> int list \<Rightarrow> nat option \<Rightarrow> (int list \<times> nat option) option" where
  "ipv6_loop p parts dbl =
    (if p = [] then Some (parts, dbl)
     else if length parts = 8 then None
     else if hd p = 0x3A then
       if parts = [] then
         if byte_at p 1 \<noteq> 0x3A then None else ipv6_loop (drop 2 p) parts (Some 0)
       else if byte_at p 1 = 0x3A then
         if dbl \<noteq> None then None else ipv6_loop (drop 2 p) parts (Some (length parts))
       else None
     else
       let ds = hex_run p; q = drop (length ds) p in
       if ds = [] then None
       else if q \<noteq> [] \<and> hd q = 0x3A \<and> byte_at q 1 = 0 then None
       else if q \<noteq> [] \<and> hd q \<noteq> 0x3A then None
       else ipv6_loop q (parts @ [hex_group ds]) dbl)"
  by pat_completeness auto
termination by (relation "measure (\<lambda>(p, _, _). length p)") auto

declare ipv6_loop.simps [simp del]

definition put_group :: "nat \<Rightarrow> int \<Rightarrow> bytes \<Rightarrow> bytes" where
  "put_group i v buf = buf[i * 2 := word_of_int (v div 256), i * 2 + 1 := word_of_int (v mod 256)]"

definition parse_ipv6 :: "bytes \<Rightarrow> bytes \<Rightarrow> bool \<times> bytes" where
  "parse_ipv6 src dst = (case ipv6_loop src [] None of None \<Rightarrow> (False, dst)
    | Some (parts, dblp) \<Rightarrow>
        let buf = replicate 16 0; n = length parts in
        (case dblp of
          None \<Rightarrow>
            if n \<noteq> 8 then (False, dst)
            else (True, fold (\<lambda>i. put_group i (parts ! i)) [0 ..< 8] buf)
        | Some dbl \<Rightarrow>
            if 7 < n then (False, dst)
            else
              let tail = n - dbl; gap = 8 - n;
                  buf = fold (\<lambda>i. put_group i (parts ! i)) [0 ..< dbl] buf in
              (True, fold (\<lambda>i. put_group (dbl + gap + i) (parts ! (dbl + i))) [0 ..< tail] buf)))"

datatype pton_errno = EINVAL | EAFNOSUPPORT

text \<open>The result code, \<open>errno\<close> when it is set, and the destination.\<close>

definition inet_pton :: "int \<Rightarrow> bytes option \<Rightarrow> bytes option \<Rightarrow> int \<times> pton_errno option \<times> bytes option" where
  "inet_pton af srcp dstp = (case (srcp, dstp) of
      (Some src, Some dst) \<Rightarrow>
        if af = 2 then let (ok, d) = parse_ipv4 src dst in (if ok then 1 else 0, None, Some d)
        else if af = 10 then let (ok, d) = parse_ipv6 src dst in (if ok then 1 else 0, None, Some d)
        else (-1, Some EAFNOSUPPORT, Some dst)
    | _ \<Rightarrow> (-1, Some EINVAL, dstp))"

section \<open>URLs\<close>

record url_parts =
  u_scheme :: bytes
  u_host :: bytes
  u_port :: int
  u_path :: bytes

text \<open>\<open>strstr\<close>: what precedes and what follows the first occurrence.\<close>

fun split_at :: "bytes \<Rightarrow> bytes \<Rightarrow> (bytes \<times> bytes) option" where
  "split_at pat [] = (if pat = [] then Some ([], []) else None)"
| "split_at pat (c # s) =
    (if take (length pat) (c # s) = pat then Some ([], drop (length pat) (c # s))
     else map_option (\<lambda>(a, b). (c # a, b)) (split_at pat s))"

definition port_digits :: "bytes \<Rightarrow> int" where
  "port_digits ds = foldl (\<lambda>n c. s32 (n * 10 + (uint c - 0x30))) 0 ds"

definition url_parse :: "bytes option \<Rightarrow> url_parts option" where
  "url_parse urlp = (case urlp of None \<Rightarrow> None
    | Some url \<Rightarrow> (case split_at (ascii ''://'') url of None \<Rightarrow> None
        | Some (scheme, s) \<Rightarrow>
            let host = takeWhile (\<lambda>c. c \<noteq> 0x3A \<and> c \<noteq> 0x2F) s;
                s = drop (length host) s;
                (port, s) =
                  (if s \<noteq> [] \<and> hd s = 0x3A
                   then let ds = takeWhile is_digit (tl s) in (port_digits ds, drop (length ds) (tl s))
                   else (0, s));
                port = (if port = 0 then if scheme = ascii ''https'' then 443 else 80 else port);
                path = (if s \<noteq> [] \<and> hd s = 0x2F then s else [0x2F]) in
            Some \<lparr> u_scheme = scheme, u_host = host, u_port = port, u_path = path \<rparr>))"

text \<open>The four methods; \<open>None\<close> is the script value null.\<close>

definition url_scheme :: "bytes option \<Rightarrow> bytes option" where
  "url_scheme arg = map_option u_scheme (url_parse arg)"

definition url_host :: "bytes option \<Rightarrow> bytes option" where
  "url_host arg = map_option u_host (url_parse arg)"

definition url_port :: "bytes option \<Rightarrow> int option" where
  "url_port arg = map_option u_port (url_parse arg)"

definition url_path :: "bytes option \<Rightarrow> bytes option" where
  "url_path arg = map_option u_path (url_parse arg)"

section \<open>Which IPv4 addresses are accepted\<close>

text \<open>The fields of a text between dots, and the number a field stands for.\<close>

fun dots :: "bytes \<Rightarrow> bytes list" where
  "dots [] = [[]]"
| "dots (c # p) = (if c = 0x2E then [] # dots p else (c # hd (dots p)) # tl (dots p))"

definition dec_from :: "int \<Rightarrow> bytes \<Rightarrow> int" where
  "dec_from v f = foldl (\<lambda>v c. v * 10 + (uint c - 0x30)) v f"

definition octet :: "bytes \<Rightarrow> bool" where
  "octet f \<longleftrightarrow> f \<noteq> [] \<and> list_all is_digit f \<and> dec_from 0 f \<le> 255"

lemma dots_not_Nil [simp]: "dots p \<noteq> []"
  by (cases p) simp_all

lemma dec_from_Nil [simp]: "dec_from v [] = v"
  by (simp add: dec_from_def)

lemma dec_from_Cons [simp]: "dec_from v (c # f) = dec_from (v * 10 + (uint c - 0x30)) f"
  by (simp add: dec_from_def)

lemma digit_val: "is_digit c \<Longrightarrow> 0 \<le> uint c - 0x30"
  by (auto simp: is_digit_def word_le_def)

lemma dec_from_ge: "list_all is_digit f \<Longrightarrow> 0 \<le> v \<Longrightarrow> v \<le> dec_from v f"
proof (induction f arbitrary: v)
  case (Cons c f)
  then have "0 \<le> uint c - 0x30" by (intro digit_val) simp
  with Cons(1) [of "v * 10 + (uint c - 0x30)"] Cons(2, 3) show ?case by simp
qed simp

lemma take_update: "i < length xs \<Longrightarrow> take (Suc i) (xs[i := x]) = take i xs @ [x]"
  by (simp add: take_Suc_conv_app_nth)

text \<open>What the loop accepts from any of its states.\<close>

lemma ipv4_loop_exact:
  assumes "length dst = 4" and "oct \<le> 3" and "0 \<le> v" and "v \<le> 255"
  shows "ipv4_loop p saw oct v dst = (True, out) \<longleftrightarrow>
    oct + length (dots p) = 4 \<and> (saw \<or> hd (dots p) \<noteq> []) \<and> list_all is_digit (hd (dots p)) \<and>
    dec_from v (hd (dots p)) \<le> 255 \<and> list_all octet (tl (dots p)) \<and>
    out = take oct dst @ word_of_int (dec_from v (hd (dots p))) # map (\<lambda>f. word_of_int (dec_from 0 f)) (tl (dots p))"
  using assms
proof (induction p arbitrary: saw oct v dst)
  case Nil
  have "dst[3 := x] = take 3 dst @ [x]" for x using Nil(1) take_update [of 3 dst x] by simp
  then show ?case using Nil by auto
next
  case (Cons c p)
  obtain f fs where fs: "dots p = f # fs" by (cases "dots p") auto
  consider (digit) "is_digit c" | (dot) "\<not> is_digit c" "c = 0x2E" | (other) "\<not> is_digit c" "c \<noteq> 0x2E" by blast
  then show ?case
  proof cases
    case digit
    then have c: "c \<noteq> 0x2E" by (auto simp: is_digit_def)
    let ?v = "v * 10 + (uint c - 0x30)"
    have v: "0 \<le> ?v" using digit_val [OF digit] Cons(4) by simp
    show ?thesis
    proof (cases "255 < ?v")
      case True
      then show ?thesis using digit c dec_from_ge [OF _ v, of f] by (auto simp: Let_def fs)
    next
      case False
      with Cons(1) [OF Cons(2, 3) v, of True] digit c show ?thesis by (simp add: fs)
    qed
  next
    case dot
    show ?thesis
    proof (cases "3 \<le> oct")
      case True
      then show ?thesis using dot Cons(3) by (auto simp: fs)
    next
      case False
      then have "take (oct + 1) (dst[oct := word_of_int v]) = take oct dst @ [word_of_int v]"
        using take_update [of oct dst "word_of_int v"] Cons(2) by simp
      with Cons(1) [of "dst[oct := word_of_int v]" "oct + 1" 0 False] False Cons(2-5) dot show ?thesis
        by (auto simp: fs octet_def)
    qed
  next
    case other
    then show ?thesis by simp
  qed
qed

text \<open>C29: \<open>inet_pton\<close> accepts as IPv4 addresses exactly the texts of four fields separated by single dots, each
  of one or more decimal digits with a value of at most 255, and stores the four values.\<close>

theorem parse_ipv4_exact:
  assumes "length dst = 4"
  shows "inet_pton 2 (Some src) (Some dst) = (1, None, Some out) \<longleftrightarrow>
    length (dots src) = 4 \<and> list_all octet (dots src) \<and> out = map (\<lambda>f. word_of_int (dec_from 0 f)) (dots src)"
proof -
  have "inet_pton 2 (Some src) (Some dst) = (1, None, Some out) \<longleftrightarrow> parse_ipv4 src dst = (True, out)"
    by (auto simp: inet_pton_def split: prod.split)
  also have "\<dots> \<longleftrightarrow> length (dots src) = 4 \<and> list_all octet (dots src) \<and> out = map (\<lambda>f. word_of_int (dec_from 0 f)) (dots src)"
    unfolding parse_ipv4_def using ipv4_loop_exact [OF assms, of 0 0 src False out]
    by (cases "dots src") (auto simp: octet_def)
  finally show ?thesis .
qed

theorem parse_ipv4_exact_witness:
  "inet_pton 2 (Some (ascii ''10.0.2.015'')) (Some [0, 0, 0, 0]) = (1, None, Some [10, 0, 2, 15])"
  using parse_ipv4_exact [of "[0, 0, 0, 0]" "ascii ''10.0.2.015''" "[10, 0, 2, 15]"]
  by (simp add: ascii_def octet_def is_digit_def)

section \<open>IPv6 addresses without a double colon\<close>

definition double_colon :: "bytes \<Rightarrow> bool" where
  "double_colon p \<longleftrightarrow> (\<exists>i. Suc i < length p \<and> p ! i = 0x3A \<and> p ! Suc i = 0x3A)"

lemma no_double_hd: "\<not> double_colon p \<Longrightarrow> p \<noteq> [] \<Longrightarrow> hd p = 0x3A \<Longrightarrow> byte_at p 1 \<noteq> 0x3A"
  by (auto simp: double_colon_def byte_at_def hd_conv_nth)

lemma double_colon_drop: "double_colon (drop n p) \<Longrightarrow> double_colon p"
  by (auto simp: double_colon_def) (metis add.commute add_Suc_right less_diff_conv)

text \<open>C38: \<open>inet_pton\<close> refuses every IPv6 address that is written without a double colon, also those with all
  eight groups: after the first group a single colon is taken for an error.\<close>

theorem ipv6_full_form_refused:
  assumes "\<not> double_colon src"
  shows "inet_pton 10 (Some src) (Some dst) = (0, None, Some dst)"
proof -
  let ?good = "\<lambda>r. r = None \<or> (\<exists>parts. r = Some (parts, None) \<and> length parts \<le> 1)"
  have "?good (ipv6_loop src [] None)"
  proof (cases "src = []")
    case True
    then show ?thesis by (simp add: ipv6_loop.simps)
  next
    case False
    let ?q = "drop (length (hex_run src)) src"
    have q: "?q \<noteq> [] \<Longrightarrow> hd ?q = 0x3A \<Longrightarrow> byte_at ?q 1 \<noteq> 0x3A"
      using no_double_hd [of ?q] double_colon_drop assms by blast
    have *: "?good (ipv6_loop ?q [x] None)" if "?q = [] \<or> hd ?q = 0x3A" for x
    proof (cases "?q = []")
      case True
      show ?thesis unfolding True by (simp add: ipv6_loop.simps)
    next
      case False
      then have "ipv6_loop ?q [x] None = None" using that q by (subst ipv6_loop.simps) simp
      then show ?thesis by simp
    qed
    have "ipv6_loop src [] None = None \<or>
      (?q = [] \<or> hd ?q = 0x3A) \<and> ipv6_loop src [] None = ipv6_loop ?q [hex_group (hex_run src)] None"
      using False no_double_hd [OF assms False] by (subst (1 2) ipv6_loop.simps) (simp add: Let_def)
    with * [of "hex_group (hex_run src)"] show ?thesis by metis
  qed
  then show ?thesis by (auto simp: inet_pton_def parse_ipv6_def)
qed

theorem ipv6_full_form_refused_witness:
  "inet_pton 10 (Some (ascii ''1:2:3:4:5:6:7:8'')) (Some [0]) = (0, None, Some [0])"
proof (rule ipv6_full_form_refused)
  have "\<not> (p ! i = 0x3A \<and> p ! Suc i = 0x3A)" if "p = ascii ''1:2:3:4:5:6:7:8''" "Suc i < length p" for p i
    using that by (auto simp: ascii_def less_Suc_eq nth_Cons split: nat.splits)
  then show "\<not> double_colon (ascii ''1:2:3:4:5:6:7:8'')" by (auto simp: double_colon_def)
qed

section \<open>URLs are taken apart as they are put together\<close>

definition url_text :: "bytes \<Rightarrow> bytes \<Rightarrow> bytes \<Rightarrow> bytes \<Rightarrow> bytes" where
  "url_text scheme host digits path = scheme @ ascii ''://'' @ host @ 0x3A # digits @ path"

lemma split_at_first:
  assumes "c \<notin> set a"
  shows "split_at (c # pat) (a @ (c # pat) @ b) = Some (a, b)"
  using assms by (induction a) auto

lemma port_digits_val:
  assumes "list_all is_digit ds" and "dec_from 0 ds < 2147483648"
  shows "port_digits ds = dec_from 0 ds"
proof -
  have "foldl (\<lambda>n c. s32 (n * 10 + (uint c - 0x30))) v ds = dec_from v ds" if "0 \<le> v" "dec_from v ds < 2147483648" for v
    using assms(1) that
  proof (induction ds arbitrary: v)
    case (Cons c ds)
    let ?v = "v * 10 + (uint c - 0x30)"
    have v: "0 \<le> ?v" using digit_val [of c] Cons(2, 3) by simp
    moreover have "?v \<le> dec_from ?v ds" using Cons(2) v by (intro dec_from_ge) simp
    ultimately have "s32 ?v = ?v" using Cons(4) by (intro s32_id) simp_all
    then show ?case using Cons(1) [OF _ v] Cons(2, 4) by simp
  qed simp
  then show ?thesis using assms(2) by (simp add: port_digits_def)
qed

text \<open>A URL put together from a scheme without a colon, a host without colon and slash, a port number and a
  path that starts with a slash is taken apart into these four; port 0 stands for the default of the
  scheme.\<close>

theorem url_roundtrip:
  assumes "0x3A \<notin> set scheme" and "set host \<inter> {0x3A, 0x2F} = {}"
    and "list_all is_digit digits" and "dec_from 0 digits < 2147483648" and "path \<noteq> []" and "hd path = 0x2F"
  shows "url_parse (Some (url_text scheme host digits path)) =
    Some \<lparr> u_scheme = scheme, u_host = host,
      u_port = (if dec_from 0 digits = 0 then if scheme = ascii ''https'' then 443 else 80 else dec_from 0 digits),
      u_path = path \<rparr>"
proof -
  have sp: "split_at (ascii ''://'') (url_text scheme host digits path) = Some (scheme, host @ 0x3A # digits @ path)"
    using split_at_first [OF assms(1), of "[0x2F, 0x2F]" "host @ 0x3A # digits @ path"] by (simp add: url_text_def ascii_def)
  have "\<forall>x\<in>set host. x \<noteq> 0x3A \<and> x \<noteq> 0x2F" using assms(2) by auto
  then have h: "takeWhile (\<lambda>c. c \<noteq> 0x3A \<and> c \<noteq> 0x2F) (host @ 0x3A # digits @ path) = host"
    by (simp add: takeWhile_append2)
  have "\<not> is_digit (hd path)" using assms(6) by (simp add: is_digit_def)
  then have d: "takeWhile is_digit (digits @ path) = digits"
    using assms(3, 5) by (cases path) (simp_all add: list_all_iff takeWhile_append2)
  have p: "port_digits digits = dec_from 0 digits" using assms(3, 4) by (rule port_digits_val)
  show ?thesis using assms(5, 6) by (simp add: url_parse_def sp h d p Let_def)
qed

theorem url_roundtrip_witness:
  "url_parse (Some (ascii ''http://boot.local:8080/kernel'')) =
    Some \<lparr> u_scheme = ascii ''http'', u_host = ascii ''boot.local'', u_port = 8080, u_path = ascii ''/kernel'' \<rparr>"
proof -
  have "ascii ''http://boot.local:8080/kernel'' = url_text (ascii ''http'') (ascii ''boot.local'') (ascii ''8080'') (ascii ''/kernel'')"
    by (simp add: url_text_def ascii_def)
  with url_roundtrip [of "ascii ''http''" "ascii ''boot.local''" "ascii ''8080''" "ascii ''/kernel''"] show ?thesis
    by (simp add: ascii_def is_digit_def)
qed

end
