(* ===== verification/Iso9660.thy ===== *)
theory Iso9660
  imports Disk
begin

text \<open>
  The read-only ISO 9660 driver of \<open>fs/iso9660.c\<close>: opening a volume, finding a file in the root
  directory by name, and reading a file.

  The static sector buffers have 2048 bytes. A device whose blocks do not divide 2048 either overruns
  them or leaves bytes of an earlier read in them; the model does not return then. It does not return
  either when a directory record makes the code read past the end of the buffer.
\<close>

section \<open>The code\<close>

definition ISO_BLOCK :: u32 where "ISO_BLOCK = 2048"
definition PVD_LBA :: u32 where "PVD_LBA = 16"

text \<open>Offsets of the fields of \<open>struct iso_dir_record\<close> and \<open>struct iso_pvd\<close>, both packed.\<close>

definition rec_lba_le :: nat where "rec_lba_le = 2"
definition rec_size_le :: nat where "rec_size_le = 10"
definition rec_name_len :: nat where "rec_name_len = 32"
definition rec_name :: nat where "rec_name = 33"

definition pvd_root_dir :: nat where
  "pvd_root_dir = 1 + 5 + 1 + 1 + 32 + 32 + 8 + 4 + 4 + 32 + 2 + 2 + 2 + 2 + 2 + 2 + 4 + 4 + 24"

record 's canboot_iso =
  iso_disk :: "'s canboot_disk"
  sectors_per :: u32
  root_lba :: u32
  root_size :: u32

definition iso_read_block :: "'s canboot_disk \<Rightarrow> u32 \<Rightarrow> u32 \<Rightarrow> ('s, bytes) prog" where
  "iso_read_block d sp lba =
     bnd (dread d (ucast lba * ucast sp) sp) (\<lambda>buf. if length buf \<noteq> 2048 then no_return else ret buf)"

definition canboot_iso_open :: "'s canboot_disk option \<Rightarrow> ('s, 's canboot_iso) prog" where
  "canboot_iso_open dp = (case dp of None \<Rightarrow> err | Some d \<Rightarrow>
     if block_size d = 0 then err
     else
       let sp = ISO_BLOCK div block_size d; sp = (if sp = 0 then 1 else sp) in
       bnd (iso_read_block d sp PVD_LBA) (\<lambda>buf.
       if byte_at buf 0 \<noteq> 1 then err
       else if take 5 (drop 1 buf) \<noteq> ascii ''CD001'' then err
       else ret \<lparr> iso_disk = d, sectors_per = sp, root_lba = get_le32 buf (pvd_root_dir + rec_lba_le),
              root_size = get_le32 buf (pvd_root_dir + rec_size_le) \<rparr>))"

definition iso_upper :: "u8 \<Rightarrow> u8" where
  "iso_upper c = (if 0x61 \<le> c \<and> c \<le> 0x7A then c - 32 else c)"

fun same_upto_case :: "bytes \<Rightarrow> bytes \<Rightarrow> bool" where
  "same_upto_case (a # as) (b # bs) = (iso_upper a = iso_upper b \<and> same_upto_case as bs)"
| "same_upto_case _ _ = True"

definition icase_eq :: "bytes \<Rightarrow> bytes \<Rightarrow> bool" where
  "icase_eq a b \<longleftrightarrow> length a = length b \<and> same_upto_case a b"

text \<open>The name of the record at \<open>off\<close> up to a semicolon, or \<open>None\<close> when reading it leaves the buffer.\<close>

definition record_name :: "bytes \<Rightarrow> nat \<Rightarrow> bytes option" where
  "record_name buf off =
    (if length buf \<le> off + rec_name_len then None
     else
       let n = unat (byte_at buf (off + rec_name_len));
           field = take n (drop (off + rec_name) buf);
           nm = takeWhile (\<lambda>c. c \<noteq> 0x3B) field in
       if length field < n \<and> nm = field then None else Some nm)"

definition name_matches :: "bytes \<Rightarrow> bytes \<Rightarrow> bool" where
  "name_matches name nm \<longleftrightarrow> nm \<noteq> [] \<and> \<not> (length nm = 1 \<and> (hd nm = 0 \<or> hd nm = 1)) \<and> icase_eq nm name"

datatype dir_scan = Found u32 u32 | Not_Found | Overrun

function scan_block :: "bytes \<Rightarrow> bytes \<Rightarrow> nat \<Rightarrow> dir_scan" where
  "scan_block name buf off =
    (if unat ISO_BLOCK \<le> off then Not_Found
     else if byte_at buf off = 0 then Not_Found
     else (case record_name buf off of None \<Rightarrow> Overrun
       | Some nm \<Rightarrow>
           if name_matches name nm
           then Found (get_le32 buf (off + rec_lba_le)) (get_le32 buf (off + rec_size_le))
           else scan_block name buf (off + unat (byte_at buf off))))"
  by pat_completeness auto
termination
  by (relation "measure (\<lambda>(_, _, off). 2048 - off)") (auto simp: ISO_BLOCK_def unat_gt_0 intro!: diff_less_mono2)

lemma case_dir_scan_apply_mono [partial_function_mono]:
  "(\<And>x y. mono_option (\<lambda>f. A f x y s)) \<Longrightarrow> mono_option (\<lambda>f. B f s) \<Longrightarrow> mono_option (\<lambda>f. C f s) \<Longrightarrow>
     mono_option (\<lambda>f. (case v of Found x y \<Rightarrow> A f x y | Not_Found \<Rightarrow> B f | Overrun \<Rightarrow> C f) s)"
  by (cases v) simp_all

partial_function (option) lookup_loop ::
    "'s canboot_iso \<Rightarrow> bytes \<Rightarrow> u32 \<Rightarrow> u32 \<Rightarrow> ('s, u32 \<times> u32) prog" where
  "lookup_loop vol name remaining lba s =
    (if remaining = 0 then err s
     else bnd (iso_read_block (iso_disk vol) (sectors_per vol) lba) (\<lambda>buf.
       case scan_block name buf 0 of
         Found l z \<Rightarrow> ret (l, z)
       | Overrun \<Rightarrow> no_return
       | Not_Found \<Rightarrow>
           if remaining < ISO_BLOCK then err
           else lookup_loop vol name (remaining - ISO_BLOCK) (lba + 1)) s)"

definition canboot_iso_lookup :: "'s canboot_iso option \<Rightarrow> bytes option \<Rightarrow> ('s, u32 \<times> u32) prog" where
  "canboot_iso_lookup isop namep = (case (isop, namep) of
      (Some vol, Some name) \<Rightarrow> lookup_loop vol name (root_size vol) (root_lba vol)
    | _ \<Rightarrow> err)"

text \<open>The blocks that are left, the bytes copied and the caller's buffer.\<close>

primrec read_loop :: "'s canboot_iso \<Rightarrow> u32 \<Rightarrow> u32 \<Rightarrow> nat list \<Rightarrow> u32 \<Rightarrow> bytes \<Rightarrow> ('s, u32 \<times> bytes) prog" where
  "read_loop vol lba to_read [] copied buf = ret (copied, buf)"
| "read_loop vol lba to_read (i # is) copied buf =
     bnd (iso_read_block (iso_disk vol) (sectors_per vol) (lba + of_nat i)) (\<lambda>tmp.
     let chunk = (if to_read < copied + ISO_BLOCK then to_read - copied else ISO_BLOCK) in
     read_loop vol lba to_read is (copied + chunk) (put_bytes buf (unat copied) (take (unat chunk) tmp)))"

text \<open>The count goes through \<open>(int)copied\<close>: from \<open>2 ^ 31\<close> on it comes out negative.\<close>

definition canboot_iso_read_file ::
    "'s canboot_iso option \<Rightarrow> u32 \<Rightarrow> u32 \<Rightarrow> bytes option \<Rightarrow> u32 \<Rightarrow> ('s, int \<times> bytes) prog" where
  "canboot_iso_read_file isop lba sz bufp buf_size = (case (isop, bufp) of
      (Some vol, Some buf) \<Rightarrow>
        let to_read = (if sz < buf_size then sz else buf_size);
            n_sectors = (to_read + ISO_BLOCK - 1) div ISO_BLOCK in
        bnd (read_loop vol lba to_read [0 ..< unat n_sectors] 0 buf) (\<lambda>(copied, buf). ret (s32 (uint copied), buf))
    | _ \<Rightarrow> err)"

end
