(* ===== verification/Iso9660_Properties.thy ===== *)
theory Iso9660_Properties
  imports Iso9660 Fat32_Stick
begin

text \<open>
  What the ISO 9660 driver returns over a block device that keeps the contract \<open>block_device\<close>: the
  first record with the name asked for, the bytes of a file, and which field of the volume descriptor
  it takes for the root directory.
\<close>

section \<open>A volume on a block device\<close>

text \<open>Block \<open>k\<close> of the volume, made of \<open>sp\<close> blocks of the device.\<close>

definition iso_block :: "nat \<Rightarrow> (nat \<Rightarrow> bytes) \<Rightarrow> nat \<Rightarrow> bytes" where
  "iso_block sp B k = blocks B (k * sp) sp"

lemma iso_blocks: "concat (map (iso_block sp B) [k ..< k + n]) = blocks B (k * sp) (n * sp)"
proof (induction n)
  case (Suc n)
  then show ?case using blocks_add [of B "k * sp" "n * sp" sp] by (simp add: iso_block_def add_mult_distrib add.commute)
qed (simp add: blocks_def)

locale iso_volume = block_device d blk ok max_req
  for d :: "'s canboot_disk" and blk ok max_req +
  fixes sp :: u32
  assumes iso_geometry: "unat sp * unat (block_size d) = 2048"
    and iso_request: "unat sp \<le> max_req"
begin

lemma sp_pos: "0 < unat sp"
  using iso_geometry by (cases "unat sp = 0") auto

lemma read_block_runs:
  assumes "(unat lba + 1) * unat sp \<le> unat (block_count d)"
  shows "runs (\<lambda>s. ok s \<and> blk s = B) (iso_read_block d sp lba) (iso_block (unat sp) B (unat lba)) (\<lambda>s. ok s \<and> blk s = B)"
proof (rule runsI)
  fix s
  assume s: "ok s \<and> blk s = B"
  have "unat lba * unat sp < 4294967296 * 4294967296" by (intro mult_strict_mono) simp_all
  then have a: "unat (ucast lba * ucast sp :: u64) = unat lba * unat sp"
    by (subst unat_mult_no_wrap) simp_all
  have "unat (ucast lba * ucast sp :: u64) + unat sp \<le> unat (block_count d)" using assms a by simp
  from runsE [OF read_law [OF sp_pos iso_request this] s] a obtain s'
    where r: "dread d (ucast lba * ucast sp) sp s = Some (Ok (iso_block (unat sp) B (unat lba)), s')" "ok s' \<and> blk s' = B"
    by (auto simp: iso_block_def)
  have "length (B i) = unat (block_size d)" if "unat lba * unat sp \<le> i" "i < unat lba * unat sp + unat sp" for i
    using s length_blk [of s i] that assms by auto
  then have "length (iso_block (unat sp) B (unat lba)) = 2048"
    unfolding iso_block_def using length_blocks [of "unat lba * unat sp" "unat sp" B] iso_geometry by simp
  then show "\<exists>s'. iso_read_block d sp lba s = Some (Ok (iso_block (unat sp) B (unat lba)), s') \<and> ok s' \<and> blk s' = B"
    using r by (auto simp: iso_read_block_def bnd_Ok ret_def)
qed

lemma length_iso_block:
  assumes "ok s" and "(k + 1) * unat sp \<le> unat (block_count d)"
  shows "length (iso_block (unat sp) (blk s) k) = 2048"
proof -
  have "length (blk s i) = unat (block_size d)" if "k * unat sp \<le> i" "i < k * unat sp + unat sp" for i
    using assms length_blk [of s i] that by auto
  then show ?thesis unfolding iso_block_def using length_blocks [of "k * unat sp" "unat sp"] iso_geometry by simp
qed

end

section \<open>Reading a file\<close>

context iso_volume
begin

lemma read_loop_runs:
  assumes vol: "iso_disk vol = d" "sectors_per vol = sp" and fit: "unat to_read + 2048 < 2 ^ 32"
    and n: "unat to_read \<le> n * 2048" "n * 2048 < unat to_read + 2048"
    and med: "unat lba + n \<le> 2 ^ 32" "(unat lba + n) * unat sp \<le> unat (block_count d)"
  shows "i \<le> n \<Longrightarrow> unat copied = min (i * 2048) (unat to_read) \<Longrightarrow> unat to_read \<le> length buf \<Longrightarrow> ok s \<Longrightarrow> blk s = B \<Longrightarrow>
    \<exists>s'. read_loop vol lba to_read [i ..< n] copied buf s =
      Some (Ok (to_read, put_bytes buf (unat copied)
        (take (unat to_read - unat copied) (concat (map (iso_block (unat sp) B) [unat lba + i ..< unat lba + n])))), s') \<and>
    ok s' \<and> blk s' = B"
proof (induction "n - i" arbitrary: i copied buf s)
  case 0
  then have "i = n" by simp
  moreover have "copied = to_read" using 0(1, 2, 3) n(1) by (simp add: word_unat_eq_iff)
  ultimately show ?case using 0(5, 6) by (simp add: ret_def)
next
  case (Suc k)
  let ?D = "iso_block (unat sp) B (unat lba + i)"
  let ?R = "concat (map (iso_block (unat sp) B) [unat lba + Suc i ..< unat lba + n])"
  have i: "i < n" "Suc i \<le> n" "k = n - Suc i" using Suc(2) by simp_all
  have "Suc i * 2048 \<le> n * 2048" using i(2) by (intro mult_le_mono1)
  then have lt: "i * 2048 < unat to_read" using n(2) by simp
  then have c: "unat copied = i * 2048" using Suc(4) by simp
  have l: "unat (lba + of_nat i) = unat lba + i"
    using med(1) i(1) by (subst unat_add_no_wrap) (simp_all add: unat_of_nat)
  have "(unat (lba + of_nat i) + 1) * unat sp \<le> (unat lba + n) * unat sp" unfolding l using i(1) by (intro mult_le_mono1) simp
  then have "(unat (lba + of_nat i) + 1) * unat sp \<le> unat (block_count d)" using med(2) by linarith
  from runsE [OF read_block_runs [OF this, of B], of s] Suc(6, 7) l obtain s1
    where s1: "iso_read_block d sp (lba + of_nat i) s = Some (Ok ?D, s1)" "ok s1" "blk s1 = B" by auto
  have "(unat lba + i + 1) * unat sp \<le> (unat lba + n) * unat sp" using i(1) by (intro mult_le_mono1) simp
  then have D: "length ?D = 2048" using length_iso_block [OF Suc(6), of "unat lba + i"] Suc(7) med(2) by simp
  define chunk where "chunk = (if to_read < copied + ISO_BLOCK then to_read - copied else ISO_BLOCK)"
  have "unat (copied + ISO_BLOCK) = i * 2048 + 2048"
    using c lt fit by (subst unat_add_no_wrap) (simp_all add: ISO_BLOCK_def)
  then have ch: "unat chunk = min 2048 (unat to_read - i * 2048)"
    using c lt by (auto simp: chunk_def word_less_nat_alt ISO_BLOCK_def unat_sub_no_wrap word_le_nat_alt min_def)
  have c': "unat (copied + chunk) = min (Suc i * 2048) (unat to_read)"
    using c lt fit ch by (subst unat_add_no_wrap) (auto simp: min_def)
  have m: "length (take (unat chunk) ?D) = unat chunk" "i * 2048 + unat chunk \<le> unat to_read" using ch D lt by (auto simp: min_def)
  let ?buf = "put_bytes buf (unat copied) (take (unat chunk) ?D)"
  have lb: "length ?buf = length buf" using c m Suc(5) by (intro length_put_bytes) linarith
  have "unat to_read \<le> length ?buf" using lb Suc(5) by simp
  from Suc(1) [OF i(3) i(2) c' this s1(2, 3)] obtain s' where
    s': "read_loop vol lba to_read [Suc i ..< n] (copied + chunk) ?buf s1 =
      Some (Ok (to_read, put_bytes ?buf (unat (copied + chunk)) (take (unat to_read - unat (copied + chunk)) ?R)), s')"
      "ok s'" "blk s' = B" by blast
  have "read_loop vol lba to_read [i ..< n] copied buf s = read_loop vol lba to_read [Suc i ..< n] (copied + chunk) ?buf s1"
    using i(1) vol by (simp add: upt_conv_Cons bnd_Ok [where m = "iso_read_block d sp (lba + of_nat i)", OF s1(1)] chunk_def Let_def del: upt_Suc)
  moreover have "put_bytes ?buf (unat (copied + chunk)) (take (unat to_read - unat (copied + chunk)) ?R) =
      put_bytes buf (unat copied) (take (unat to_read - unat copied) (?D @ ?R))"
  proof -
    have "unat (copied + chunk) = unat copied + length (take (unat chunk) ?D)" using c' c ch m lt by (auto simp: min_def)
    moreover have "take (unat to_read - unat copied) (?D @ ?R) =
        take (unat chunk) ?D @ take (unat to_read - unat (copied + chunk)) ?R"
      using ch c c' D lt by (auto simp: min_def add.commute)
    moreover have "unat copied + length (take (unat chunk) ?D) + length (take (unat to_read - unat (copied + chunk)) ?R) \<le> length buf"
    proof -
      have "unat (copied + chunk) = unat copied + unat chunk" "unat (copied + chunk) \<le> unat to_read"
        using c c' ch lt by (auto simp: min_def)
      then show ?thesis using m(1) Suc(5) length_take [of "unat to_read - unat (copied + chunk)" ?R] by linarith
    qed
    ultimately show ?thesis using put_bytes_append by metis
  qed
  moreover have "concat (map (iso_block (unat sp) B) [unat lba + i ..< unat lba + n]) = ?D @ ?R"
    using i(1) by (simp add: upt_conv_Cons del: upt_Suc)
  ultimately show ?case using s' by metis
qed

end

section \<open>Directory records\<close>

text \<open>The name, block number and size of the records of a directory block, in order.\<close>

function dir_records :: "bytes \<Rightarrow> nat \<Rightarrow> (bytes \<times> u32 \<times> u32) list" where
  "dir_records buf off =
    (if 2048 \<le> off \<or> byte_at buf off = 0 then []
     else (case record_name buf off of None \<Rightarrow> []
       | Some nm \<Rightarrow> (nm, get_le32 buf (off + rec_lba_le), get_le32 buf (off + rec_size_le))
           # dir_records buf (off + unat (byte_at buf off))))"
  by pat_completeness auto
termination by (relation "measure (\<lambda>(_, off). 2048 - off)") (auto simp: unat_gt_0 intro!: diff_less_mono2)

text \<open>Every record lies inside its block.\<close>

function block_wf :: "bytes \<Rightarrow> nat \<Rightarrow> bool" where
  "block_wf buf off =
    (if 2048 \<le> off \<or> byte_at buf off = 0 then True
     else record_name buf off \<noteq> None \<and> block_wf buf (off + unat (byte_at buf off)))"
  by pat_completeness auto
termination by (relation "measure (\<lambda>(_, off). 2048 - off)") (auto simp: unat_gt_0 intro!: diff_less_mono2)

declare scan_block.simps [simp del] dir_records.simps [simp del] block_wf.simps [simp del]

definition find_record :: "bytes \<Rightarrow> (bytes \<times> u32 \<times> u32) list \<Rightarrow> (u32 \<times> u32) option" where
  "find_record name rs = map_option snd (find (\<lambda>(nm, _). name_matches name nm) rs)"

lemma find_record_Nil [simp]: "find_record name [] = None"
  by (simp add: find_record_def)

lemma find_record_Cons [simp]:
  "find_record name ((nm, lz) # rs) = (if name_matches name nm then Some lz else find_record name rs)"
  by (simp add: find_record_def)

lemma find_record_append:
  "find_record name (rs @ rs') = (case find_record name rs of None \<Rightarrow> find_record name rs' | Some r \<Rightarrow> Some r)"
  by (induction rs) auto

lemma scan_block_find:
  "block_wf buf off \<Longrightarrow>
     scan_block name buf off = (case find_record name (dir_records buf off) of None \<Rightarrow> Not_Found | Some (l, z) \<Rightarrow> Found l z)"
proof (induction name buf off rule: scan_block.induct)
  case (1 name buf off)
  show ?case
  proof (cases "2048 \<le> off \<or> byte_at buf off = 0")
    case True
    then show ?thesis by (subst scan_block.simps, subst dir_records.simps) (auto simp: ISO_BLOCK_def)
  next
    case False
    then obtain nm where nm: "record_name buf off = Some nm" "block_wf buf (off + unat (byte_at buf off))"
      using 1(2) by (subst (asm) block_wf.simps) auto
    have "dir_records buf off = (nm, get_le32 buf (off + rec_lba_le), get_le32 buf (off + rec_size_le))
        # dir_records buf (off + unat (byte_at buf off))"
      using False nm(1) by (subst dir_records.simps) simp
    moreover have "scan_block name buf off = (if name_matches name nm
        then Found (get_le32 buf (off + rec_lba_le)) (get_le32 buf (off + rec_size_le))
        else scan_block name buf (off + unat (byte_at buf off)))"
      using False nm(1) by (subst scan_block.simps) (simp add: ISO_BLOCK_def)
    ultimately show ?thesis using 1(1) [OF _ _ nm(1) _ nm(2)] False by (simp add: ISO_BLOCK_def)
  qed
qed

definition root_records :: "nat \<Rightarrow> (nat \<Rightarrow> bytes) \<Rightarrow> nat \<Rightarrow> nat \<Rightarrow> (bytes \<times> u32 \<times> u32) list" where
  "root_records sp B k n = concat (map (\<lambda>j. dir_records (iso_block sp B j) 0) [k ..< k + n])"

text \<open>The number of blocks of a directory of \<open>z\<close> bytes.\<close>

definition blocks_of :: "nat \<Rightarrow> nat" where
  "blocks_of z = (z + 2047) div 2048"

lemma blocks_of_0: "blocks_of z = 0 \<longleftrightarrow> z = 0"
  by (auto simp: blocks_of_def div_eq_0_iff)

context iso_volume
begin

lemma lookup_loop_finds:
  assumes "iso_disk vol = d" and "sectors_per vol = sp"
  shows "ok s \<Longrightarrow> blk s = B \<Longrightarrow> blocks_of (unat remaining) = n \<Longrightarrow> unat lba + n \<le> 2 ^ 32 \<Longrightarrow>
    (unat lba + n) * unat sp \<le> unat (block_count d) \<Longrightarrow>
    list_all (\<lambda>j. block_wf (iso_block (unat sp) B j) 0) [unat lba ..< unat lba + n] \<Longrightarrow>
    \<exists>s'. lookup_loop vol name remaining lba s =
      Some (case find_record name (root_records (unat sp) B (unat lba) n) of None \<Rightarrow> Err | Some lz \<Rightarrow> Ok lz, s') \<and>
      ok s' \<and> blk s' = B"
proof (induction n arbitrary: s remaining lba)
  case 0
  then have "remaining = 0" by (simp add: blocks_of_0 unsigned_eq_0_iff)
  then show ?case using 0(1, 2) by (subst lookup_loop.simps) (simp add: root_records_def err_def)
next
  case (Suc n)
  let ?b = "iso_block (unat sp) B (unat lba)"
  have r: "remaining \<noteq> 0" using Suc(4) by (auto simp: blocks_of_def)
  have "(unat lba + 1) * unat sp \<le> (unat lba + Suc n) * unat sp" by (intro mult_le_mono1) simp
  then have "(unat lba + 1) * unat sp \<le> unat (block_count d)" using Suc(6) by linarith
  from runsE [OF read_block_runs [OF this, of B], of s] Suc(2, 3) obtain s1
    where s1: "iso_read_block d sp lba s = Some (Ok ?b, s1)" "ok s1" "blk s1 = B" by auto
  have wf: "block_wf ?b 0" "list_all (\<lambda>j. block_wf (iso_block (unat sp) B j) 0) [Suc (unat lba) ..< Suc (unat lba) + n]"
    using Suc(7) by (simp_all add: upt_conv_Cons del: upt_Suc)
  have rr: "root_records (unat sp) B (unat lba) (Suc n) = dir_records ?b 0 @ root_records (unat sp) B (Suc (unat lba)) n"
    by (simp add: root_records_def upt_conv_Cons del: upt_Suc)
  have step: "lookup_loop vol name remaining lba s = (case find_record name (dir_records ?b 0) of
      Some lz \<Rightarrow> Some (Ok lz, s1)
    | None \<Rightarrow> if remaining < ISO_BLOCK then Some (Err, s1) else lookup_loop vol name (remaining - ISO_BLOCK) (lba + 1) s1)"
    using r assms by (subst lookup_loop.simps)
      (auto simp: bnd_Ok [where m = "iso_read_block d sp lba", OF s1(1)] scan_block_find [OF wf(1)] ret_def err_def split: option.split)
  show ?case
  proof (cases "find_record name (dir_records ?b 0)")
    case (Some lz)
    then show ?thesis using step s1 rr by (auto simp: find_record_append)
  next
    case None
    show ?thesis
    proof (cases "remaining < ISO_BLOCK")
      case True
      then have "n = 0" using Suc(4) by (auto simp: blocks_of_def ISO_BLOCK_def word_less_nat_alt)
      then show ?thesis using step s1 None rr True by (auto simp: find_record_append root_records_def)
    next
      case False
      then have "unat (remaining - ISO_BLOCK) = unat remaining - 2048" "2048 \<le> unat remaining"
        by (simp_all add: ISO_BLOCK_def unat_sub_no_wrap word_le_nat_alt word_less_nat_alt)
      then have n: "blocks_of (unat (remaining - ISO_BLOCK)) = n" using Suc(4) by (simp add: blocks_of_def)
      show ?thesis
      proof (cases "n = 0")
        case True
        then have "remaining - ISO_BLOCK = 0" using n by (simp add: blocks_of_0 unsigned_eq_0_iff)
        then have "lookup_loop vol name (remaining - ISO_BLOCK) (lba + 1) s1 = Some (Err, s1)"
          by (subst lookup_loop.simps) (simp add: err_def)
        then show ?thesis using step s1 None rr False True by (auto simp: find_record_append root_records_def)
      next
        case n0: False
        then have "unat (lba + 1) = Suc (unat lba)" using Suc(5) by (subst unat_add_no_wrap) auto
        then show ?thesis
          using Suc(1) [OF s1(2, 3) n, of "lba + 1"] Suc(5, 6) wf(2) step None rr False by (auto simp: find_record_append)
      qed
    qed
  qed
qed

end

section \<open>A volume on a stick\<close>

text \<open>The volume descriptor and the root directory as ECMA-119 lays them out: the root directory record is at
  offset 156 of the descriptor.\<close>

definition ecma_root_dir :: nat where "ecma_root_dir = 156"

definition dir_record :: "u32 \<Rightarrow> u32 \<Rightarrow> u8 \<Rightarrow> bytes \<Rightarrow> bytes" where
  "dir_record lba z flags name = [of_nat (33 + length name), 0] @ le32 lba @ replicate 4 0 @ le32 z @ replicate 11 0
     @ [flags, 0, 0] @ replicate 4 0 @ [of_nat (length name)] @ name"

definition iso_image :: "bytes list" where
  "iso_image = replicate 64 (replicate 512 0)
     @ [1 # ascii ''CD001'' @ replicate 150 0 @ dir_record 18 2048 2 [0] @ replicate 322 0] @ replicate 7 (replicate 512 0)
     @ [dir_record 19 3 0 (ascii ''A.TXT;1'') @ replicate 472 0] @ replicate 3 (replicate 512 0)
     @ [[1, 2, 3] @ replicate 509 0] @ replicate 51 (replicate 512 0)"

definition stick_iso :: "stick usb_state canboot_iso" where
  "stick_iso = \<lparr> iso_disk = stick_disk, sectors_per = 4, root_lba = 18, root_size = 2048 \<rparr>"

interpretation stick_iso: iso_volume stick_disk "usb_blk stick_dev" "usb_ok stick_idle" "2 ^ 32" 4
proof -
  have "block_device stick_disk (usb_blk stick_dev) (usb_ok stick_idle) (2 ^ 32)"
    unfolding stick_disk_def by (rule stick.usb.block_device_axioms)
  moreover have "iso_volume_axioms stick_disk (2 ^ 32) 4"
    by (rule iso_volume_axioms.intro) (simp_all add: stick_disk_def usb_disk_def stick_msc_def)
  ultimately show "iso_volume stick_disk (usb_blk stick_dev) (usb_ok stick_idle) (2 ^ 32) 4"
    by (rule iso_volume.intro)
qed

lemma stick_iso_volume:
  "iso_volume stick_disk (usb_blk stick_dev) (usb_ok stick_idle) (2 ^ 32) (sectors_per stick_iso)"
  using stick_iso.iso_volume_axioms by (simp only: stick_iso_def canboot_iso.simps)

lemma length_dir_record [simp]: "length (dir_record lba z flags name) = 33 + length name"
  by (simp add: dir_record_def)

lemma length_iso_image: "length iso_image = 128" "list_all (\<lambda>b. length b = 512) iso_image"
  by (simp_all add: iso_image_def list_all_iff ascii_def)

lemma stick_image_facts:
  "usb_ok stick_idle (stick_state iso_image)" "i < 128 \<Longrightarrow> usb_blk stick_dev (stick_state iso_image) i = iso_image ! i"
  "unat (block_count stick_disk) = 128"
  by (simp_all add: usb_ok_def stick_idle_def stick_state_def usb_blk_def stick_dev_def length_iso_image stick_disk_def
      usb_disk_def stick_msc_def)

lemma iso_image_blocks:
  defines "B \<equiv> usb_blk stick_dev (stick_state iso_image)"
  shows "blocks B 64 4 = (1 # ascii ''CD001'' @ replicate 150 0 @ dir_record 18 2048 2 [0]) @ replicate 1858 0"
    and "blocks B 72 4 = dir_record 19 3 0 (ascii ''A.TXT;1'') @ replicate 2008 0"
    and "blocks B 76 4 = [1, 2, 3] @ replicate 2045 0"
proof -
  have four: "blocks B k 4 = iso_image ! k @ iso_image ! (k + 1) @ iso_image ! (k + 2) @ iso_image ! (k + 3)" if "k + 3 < 128" for k
    using that by (simp add: blocks_def upt_conv_Cons B_def stick_image_facts(2) numeral_3_eq_3)
  show "blocks B 64 4 = (1 # ascii ''CD001'' @ replicate 150 0 @ dir_record 18 2048 2 [0]) @ replicate 1858 0"
    "blocks B 72 4 = dir_record 19 3 0 (ascii ''A.TXT;1'') @ replicate 2008 0"
    "blocks B 76 4 = [1, 2, 3] @ replicate 2045 0"
    by (simp_all add: four iso_image_def nth_append replicate_add [symmetric] del: replicate.simps)
qed

text \<open>C24: reading a file of the volume stores the first bytes of its extent, as many as the file has and the
  caller's buffer holds, and leaves the rest of that buffer and the medium alone. The value returned is their
  number below \<open>2 ^ 31\<close>; from there on it is a negative \<open>int\<close>.\<close>

theorem iso_read_file_exact:
  fixes sz buf_size :: u32
  defines "m \<equiv> min sz buf_size"
  assumes "iso_volume d blk ok max_req (sectors_per vol)" and "iso_disk vol = d" and "ok s"
    and "unat m + 2048 < 2 ^ 32" and "unat m \<le> length buf" and "unat lba + blocks_of (unat m) \<le> 2 ^ 32"
    and "(unat lba + blocks_of (unat m)) * unat (sectors_per vol) \<le> unat (block_count d)"
  shows "\<exists>s'. canboot_iso_read_file (Some vol) lba sz (Some buf) buf_size s =
      Some (Ok (if unat m < 2 ^ 31 then int (unat m) else int (unat m) - 2 ^ 32, put_bytes buf 0 (take (unat m)
        (blocks (blk s) (unat lba * unat (sectors_per vol)) (blocks_of (unat m) * unat (sectors_per vol))))), s') \<and>
    ok s' \<and> blk s' = blk s"
proof -
  have "unat (m + ISO_BLOCK - 1) = unat m + 2047"
  proof -
    have e: "m + ISO_BLOCK - 1 = m + 2047" by (simp add: ISO_BLOCK_def)
    show ?thesis unfolding e by (subst unat_add_no_wrap) (use assms(5) in simp_all)
  qed
  then have n: "unat ((m + ISO_BLOCK - 1) div ISO_BLOCK) = blocks_of (unat m)"
    by (simp add: unat_div_distrib ISO_BLOCK_def blocks_of_def)
  have b: "unat m \<le> blocks_of (unat m) * 2048" "blocks_of (unat m) * 2048 < unat m + 2048"
    using div_mult_mod_eq [of "unat m + 2047" 2048] mod_less_divisor [of 2048 "unat m + 2047"]
    by (simp_all only: blocks_of_def)
  have mm: "(if sz < buf_size then sz else buf_size) = m" by (auto simp: m_def min_def)
  from iso_volume.read_loop_runs [OF assms(2, 3) refl assms(5) b assms(7, 8), of 0 0 buf s] assms(4, 6)
  obtain s' where "read_loop vol lba m [0 ..< blocks_of (unat m)] 0 buf s =
      Some (Ok (m, put_bytes buf 0 (take (unat m) (concat (map (iso_block (unat (sectors_per vol)) (blk s))
        [unat lba ..< unat lba + blocks_of (unat m)])))), s')" "ok s'" "blk s' = blk s" by auto
  moreover have "s32 (uint m) = (if unat m < 2 ^ 31 then int (unat m) else int (unat m) - 2 ^ 32)"
    by (rule s32_uint_cases)
  ultimately show ?thesis by (simp add: canboot_iso_read_file_def mm n iso_blocks Let_def bnd_Ok ret_apply)
qed

theorem iso_read_file_exact_witness:
  "\<exists>s'. canboot_iso_read_file (Some stick_iso) 19 3 (Some [0, 0, 0, 0]) 4 (stick_state iso_image) =
     Some (Ok (3, [1, 2, 3, 0]), s')"
proof -
  have "\<exists>s'. canboot_iso_read_file (Some stick_iso) 19 3 (Some [0, 0, 0, 0]) 4 (stick_state iso_image) =
      Some (Ok (if unat (min 3 4 :: u32) < 2 ^ 31 then int (unat (min 3 4 :: u32)) else int (unat (min 3 4 :: u32)) - 2 ^ 32, put_bytes [0, 0, 0, 0] 0 (take (unat (min 3 4 :: u32))
        (blocks (usb_blk stick_dev (stick_state iso_image)) (unat (19 :: u32) * unat (sectors_per stick_iso))
          (blocks_of (unat (min 3 4 :: u32)) * unat (sectors_per stick_iso))))), s') \<and>
      usb_ok stick_idle s' \<and> usb_blk stick_dev s' = usb_blk stick_dev (stick_state iso_image)"
    by (rule iso_read_file_exact [where d = stick_disk and max_req = "2 ^ 32"])
      (rule stick_iso_volume, simp_all add: stick_iso_def stick_image_facts(1, 3) blocks_of_def)
  then show ?thesis
    by (auto simp: min_def stick_iso_def blocks_of_def iso_image_blocks put_bytes_def)
qed

section \<open>Directories as ECMA-119 lays them out\<close>

text \<open>A directory record: its file identifier, extent and size, and the fields the driver does not look at.\<close>

record iso_entry =
  ir_xattr :: u8
  ir_lba :: u32
  ir_lba_msb :: bytes
  ir_size :: u32
  ir_size_msb :: bytes
  ir_info :: bytes
  ir_ident :: bytes
  ir_system_use :: bytes

definition entry_bytes :: "iso_entry \<Rightarrow> bytes" where
  "entry_bytes e = [of_nat (33 + length (ir_ident e) + length (ir_system_use e)), ir_xattr e] @ le32 (ir_lba e) @ ir_lba_msb e
     @ le32 (ir_size e) @ ir_size_msb e @ ir_info e @ [of_nat (length (ir_ident e))] @ ir_ident e @ ir_system_use e"

definition iso_entry_ok :: "iso_entry \<Rightarrow> bool" where
  "iso_entry_ok e \<longleftrightarrow> length (ir_lba_msb e) = 4 \<and> length (ir_size_msb e) = 4 \<and> length (ir_info e) = 14 \<and>
     33 + length (ir_ident e) + length (ir_system_use e) < 256"

text \<open>A sector holds whole records and is filled up with zeros.\<close>

definition sector_ok :: "iso_entry list \<Rightarrow> bool" where
  "sector_ok es \<longleftrightarrow> list_all iso_entry_ok es \<and> length (concat (map entry_bytes es)) \<le> 2048"

definition sector_bytes :: "iso_entry list \<Rightarrow> bytes" where
  "sector_bytes es = concat (map entry_bytes es) @ replicate (2048 - length (concat (map entry_bytes es))) 0"

text \<open>Two bytes are the same up to case when they are equal or are the two forms of one letter. The name of a
  record is its identifier without the version; the identifiers 0 and 1 are the directory and its parent.\<close>

definition small_letters :: bytes where "small_letters = ascii ''abcdefghijklmnopqrstuvwxyz''"
definition capital_letters :: bytes where "capital_letters = ascii ''ABCDEFGHIJKLMNOPQRSTUVWXYZ''"

definition same_letter :: "u8 \<Rightarrow> u8 \<Rightarrow> bool" where
  "same_letter a b \<longleftrightarrow> a = b \<or> (\<exists>i < 26. {a, b} \<subseteq> {small_letters ! i, capital_letters ! i})"

definition base_name :: "iso_entry \<Rightarrow> bytes" where
  "base_name e = takeWhile (\<lambda>c. c \<noteq> 0x3B) (ir_ident e)"

definition is_called :: "bytes \<Rightarrow> iso_entry \<Rightarrow> bool" where
  "is_called name e \<longleftrightarrow> base_name e \<notin> {[], [0], [1]} \<and> list_all2 same_letter (base_name e) name"

lemma letters:
  assumes "i < 26"
  shows "unat (small_letters ! i) = 97 + i" "unat (capital_letters ! i) = 65 + i"
proof -
  have "list_all (\<lambda>i. unat (small_letters ! i) = 97 + i \<and> unat (capital_letters ! i) = 65 + i) [0 ..< 26]"
    by code_simp
  with assms show "unat (small_letters ! i) = 97 + i" "unat (capital_letters ! i) = 65 + i"
    by (simp_all add: list_all_iff)
qed

lemma unat_iso_upper: "unat (iso_upper c) = (if 97 \<le> unat c \<and> unat c \<le> 122 then unat c - 32 else unat c)"
  by (auto simp: iso_upper_def word_le_nat_alt unat_sub_no_wrap)

lemma same_letter_upper: "iso_upper a = iso_upper b \<longleftrightarrow> same_letter a b"
proof -
  have "same_letter a b \<longleftrightarrow> unat a = unat b \<or>
      (\<exists>i < 26. (unat a = 97 + i \<or> unat a = 65 + i) \<and> (unat b = 97 + i \<or> unat b = 65 + i))"
    by (auto simp: same_letter_def word_unat_eq_iff letters)
  also have "\<dots> \<longleftrightarrow> unat (iso_upper a) = unat (iso_upper b)"
  proof
    assume *: "unat (iso_upper a) = unat (iso_upper b)"
    have "\<exists>i < 26. (unat a = 97 + i \<or> unat a = 65 + i) \<and> (unat b = 97 + i \<or> unat b = 65 + i)" if "unat a \<noteq> unat b"
      by (rule exI [of _ "if 97 \<le> unat a then unat a - 97 else unat a - 65"])
        (use * that in \<open>auto simp: unat_iso_upper split: if_splits\<close>)
    then show "unat a = unat b \<or>
        (\<exists>i < 26. (unat a = 97 + i \<or> unat a = 65 + i) \<and> (unat b = 97 + i \<or> unat b = 65 + i))" by blast
  qed (auto simp: unat_iso_upper)
  finally show ?thesis by (simp add: word_unat_eq_iff)
qed

lemma icase_eq_same: "icase_eq a b \<longleftrightarrow> list_all2 same_letter a b"
  unfolding icase_eq_def
proof (induction a arbitrary: b)
  case (Cons x a)
  then show ?case by (cases b) (auto simp: same_letter_upper)
qed auto

lemma name_matches_called: "name_matches name (base_name e) \<longleftrightarrow> is_called name e"
  by (cases "base_name e") (auto simp: name_matches_def is_called_def icase_eq_same)

lemma length_entry_bytes:
  "iso_entry_ok e \<Longrightarrow> length (entry_bytes e) = 33 + length (ir_ident e) + length (ir_system_use e)"
  by (simp add: entry_bytes_def iso_entry_ok_def)

lemma get_le32_at: "length xs = i \<Longrightarrow> get_le32 (xs @ le32 v @ ys) i = v"
  by (simp add: get_le32_skip get_le32_here)

lemma entry_fields:
  fixes pre rest :: bytes
  assumes "iso_entry_ok e"
  defines "b \<equiv> pre @ entry_bytes e @ rest"
  shows "unat (byte_at b (length pre)) = length (entry_bytes e)" "record_name b (length pre) = Some (base_name e)"
    "get_le32 b (length pre + rec_lba_le) = ir_lba e" "get_le32 b (length pre + rec_size_le) = ir_size e"
proof -
  let ?n = "length (ir_ident e)" and ?l = "33 + length (ir_ident e) + length (ir_system_use e)"
  have ok: "length (ir_lba_msb e) = 4" "length (ir_size_msb e) = 4" "length (ir_info e) = 14" "?l < 256"
    using assms(1) by (simp_all add: iso_entry_ok_def)
  define h where "h = pre @ [of_nat ?l, ir_xattr e] @ le32 (ir_lba e) @ ir_lba_msb e @ le32 (ir_size e) @ ir_size_msb e @ ir_info e"
  have b: "b = h @ [of_nat ?n] @ ir_ident e @ ir_system_use e @ rest"
    by (simp add: b_def entry_bytes_def h_def)
  have h: "length h = length pre + 32" using ok by (simp add: h_def)
  show "unat (byte_at b (length pre)) = length (entry_bytes e)"
    using ok by (simp add: b h_def byte_at_def nth_append length_entry_bytes [OF assms(1)] unat_of_nat del: of_nat_add)
  have "byte_at b (length pre + 32) = of_nat ?n"
    unfolding b using h by (simp add: byte_at_skip) (simp add: byte_at_def)
  moreover have "drop (length pre + 33) b = ir_ident e @ ir_system_use e @ rest"
    unfolding b using h by simp
  moreover have "length pre + 32 < length b" unfolding b using h by simp
  ultimately show "record_name b (length pre) = Some (base_name e)"
    using ok by (simp add: record_name_def rec_name_len_def rec_name_def base_name_def Let_def unat_of_nat)
  have "b = (pre @ [of_nat ?l, ir_xattr e]) @ le32 (ir_lba e) @ ir_lba_msb e @ le32 (ir_size e) @ ir_size_msb e @ ir_info e
      @ [of_nat ?n] @ ir_ident e @ ir_system_use e @ rest" by (simp add: b h_def)
  then show "get_le32 b (length pre + rec_lba_le) = ir_lba e"
    by (simp only:) (rule get_le32_at, simp add: rec_lba_le_def)
  have "b = (pre @ [of_nat ?l, ir_xattr e] @ le32 (ir_lba e) @ ir_lba_msb e) @ le32 (ir_size e) @ ir_size_msb e @ ir_info e
      @ [of_nat ?n] @ ir_ident e @ ir_system_use e @ rest" by (simp add: b h_def)
  then show "get_le32 b (length pre + rec_size_le) = ir_size e"
    by (simp only:) (rule get_le32_at, simp add: rec_size_le_def ok)
qed

lemma sector_records:
  fixes pre :: bytes
  assumes "list_all iso_entry_ok es" "length pre + length (concat (map entry_bytes es)) \<le> 2048"
  defines "b \<equiv> pre @ concat (map entry_bytes es) @ replicate (2048 - (length pre + length (concat (map entry_bytes es)))) 0"
  shows "block_wf b (length pre) \<and> dir_records b (length pre) = map (\<lambda>e. (base_name e, ir_lba e, ir_size e)) es"
  using assms(1, 2) unfolding b_def
proof (induction es arbitrary: pre)
  case Nil
  let ?b = "pre @ concat (map entry_bytes []) @ replicate (2048 - (length pre + length (concat (map entry_bytes [])))) 0"
  have "2048 \<le> length pre \<or> byte_at ?b (length pre) = 0"
    by (auto simp: byte_at_def nth_append)
  then show ?case by (subst block_wf.simps, subst dir_records.simps) simp
next
  case (Cons e es)
  have e: "iso_entry_ok e" using Cons.prems by simp
  let ?rest = "concat (map entry_bytes es) @ replicate (2048 - (length (pre @ entry_bytes e) + length (concat (map entry_bytes es)))) 0"
  let ?b = "pre @ entry_bytes e @ ?rest"
  note f = entry_fields [OF e, of pre ?rest]
  have step: "length pre + unat (byte_at ?b (length pre)) = length (pre @ entry_bytes e)" using f(1) by simp
  have here: "\<not> (2048 \<le> length pre \<or> byte_at ?b (length pre) = 0)"
  proof -
    have "33 \<le> length (entry_bytes e)" using length_entry_bytes [OF e] by simp
    then show ?thesis using Cons.prems(2) f(1) by (auto simp del: f)
  qed
  have "block_wf ((pre @ entry_bytes e) @ ?rest) (length (pre @ entry_bytes e)) \<and>
      dir_records ((pre @ entry_bytes e) @ ?rest) (length (pre @ entry_bytes e)) = map (\<lambda>e. (base_name e, ir_lba e, ir_size e)) es"
    by (rule Cons.IH) (use Cons.prems in simp_all)
  then have tail: "block_wf ?b (length (pre @ entry_bytes e))"
      "dir_records ?b (length (pre @ entry_bytes e)) = map (\<lambda>e. (base_name e, ir_lba e, ir_size e)) es"
    by (simp_all only: append_assoc)
  have "block_wf ?b (length pre)"
    using here tail(1) f(2) step by (subst block_wf.simps) simp
  moreover have "dir_records ?b (length pre) = map (\<lambda>e. (base_name e, ir_lba e, ir_size e)) (e # es)"
    using here tail(2) f(2-4) step by (subst dir_records.simps) simp
  ultimately show ?case by (simp add: add.assoc)
qed

lemma sector_dir_records:
  assumes "sector_ok es"
  shows "block_wf (sector_bytes es) 0" "dir_records (sector_bytes es) 0 = map (\<lambda>e. (base_name e, ir_lba e, ir_size e)) es"
  using sector_records [of es "[]"] assms by (simp_all add: sector_ok_def sector_bytes_def)

lemma find_record_called:
  "find_record name (map (\<lambda>e. (base_name e, ir_lba e, ir_size e)) es) =
     map_option (\<lambda>e. (ir_lba e, ir_size e)) (find (is_called name) es)"
  by (induction es) (simp_all add: name_matches_called)

text \<open>C13: on a root directory laid out as ECMA-119 says, looking up a name returns the block number and size of the
  first record, in the order of the sectors, whose identifier without its version is that name, small and
  capital letters being the same; it returns false when there is none, and it always returns.\<close>

theorem iso_lookup_first_match:
  assumes "iso_volume d blk ok max_req (sectors_per vol)" and "iso_disk vol = d" and "ok s"
    and "length dir = blocks_of (unat (root_size vol))" and "unat (root_lba vol) + length dir \<le> 2 ^ 32"
    and "(unat (root_lba vol) + length dir) * unat (sectors_per vol) \<le> unat (block_count d)"
    and "list_all sector_ok dir"
    and "map (iso_block (unat (sectors_per vol)) (blk s)) [unat (root_lba vol) ..< unat (root_lba vol) + length dir]
      = map sector_bytes dir"
  shows "\<exists>s'. canboot_iso_lookup (Some vol) (Some name) s =
    Some (case find (is_called name) (concat dir) of None \<Rightarrow> Err | Some e \<Rightarrow> Ok (ir_lba e, ir_size e), s') \<and>
    ok s' \<and> blk s' = blk s"
proof -
  let ?B = "iso_block (unat (sectors_per vol)) (blk s)" and ?js = "[unat (root_lba vol) ..< unat (root_lba vol) + length dir]"
  have "list_all (\<lambda>b. block_wf b 0) (map sector_bytes dir)"
    using assms(7) sector_dir_records(1) by (auto simp: list_all_iff)
  then have "list_all (\<lambda>b. block_wf b 0) (map ?B ?js)" by (simp only: assms(8))
  then have wf: "list_all (\<lambda>j. block_wf (?B j) 0) ?js" by (simp add: list_all_iff)
  have "map (\<lambda>b. dir_records b 0) (map ?B ?js) = map (\<lambda>es. map (\<lambda>e. (base_name e, ir_lba e, ir_size e)) es) dir"
    unfolding assms(8) using assms(7) sector_dir_records(2) by (simp add: list_all_iff)
  then have "root_records (unat (sectors_per vol)) (blk s) (unat (root_lba vol)) (length dir)
      = map (\<lambda>e. (base_name e, ir_lba e, ir_size e)) (concat dir)"
    by (simp add: root_records_def map_concat o_def)
  then have "find_record name (root_records (unat (sectors_per vol)) (blk s) (unat (root_lba vol)) (length dir))
      = map_option (\<lambda>e. (ir_lba e, ir_size e)) (find (is_called name) (concat dir))"
    by (simp only: find_record_called)
  then show ?thesis
    using iso_volume.lookup_loop_finds [OF assms(1, 2) refl assms(3) refl refl, of "root_lba vol" "root_size vol" name] assms(5, 6) wf
    unfolding assms(4) [symmetric]
    by (cases "find (is_called name) (concat dir)") (simp_all add: canboot_iso_lookup_def)
qed

definition a_txt :: iso_entry where
  "a_txt = \<lparr> ir_xattr = 0, ir_lba = 19, ir_lba_msb = replicate 4 0, ir_size = 3, ir_size_msb = replicate 4 0,
     ir_info = replicate 14 0, ir_ident = ascii ''A.TXT;1'', ir_system_use = [] \<rparr>"

lemma stick_root_block: "iso_block 4 (usb_blk stick_dev (stick_state iso_image)) 18 = sector_bytes [a_txt]" "sector_ok [a_txt]"
proof -
  have "entry_bytes a_txt = dir_record 19 3 0 (ascii ''A.TXT;1'')"
    by (simp add: entry_bytes_def a_txt_def dir_record_def ascii_def numeral_eq_Suc)
  then show "iso_block 4 (usb_blk stick_dev (stick_state iso_image)) 18 = sector_bytes [a_txt]"
    unfolding iso_block_def using iso_image_blocks(2) by (simp add: sector_bytes_def ascii_def)
  show "sector_ok [a_txt]"
    by (simp add: sector_ok_def iso_entry_ok_def entry_bytes_def a_txt_def ascii_def)
qed

theorem iso_lookup_first_match_witness:
  "\<exists>s'. canboot_iso_lookup (Some stick_iso) (Some (ascii ''a.Txt'')) (stick_state iso_image) = Some (Ok (19, 3), s')"
proof -
  have g: "unat (sectors_per stick_iso) = 4" "unat (root_lba stick_iso) = 18" "length [[a_txt]] = blocks_of (unat (root_size stick_iso))"
    "iso_disk stick_iso = stick_disk" by (simp_all add: stick_iso_def blocks_of_def)
  have lba: "ir_lba a_txt = 19" "ir_size a_txt = 3" by (simp_all add: a_txt_def)
  have n: "base_name a_txt = ascii ''A.TXT''" by (simp add: base_name_def a_txt_def ascii_def)
  have "is_called (ascii ''a.Txt'') a_txt"
    unfolding is_called_def n icase_eq_same [symmetric] by (simp add: icase_eq_def iso_upper_def ascii_def)
  then have "find (is_called (ascii ''a.Txt'')) (concat [[a_txt]]) = Some a_txt" by simp
  with iso_lookup_first_match [OF stick_iso_volume g(4) stick_image_facts(1) g(3), of "ascii ''a.Txt''"] show ?thesis
    by (auto simp: g stick_image_facts(3) stick_root_block lba)
qed

text \<open>C37: on a volume laid out as ECMA-119 says, \<open>canboot_iso_open\<close> takes the size field of the root directory
  record for its block number, and bytes of its date for its size: the field \<open>root_dir\<close> of
  \<open>struct iso_pvd\<close> is eight bytes too far.\<close>

theorem iso_open_misreads_root:
  assumes "iso_volume d blk ok max_req sp" and "sp = ISO_BLOCK div block_size d" and "ok s"
    and "17 * unat sp \<le> unat (block_count d)"
    and "byte_at (iso_block (unat sp) (blk s) 16) 0 = 1" and "take 5 (drop 1 (iso_block (unat sp) (blk s) 16)) = ascii ''CD001''"
  shows "\<exists>s' vol. canboot_iso_open (Some d) s = Some (Ok vol, s') \<and> blk s' = blk s \<and>
    root_lba vol = get_le32 (iso_block (unat sp) (blk s) 16) (ecma_root_dir + rec_size_le) \<and>
    root_size vol = get_le32 (iso_block (unat sp) (blk s) 16) (ecma_root_dir + rec_size_le + 8)"
proof -
  have "(unat PVD_LBA + 1) * unat sp \<le> unat (block_count d)" using assms(4) by (simp add: PVD_LBA_def)
  from runsE [OF iso_volume.read_block_runs [OF assms(1) this, of "blk s"], of s] assms(3) obtain s' where
    s': "iso_read_block d sp PVD_LBA s = Some (Ok (iso_block (unat sp) (blk s) 16), s')" "blk s' = blk s"
    by (auto simp: PVD_LBA_def)
  have "block_size d \<noteq> 0" "sp \<noteq> 0"
    using iso_volume.iso_geometry [OF assms(1)] by auto
  then show ?thesis
    using s' assms(2, 5, 6)
    by (auto simp: canboot_iso_open_def Let_def bnd_Ok ret_def ecma_root_dir_def rec_size_le_def rec_lba_le_def pvd_root_dir_def)
qed

theorem iso_open_misreads_root_witness:
  "\<exists>s' vol. canboot_iso_open (Some stick_disk) (stick_state iso_image) = Some (Ok vol, s') \<and> root_lba vol = 2048 \<and> root_size vol = 0"
proof -
  let ?b = "iso_block 4 (usb_blk stick_dev (stick_state iso_image)) 16"
  have b: "?b = (1 # ascii ''CD001'' @ replicate 150 0 @ [34, 0] @ le32 18 @ replicate 4 0) @ le32 2048 @ replicate 4 0
      @ replicate 7 0 @ [2, 0, 0] @ replicate 4 0 @ [1, 0] @ replicate 1858 0"
    unfolding iso_block_def using iso_image_blocks(1) by (simp add: dir_record_def numeral_eq_Suc)
  have l: "length (1 # ascii ''CD001'' @ replicate 150 0 @ [34, 0] @ le32 18 @ replicate 4 (0 :: u8)) = 166" by (simp add: ascii_def)
  have g: "get_le32 ?b 166 = 2048" unfolding b using l by (simp only: get_le32_skip) (simp add: layout_simps)
  have z: "get_le32 ?b 174 = 0"
    unfolding b using l by (simp only: get_le32_skip) (simp add: get_le32_skip get_le32_def byte_at_def nth_append numeral_eq_Suc)
  have "byte_at ?b 0 = 1" "take 5 (drop 1 ?b) = ascii ''CD001''" unfolding b by (simp_all add: byte_at_def ascii_def)
  with iso_open_misreads_root [OF stick_iso.iso_volume_axioms _ stick_image_facts(1)] show ?thesis
    by (auto simp: stick_image_facts(3) g z ecma_root_dir_def rec_size_le_def ISO_BLOCK_def stick_disk_def usb_disk_def stick_msc_def)
qed

end
