(* ===== verification/Rtc.thy ===== *)
theory Rtc
  imports Canboot_Prelude
begin

text \<open>
  The CMOS real-time clock of \<open>arch/x86_64/rtc.c\<close>: consistent reading of the clock registers, decoding
  of BCD and 12-hour values, and the seconds since the Unix epoch. Port access is the pair of
  parameters \<open>inb\<close> and \<open>outb\<close> over the hardware state \<open>'h\<close>.
\<close>

section \<open>The code\<close>

record 'h ports =
  inb :: "u16 \<Rightarrow> 'h \<Rightarrow> u8 \<times> 'h"
  outb :: "u16 \<Rightarrow> u8 \<Rightarrow> 'h \<Rightarrow> 'h"

definition RTC_SECONDS :: u8 where "RTC_SECONDS = 0x00"
definition RTC_MINUTES :: u8 where "RTC_MINUTES = 0x02"
definition RTC_HOURS :: u8 where "RTC_HOURS = 0x04"
definition RTC_DAY :: u8 where "RTC_DAY = 0x07"
definition RTC_MONTH :: u8 where "RTC_MONTH = 0x08"
definition RTC_YEAR :: u8 where "RTC_YEAR = 0x09"
definition RTC_CENTURY :: u8 where "RTC_CENTURY = 0x32"
definition RTC_STATUS_A :: u8 where "RTC_STATUS_A = 0x0A"
definition RTC_STATUS_B :: u8 where "RTC_STATUS_B = 0x0B"

definition cmos_read :: "'h ports \<Rightarrow> u8 \<Rightarrow> 'h \<Rightarrow> u8 \<times> 'h" where
  "cmos_read p reg h = inb p 0x71 (outb p 0x70 (reg AND 0x7F) h)"

definition update_in_progress :: "'h ports \<Rightarrow> 'h \<Rightarrow> bool \<times> 'h" where
  "update_in_progress p h = (let (v, h) = cmos_read p RTC_STATUS_A h in (v AND 0x80 \<noteq> 0, h))"

definition bcd_to_bin :: "u8 \<Rightarrow> u8" where
  "bcd_to_bin v = (v AND 0x0F) + drop_bit 4 v * 10"

primrec wait_update :: "'h ports \<Rightarrow> nat \<Rightarrow> 'h \<Rightarrow> 'h" where
  "wait_update p 0 h = h"
| "wait_update p (Suc guard) h = (let (busy, h) = update_in_progress p h in if busy then wait_update p guard h else h)"

record rtc_regs =
  sec :: u8
  minute :: u8
  hour :: u8
  day :: u8
  mon :: u8
  yr :: u8
  cent :: u8

definition read_regs :: "'h ports \<Rightarrow> 'h \<Rightarrow> rtc_regs \<times> 'h" where
  "read_regs p h =
    (let h = wait_update p 1000000 h;
         (se, h) = cmos_read p RTC_SECONDS h;
         (mi, h) = cmos_read p RTC_MINUTES h;
         (ho, h) = cmos_read p RTC_HOURS h;
         (da, h) = cmos_read p RTC_DAY h;
         (mo, h) = cmos_read p RTC_MONTH h;
         (ye, h) = cmos_read p RTC_YEAR h;
         (ce, h) = cmos_read p RTC_CENTURY h in
     (\<lparr> sec = se, minute = mi, hour = ho, day = da, mon = mo, yr = ye, cent = ce \<rparr>, h))"

text \<open>The do-while loop: \<open>left\<close> more passes are allowed after this one.\<close>

primrec sample_loop :: "'h ports \<Rightarrow> nat \<Rightarrow> rtc_regs \<Rightarrow> 'h \<Rightarrow> rtc_regs \<times> 'h" where
  "sample_loop p 0 last_r h = read_regs p h"
| "sample_loop p (Suc left) last_r h =
    (let (r, h) = read_regs p h in if r \<noteq> last_r then sample_loop p left r h else (r, h))"

record canboot_datetime =
  dt_year :: int
  dt_month :: int
  dt_day :: int
  dt_hour :: int
  dt_minute :: int
  dt_second :: int

text \<open>From the registers and status register B to a date, or \<open>None\<close> for a bogus read.\<close>

definition decode_regs :: "u8 \<Rightarrow> rtc_regs \<Rightarrow> canboot_datetime option" where
  "decode_regs stb r =
    (let h24 = (stb AND 0x02 \<noteq> 0);
         pm = (\<not> h24 \<and> hour r AND 0x80 \<noteq> 0);
         r = (if pm then r\<lparr> hour := hour r AND 0x7F \<rparr> else r);
         r = (if stb AND 0x04 = 0
              then \<lparr> sec = bcd_to_bin (sec r), minute = bcd_to_bin (minute r), hour = bcd_to_bin (hour r),
                     day = bcd_to_bin (day r), mon = bcd_to_bin (mon r), yr = bcd_to_bin (yr r), cent = bcd_to_bin (cent r) \<rparr>
              else r);
         r = (if \<not> h24 then
                let r = (if pm \<and> hour r \<noteq> 12 then r\<lparr> hour := hour r + 12 \<rparr> else r) in
                if \<not> pm \<and> hour r = 12 then r\<lparr> hour := 0 \<rparr> else r
              else r);
         year = (if 19 \<le> cent r \<and> cent r \<le> 21 then uint (cent r) * 100 + uint (yr r) else 2000 + uint (yr r)) in
     if mon r < 1 \<or> 12 < mon r \<or> day r < 1 \<or> 31 < day r \<or> 23 < hour r \<or> 59 < minute r \<or> 59 < sec r
        \<or> year < 1970 \<or> 2200 < year then None
     else Some \<lparr> dt_year = year, dt_month = uint (mon r), dt_day = uint (day r), dt_hour = uint (hour r),
                 dt_minute = uint (minute r), dt_second = uint (sec r) \<rparr>)"

definition canboot_rtc_read :: "'h ports \<Rightarrow> 'h \<Rightarrow> canboot_datetime option \<times> 'h" where
  "canboot_rtc_read p h =
    (let h = wait_update p 1000000 h;
         (r, h) = sample_loop p 16 \<lparr> sec = 0, minute = 0, hour = 0, day = 0, mon = 0, yr = 0, cent = 0 \<rparr> h;
         (stb, h) = cmos_read p RTC_STATUS_B h in
     (decode_regs stb r, h))"

definition leap :: "int \<Rightarrow> bool" where
  "leap y \<longleftrightarrow> y mod 4 = 0 \<and> y mod 100 \<noteq> 0 \<or> y mod 400 = 0"

definition mdays :: "int list" where
  "mdays = [31, 28, 31, 30, 31, 30, 31, 31, 30, 31, 30, 31]"

definition days_from_civil :: "int \<Rightarrow> int \<Rightarrow> int \<Rightarrow> int" where
  "days_from_civil y m d =
     (\<Sum>yr\<leftarrow>[1970 .. y - 1]. if leap yr then 366 else 365) +
     (\<Sum>mo\<leftarrow>[1 .. m - 1]. mdays ! nat (mo - 1) + (if mo = 2 \<and> leap y then 1 else 0)) + (d - 1)"

definition canboot_wall_epoch :: "'h ports \<Rightarrow> 'h \<Rightarrow> u64 \<times> 'h" where
  "canboot_wall_epoch p h = (case canboot_rtc_read p h of
      (None, h) \<Rightarrow> (0, h)
    | (Some t, h) \<Rightarrow>
        (word_of_int (days_from_civil (dt_year t) (dt_month t) (dt_day t)) * 86400 + word_of_int (dt_hour t) * 3600 +
         word_of_int (dt_minute t) * 60 + word_of_int (dt_second t), h))"

section \<open>The calendar\<close>

text \<open>The Gregorian calendar, stated without reference to the code: every fourth year has a leap day, but of the
  years that end a century only every fourth one. Then the number of days of a month, and the day after a day.\<close>

definition gregorian_leap_year :: "int \<Rightarrow> bool" where
  "gregorian_leap_year y \<longleftrightarrow> (if 100 dvd y then 4 dvd y div 100 else 4 dvd y)"

definition month_length :: "int \<Rightarrow> int \<Rightarrow> int" where
  "month_length y m = (if m = 2 then if gregorian_leap_year y then 29 else 28 else if m \<in> {4, 6, 9, 11} then 30 else 31)"

lemma leap_gregorian: "leap y = gregorian_leap_year y"
proof (cases "100 dvd y")
  case True
  then obtain k where "y = 100 * k" by (rule dvdE)
  then show ?thesis
    by (simp add: leap_def gregorian_leap_year_def mod_eq_0_iff_dvd flip: dvd_eq_mod_eq_0) presburger
next
  case False
  then have "\<not> 400 dvd y" by (auto dest: dvd_trans [of 100 400, rotated])
  with False show ?thesis by (simp add: leap_def gregorian_leap_year_def dvd_eq_mod_eq_0)
qed

fun next_day :: "int \<times> int \<times> int \<Rightarrow> int \<times> int \<times> int" where
  "next_day (y, m, d) =
    (if d < month_length y m then (y, m, d + 1) else if m < 12 then (y, m + 1, 1) else (y + 1, 1, 1))"

definition nth_day :: "nat \<Rightarrow> int \<times> int \<times> int" where
  "nth_day n = (next_day ^^ n) (1970, 1, 1)"

definition valid_day :: "int \<times> int \<times> int \<Rightarrow> bool" where
  "valid_day t \<longleftrightarrow> (case t of (y, m, d) \<Rightarrow> 1970 \<le> y \<and> 1 \<le> m \<and> m \<le> 12 \<and> 1 \<le> d \<and> d \<le> month_length y m)"

lemma valid_next_day: "valid_day t \<Longrightarrow> valid_day (next_day t)"
  by (cases t) (auto simp: valid_day_def month_length_def)

lemma valid_nth_day: "valid_day (nth_day n)"
proof (induction n)
  case 0
  show ?case by (simp add: nth_day_def valid_day_def month_length_def)
next
  case (Suc n)
  then show ?case using valid_next_day [of "nth_day n"] by (simp add: nth_day_def)
qed

lemma upto_snoc: "i \<le> j \<Longrightarrow> [i .. j] = [i .. j - 1] @ [j]"
  by (rule upto_rec2)

lemma month_days:
  assumes "1 \<le> m" and "m \<le> 12"
  shows "mdays ! nat (m - 1) + (if m = 2 \<and> leap y then 1 else 0) = month_length y m"
proof -
  have "m \<in> set [1 .. 12]" using assms by simp
  then show ?thesis unfolding upto.simps [of 1] by (auto simp: upto.simps mdays_def month_length_def leap_gregorian)
qed

lemma days_next_month: "1 \<le> m \<Longrightarrow> m \<le> 12 \<Longrightarrow> days_from_civil y (m + 1) 1 = days_from_civil y m (month_length y m) + 1"
  using month_days [of m y] upto_snoc [of 1 m] by (simp add: days_from_civil_def)

lemma days_next_year: "1970 \<le> y \<Longrightarrow> days_from_civil (y + 1) 1 1 = days_from_civil y 13 1"
  using upto_snoc [of 1970 y] by (simp add: days_from_civil_def upto.simps mdays_def)

lemma days_next_day: "valid_day (y, m, d) \<Longrightarrow> (case next_day (y, m, d) of (y', m', d') \<Rightarrow> days_from_civil y' m' d' = days_from_civil y m d + 1)"
proof -
  assume v: "valid_day (y, m, d)"
  consider "d < month_length y m" | "d = month_length y m" "m < 12" | "d = month_length y m" "m = 12"
    using v by (fastforce simp: valid_day_def)
  then show ?thesis
  proof cases
    case 1
    then show ?thesis by (simp add: days_from_civil_def)
  next
    case 2
    then show ?thesis using v days_next_month [of m y] by (simp add: valid_day_def)
  next
    case 3
    then show ?thesis using v days_next_month [of 12 y] days_next_year [of y] by (simp add: valid_day_def)
  qed
qed

lemma days_counted: "(case nth_day n of (y, m, d) \<Rightarrow> days_from_civil y m d) = int n"
proof (induction n)
  case 0
  show ?case by (simp add: nth_day_def days_from_civil_def)
next
  case (Suc n)
  obtain y m d where t: "nth_day n = (y, m, d)" using prod_cases3 by blast
  have s: "nth_day (Suc n) = next_day (y, m, d)" using t by (simp add: nth_day_def)
  show ?case using days_next_day [of y m d] valid_nth_day [of n] Suc unfolding s t by (auto split: prod.splits)
qed

text \<open>C26: \<open>days_from_civil\<close> counts days: the day reached from 1 January 1970 by going to the next day of the
  Gregorian calendar \<open>n\<close> times is day number \<open>n\<close>.\<close>

theorem days_from_civil_counts:
  "(case nth_day n of (y, m, d) \<Rightarrow> days_from_civil y m d) = int n"
  by (rule days_counted)

section \<open>Reading the clock\<close>

text \<open>A clock that does not advance while it is read: every read of register \<open>r\<close> gives \<open>R r\<close>.\<close>

definition steady :: "'h ports \<Rightarrow> ('h \<Rightarrow> bool) \<Rightarrow> (u8 \<Rightarrow> u8) \<Rightarrow> bool" where
  "steady p ok R \<longleftrightarrow> (\<forall>h r. ok h \<longrightarrow> fst (cmos_read p r h) = R r \<and> ok (snd (cmos_read p r h)))"

definition bcd :: "int \<Rightarrow> u8" where
  "bcd v = word_of_int (v div 10 * 16 + v mod 10)"

text \<open>How status register B says that a number and the hour are stored.\<close>

definition clock_num :: "u8 \<Rightarrow> int \<Rightarrow> u8" where
  "clock_num stb v = (if stb AND 0x04 \<noteq> 0 then word_of_int v else bcd v)"

definition clock_hour :: "u8 \<Rightarrow> int \<Rightarrow> u8" where
  "clock_hour stb v =
    (if stb AND 0x02 \<noteq> 0 then clock_num stb v
     else clock_num stb (if v mod 12 = 0 then 12 else v mod 12) OR (if 12 \<le> v then 0x80 else 0))"

definition shows_time :: "(u8 \<Rightarrow> u8) \<Rightarrow> int \<times> int \<times> int \<Rightarrow> int \<Rightarrow> int \<Rightarrow> int \<Rightarrow> bool" where
  "shows_time R t ho mi se \<longleftrightarrow> (case t of (y, m, d) \<Rightarrow>
     let stb = R RTC_STATUS_B in
     R RTC_STATUS_A AND 0x80 = 0 \<and> R RTC_SECONDS = clock_num stb se \<and> R RTC_MINUTES = clock_num stb mi \<and>
     R RTC_HOURS = clock_hour stb ho \<and> R RTC_DAY = clock_num stb d \<and> R RTC_MONTH = clock_num stb m \<and>
     R RTC_YEAR = clock_num stb (y mod 100) \<and> R RTC_CENTURY = clock_num stb (y div 100))"

lemma steadyD:
  assumes "steady p ok R" and "ok h"
  shows "cmos_read p r h = (R r, snd (cmos_read p r h))" "ok (snd (cmos_read p r h))"
  using assms by (auto simp: steady_def prod_eq_iff)

lemma wait_update_steady:
  assumes "steady p ok R" and "ok h"
  shows "ok (wait_update p n h)"
  using assms(2)
proof (induction n arbitrary: h)
  case (Suc n)
  then show ?case using steadyD [OF assms(1) Suc(2), of RTC_STATUS_A]
    by (auto simp: update_in_progress_def split: prod.split)
qed simp

definition regs_of :: "(u8 \<Rightarrow> u8) \<Rightarrow> rtc_regs" where
  "regs_of R = \<lparr> sec = R RTC_SECONDS, minute = R RTC_MINUTES, hour = R RTC_HOURS, day = R RTC_DAY, mon = R RTC_MONTH,
     yr = R RTC_YEAR, cent = R RTC_CENTURY \<rparr>"

lemma read_regs_steady:
  assumes "steady p ok R" and "ok h"
  shows "fst (read_regs p h) = regs_of R \<and> ok (snd (read_regs p h))"
proof -
  have "ok (wait_update p 1000000 h)" by (rule wait_update_steady [OF assms])
  then show ?thesis using assms(1)
    by (simp add: read_regs_def regs_of_def Let_def split_beta steady_def)
qed

lemma sample_loop_steady:
  assumes "steady p ok R"
  shows "ok h \<Longrightarrow> fst (sample_loop p left r h) = regs_of R \<and> ok (snd (sample_loop p left r h))"
proof (induction left arbitrary: r h)
  case 0
  then show ?case using read_regs_steady [OF assms] by simp
next
  case (Suc left)
  then show ?case using read_regs_steady [OF assms Suc(2)] by (auto simp: Let_def split_beta)
qed

text \<open>Decoding one number and the hour.\<close>

definition dec_num :: "bool \<Rightarrow> u8 \<Rightarrow> u8" where
  "dec_num bin x = (if bin then x else bcd_to_bin x)"

definition dec_hour :: "bool \<Rightarrow> bool \<Rightarrow> u8 \<Rightarrow> u8" where
  "dec_hour h24 bin x =
    (let pm = (\<not> h24 \<and> x AND 0x80 \<noteq> 0);
         x = dec_num bin (if pm then x AND 0x7F else x) in
     if h24 then x else if pm then if x \<noteq> 12 then x + 12 else x else if x = 12 then 0 else x)"

lemma decode_parts:
  fixes r :: rtc_regs and stb :: u8
  defines "n \<equiv> dec_num (stb AND 0x04 \<noteq> 0)" and "ho \<equiv> dec_hour (stb AND 0x02 \<noteq> 0) (stb AND 0x04 \<noteq> 0) (hour r)"
  defines "year \<equiv> (if 19 \<le> n (cent r) \<and> n (cent r) \<le> 21 then uint (n (cent r)) * 100 + uint (n (yr r)) else 2000 + uint (n (yr r)))"
  shows "decode_regs stb r =
    (if n (mon r) < 1 \<or> 12 < n (mon r) \<or> n (day r) < 1 \<or> 31 < n (day r) \<or> 23 < ho \<or> 59 < n (minute r) \<or> 59 < n (sec r)
        \<or> year < 1970 \<or> 2200 < year then None
     else Some \<lparr> dt_year = year, dt_month = uint (n (mon r)), dt_day = uint (n (day r)), dt_hour = uint ho,
                 dt_minute = uint (n (minute r)), dt_second = uint (n (sec r)) \<rparr>)"
  unfolding assms
  by (cases "stb AND 0x02 = 0"; cases "stb AND 0x04 = 0"; cases "hour r AND 0x80 = 0")
    (simp_all add: decode_regs_def dec_num_def dec_hour_def Let_def)

lemma num_codes: "list_all (\<lambda>v. bcd_to_bin (bcd v) = word_of_int v) [0 .. 99]"
  by code_simp

lemma hour_codes:
  "list_all (\<lambda>v. list_all (\<lambda>bin. let num = (\<lambda>v. if bin then word_of_int v else bcd v) in
     dec_hour True bin (num v) = word_of_int v \<and>
     dec_hour False bin (num (if v mod 12 = 0 then 12 else v mod 12) OR (if 12 \<le> v then 0x80 else 0)) = word_of_int v)
     [True, False]) [0 .. 23]"
  by code_simp

lemma dec_num_clock: "0 \<le> v \<Longrightarrow> v < 100 \<Longrightarrow> dec_num (stb AND 0x04 \<noteq> 0) (clock_num stb v) = word_of_int v"
  using num_codes by (auto simp: dec_num_def clock_num_def list_all_iff)

lemma dec_hour_clock:
  "0 \<le> v \<Longrightarrow> v < 24 \<Longrightarrow> dec_hour (stb AND 0x02 \<noteq> 0) (stb AND 0x04 \<noteq> 0) (clock_hour stb v) = word_of_int v"
  using hour_codes by (auto simp: clock_hour_def clock_num_def list_all_iff Let_def)

lemma small_byte: "0 \<le> v \<Longrightarrow> v < 256 \<Longrightarrow> uint (word_of_int v :: u8) = v"
  by (simp add: uint_word_of_int)

lemma decode_shown:
  assumes "shows_time R (y, m, d) ho mi se" and "valid_day (y, m, d)" and "y < 2200"
    and "0 \<le> ho" "ho < 24" "0 \<le> mi" "mi < 60" "0 \<le> se" "se < 60"
  shows "decode_regs (R RTC_STATUS_B) (regs_of R) =
    Some \<lparr> dt_year = y, dt_month = m, dt_day = d, dt_hour = ho, dt_minute = mi, dt_second = se \<rparr>"
proof -
  have v: "1970 \<le> y" "1 \<le> m" "m \<le> 12" "1 \<le> d" "d \<le> 31" using assms(2) by (auto simp: valid_day_def month_length_def split: if_splits)
  have c: "19 \<le> y div 100" "y div 100 \<le> 21" "0 \<le> y mod 100" "y mod 100 < 100" using v(1) assms(3) by auto
  let ?stb = "R RTC_STATUS_B" and ?r = "regs_of R"
  let ?n = "dec_num (?stb AND 0x04 \<noteq> 0)" and ?h = "dec_hour (?stb AND 0x02 \<noteq> 0) (?stb AND 0x04 \<noteq> 0) (hour ?r)"
  have r: "sec ?r = clock_num ?stb se" "minute ?r = clock_num ?stb mi" "hour ?r = clock_hour ?stb ho" "day ?r = clock_num ?stb d"
    "mon ?r = clock_num ?stb m" "yr ?r = clock_num ?stb (y mod 100)" "cent ?r = clock_num ?stb (y div 100)"
    using assms(1) by (simp_all add: shows_time_def regs_of_def Let_def)
  have u: "uint (?n (clock_num ?stb v)) = v" if "0 \<le> v" "v < 100" for v
    using dec_num_clock [OF that, of ?stb] small_byte [of v] that by simp
  have n: "uint (?n (sec ?r)) = se" "uint (?n (minute ?r)) = mi" "uint (?n (day ?r)) = d" "uint (?n (mon ?r)) = m"
    "uint (?n (yr ?r)) = y mod 100" "uint (?n (cent ?r)) = y div 100"
    unfolding r by (rule u; use v c assms(4-9) in linarith)+
  have h: "uint ?h = ho" unfolding r using dec_hour_clock [OF assms(4, 5), of ?stb] small_byte [of ho] assms(4, 5) by simp
  have k: "uint (19 :: u8) = 19" "uint (21 :: u8) = 21" by simp_all
  have y: "(if 19 \<le> y div 100 \<and> y div 100 \<le> 21 then y div 100 * 100 + y mod 100 else 2000 + y mod 100) = y"
    using c div_mult_mod_eq [of y 100] by (simp only: simp_thms if_True)
  show ?thesis
    unfolding decode_parts word_less_def word_le_def n h k y using v assms(3-9) by simp
qed

text \<open>C32: with a steady clock that shows a day of the years 1970 to 2199 and a time of day, stored in binary or BCD
  and in 24-hour or 12-hour form as status register B says, \<open>canboot_wall_epoch\<close> returns the seconds from the
  start of 1 January 1970 to that time.\<close>

theorem wall_epoch_reads_clock:
  assumes "steady p ok R" and "ok h" and "shows_time R (nth_day n) ho mi se" and "fst (nth_day n) < 2200"
    and "0 \<le> ho" "ho < 24" "0 \<le> mi" "mi < 60" "0 \<le> se" "se < 60"
  shows "fst (canboot_wall_epoch p h) = word_of_int (int n * 86400 + ho * 3600 + mi * 60 + se)"
proof -
  obtain y m d where t: "nth_day n = (y, m, d)" using prod_cases3 by blast
  have dec: "decode_regs (R RTC_STATUS_B) (regs_of R) =
      Some \<lparr> dt_year = y, dt_month = m, dt_day = d, dt_hour = ho, dt_minute = mi, dt_second = se \<rparr>"
    using assms(3-10) valid_nth_day [of n] t by (intro decode_shown) simp_all
  have days: "days_from_civil y m d = int n" using days_counted [of n] t by simp
  let ?h = "wait_update p 1000000 h"
  have "ok ?h" by (rule wait_update_steady [OF assms(1, 2)])
  note s = sample_loop_steady [OF assms(1) this, of 16]
  have "fst (cmos_read p RTC_STATUS_B (snd (sample_loop p 16 r ?h))) = R RTC_STATUS_B" for r
    using steadyD(1) [OF assms(1) s [THEN conjunct2]] by (metis fst_conv)
  then have "fst (canboot_rtc_read p h) = decode_regs (R RTC_STATUS_B) (regs_of R)"
    using s by (simp add: canboot_rtc_read_def Let_def split_beta)
  then obtain h' where "canboot_rtc_read p h =
      (Some \<lparr> dt_year = y, dt_month = m, dt_day = d, dt_hour = ho, dt_minute = mi, dt_second = se \<rparr>, h')"
    using dec by (metis prod.collapse)
  then show ?thesis by (simp add: canboot_wall_epoch_def days)
qed

text \<open>A clock that holds its registers in its state.\<close>

definition cmos_ports :: "(u8 \<times> (u8 \<Rightarrow> u8)) ports" where
  "cmos_ports = \<lparr> inb = (\<lambda>_ (i, R). (R i, (i, R))), outb = (\<lambda>_ v (_, R). (v, R)) \<rparr>"

definition noon_regs :: "u8 \<Rightarrow> u8" where
  "noon_regs r = (if r = RTC_HOURS then 0x92 else if r = RTC_DAY then 1 else if r = RTC_MONTH then 3 else if r = RTC_YEAR then 0x70
     else if r = RTC_CENTURY then 0x19 else 0)"

lemma march_first: "nth_day 59 = (1970, 3, 1)"
proof -
  have "nth_day 58 = (1970, 2, 28)" by (simp add: nth_day_def numeral_eq_Suc month_length_def gregorian_leap_year_def)
  moreover have "nth_day 59 = next_day (nth_day 58)" by (simp add: nth_day_def numeral_eq_Suc)
  ultimately show ?thesis by (simp add: month_length_def gregorian_leap_year_def)
qed

theorem wall_epoch_reads_clock_witness:
  "fst (canboot_wall_epoch cmos_ports (0, noon_regs)) = 59 * 86400 + 12 * 3600"
proof -
  let ?R = "\<lambda>r. noon_regs (r AND 0x7F)"
  have "steady cmos_ports (\<lambda>h. snd h = noon_regs) ?R" by (auto simp: steady_def cmos_read_def cmos_ports_def)
  moreover have "shows_time ?R (nth_day 59) 12 0 0"
    by (simp add: march_first shows_time_def noon_regs_def clock_num_def clock_hour_def bcd_def RTC_SECONDS_def RTC_MINUTES_def
      RTC_HOURS_def RTC_DAY_def RTC_MONTH_def RTC_YEAR_def RTC_CENTURY_def RTC_STATUS_A_def RTC_STATUS_B_def)
  ultimately show ?thesis
    using wall_epoch_reads_clock [of cmos_ports "\<lambda>h. snd h = noon_regs" ?R "(0, noon_regs)" 59 12 0 0] by (simp add: march_first)
qed

end
