(* ===== verification/Tftp.thy ===== *)
theory Tftp
  imports Canboot_Prelude
begin

text \<open>
  The read-only TFTP client of \<open>net/tftp.c\<close>. The UDP layer, the clock and the calls that drive the
  network are fields of the record \<open>net_env\<close> over a network state \<open>'n\<close>: one call of the pump hands a list
  of datagrams to the receive callback. Peers have addresses of type \<open>'a\<close>.
\<close>

section \<open>The code\<close>

definition TFTP_PORT :: u16 where "TFTP_PORT = 69"
definition TFTP_BLOCK :: u16 where "TFTP_BLOCK = 512"
definition TFTP_OP_RRQ :: u8 where "TFTP_OP_RRQ = 1"
definition TFTP_OP_DATA :: u16 where "TFTP_OP_DATA = 3"
definition TFTP_OP_ACK :: u8 where "TFTP_OP_ACK = 4"
definition TFTP_OP_ERROR :: u16 where "TFTP_OP_ERROR = 5"
definition TFTP_OVERALL_MS :: u64 where "TFTP_OVERALL_MS = 10000"
definition TFTP_RETX_MS :: u64 where "TFTP_RETX_MS = 1000"
definition TFTP_MAX_RETX :: nat where "TFTP_MAX_RETX = 5"

record 'a datagram =
  dg_from :: 'a
  dg_port :: u16
  dg_data :: bytes

record ('a, 'n) net_env =
  udp_new :: "'n \<Rightarrow> bool \<times> 'n"
  udp_sendto :: "'a \<Rightarrow> u16 \<Rightarrow> bytes \<Rightarrow> 'n \<Rightarrow> 'n"
  udp_remove :: "'n \<Rightarrow> 'n"
  net_pump :: "'n \<Rightarrow> 'a datagram list \<times> 'n"
  arch_now :: "'n \<Rightarrow> u64 \<times> 'n"
  tsc_hz :: u64

text \<open>The transfer \<open>g_x\<close>, with the memory it stores into, and the network.\<close>

record 'n transfer =
  x_out :: bytes
  x_cap :: u32
  x_len :: u32
  x_block :: u16
  x_srv_port :: u16
  x_have_tid :: bool
  x_progress :: bool
  x_done :: bool
  x_error :: bool
  x_net :: 'n

definition send_ack :: "('a, 'n) net_env \<Rightarrow> 'a \<Rightarrow> u16 \<Rightarrow> u16 \<Rightarrow> 'n transfer \<Rightarrow> 'n transfer" where
  "send_ack env to port block x =
     x\<lparr> x_net := udp_sendto env to port [0, TFTP_OP_ACK, ucast (drop_bit 8 block), ucast block] (x_net x) \<rparr>"

definition send_rrq :: "('a, 'n) net_env \<Rightarrow> 'a \<Rightarrow> bytes \<Rightarrow> 'n transfer \<Rightarrow> 'n transfer" where
  "send_rrq env srv fn x =
    (let fl = of_nat (length fn) :: u16; fl = (if 200 < fl then 200 else fl) in
     x\<lparr> x_net := udp_sendto env srv TFTP_PORT
       ([0, TFTP_OP_RRQ] @ take (unat fl) fn @ [0] @ ascii ''octet'' @ [0]) (x_net x) \<rparr>)"

definition get_be16 :: "bytes \<Rightarrow> nat \<Rightarrow> u16" where
  "get_be16 p i = push_bit 8 (ucast (byte_at p i)) OR ucast (byte_at p (i + 1))"

text \<open>The body of \<open>if (dlen)\<close> in \<open>rx_cb\<close>.\<close>

definition store_block :: "bytes \<Rightarrow> u16 \<Rightarrow> 'n transfer \<Rightarrow> 'n transfer" where
  "store_block p dlen x =
    (let space = (if x_len x < x_cap x then x_cap x - x_len x else 0);
         tk = (if ucast dlen \<le> space then dlen else ucast space);
         x = (if tk \<noteq> 0
              then x\<lparr> x_out := put_bytes (x_out x) (unat (x_len x)) (take (unat tk) (drop 4 p)) \<rparr> else x);
         x = x\<lparr> x_len := x_len x + ucast tk \<rparr> in
     if tk < dlen then x\<lparr> x_error := True, x_done := True \<rparr> else x)"

text \<open>\<open>rx_cb\<close> with a datagram; \<open>tot_len\<close> has 16 bits.\<close>

definition rx_cb :: "('a, 'n) net_env \<Rightarrow> 'a datagram \<Rightarrow> 'n transfer \<Rightarrow> 'n transfer" where
  "rx_cb env dg x =
    (let p = dg_data dg; port = dg_port dg; tot_len = of_nat (length p) :: u16 in
     if length p < 4 then x
     else
       let op = get_be16 p 0; blk = get_be16 p 2 in
       if op = TFTP_OP_ERROR then x\<lparr> x_error := True, x_done := True \<rparr>
       else if op \<noteq> TFTP_OP_DATA then x
       else if x_have_tid x \<and> port \<noteq> x_srv_port x then x
       else
         let x = (if \<not> x_have_tid x then x\<lparr> x_srv_port := port, x_have_tid := True \<rparr> else x);
             expect = x_block x + 1;
             dlen = (if 4 < tot_len then tot_len - 4 else 0) in
         if blk = expect then
           let x = (if dlen \<noteq> 0 then store_block p dlen x else x);
               x = x\<lparr> x_block := expect, x_progress := True \<rparr>;
               x = send_ack env (dg_from dg) port expect x in
           if \<not> x_error x \<and> dlen < TFTP_BLOCK then x\<lparr> x_done := True \<rparr> else x
         else send_ack env (dg_from dg) port (x_block x) x)"

definition now :: "('a, 'n) net_env \<Rightarrow> 'n transfer \<Rightarrow> u64 \<times> 'n transfer" where
  "now env x = (let (t, n) = arch_now env (x_net x) in (t, x\<lparr> x_net := n \<rparr>))"

definition pump :: "('a, 'n) net_env \<Rightarrow> 'n transfer \<Rightarrow> 'n transfer" where
  "pump env x = (let (dgs, n) = net_pump env (x_net x) in fold (rx_cb env) dgs (x\<lparr> x_net := n \<rparr>))"

definition ms_ticks :: "('a, 'n) net_env \<Rightarrow> u64 \<Rightarrow> u64" where
  "ms_ticks env ms = (tsc_hz env * ms) div 1000"

text \<open>The wait loop of \<open>canboot_tftp_get\<close>.\<close>

partial_function (option) get_loop ::
    "('a, 'n) net_env \<Rightarrow> 'a \<Rightarrow> bytes \<Rightarrow> u64 \<Rightarrow> u64 \<Rightarrow> nat \<Rightarrow> 'n transfer \<Rightarrow> 'n transfer option" where
  "get_loop env srv fn overall_dl retx_at retries x =
    (if x_done x then Some x
     else case now env x of (t, x) \<Rightarrow>
       if overall_dl \<le> t then Some x
       else case now env (pump env x) of (t, x) \<Rightarrow>
         if retx_at \<le> t then
           if x_progress x then
             (case now env (x\<lparr> x_progress := False \<rparr>) of (t, x) \<Rightarrow>
                get_loop env srv fn overall_dl (t + ms_ticks env TFTP_RETX_MS) retries x)
           else if retries < TFTP_MAX_RETX then
             (case now env (if x_block x = 0 then send_rrq env srv fn x else send_ack env srv (x_srv_port x) (x_block x) x) of
               (t, x) \<Rightarrow> get_loop env srv fn overall_dl (t + ms_ticks env TFTP_RETX_MS) (retries + 1) x)
           else Some x
         else get_loop env srv fn overall_dl retx_at retries x)"

definition new_transfer :: "bytes \<Rightarrow> u32 \<Rightarrow> 'n \<Rightarrow> 'n transfer" where
  "new_transfer out cap n = \<lparr> x_out = out, x_cap = cap, x_len = 0, x_block = 0, x_srv_port = 0, x_have_tid = False,
     x_progress = False, x_done = False, x_error = False, x_net = n \<rparr>"

text \<open>The number of bytes received, or \<open>Err\<close>, with the final transfer.\<close>

definition canboot_tftp_get ::
    "('a, 'n) net_env \<Rightarrow> 'a option \<Rightarrow> bytes option \<Rightarrow> bytes option \<Rightarrow> u32 \<Rightarrow> 'n \<Rightarrow> (u32 rc \<times> bytes option \<times> 'n) option" where
  "canboot_tftp_get env server filename outp out_cap n = (case (server, filename, outp) of
      (Some srv, Some fn, Some out) \<Rightarrow>
        if out_cap = 0 then Some (Err, outp, n)
        else (case udp_new env n of (created, n) \<Rightarrow>
          if \<not> created then Some (Err, outp, n)
          else
            let x = send_rrq env srv fn (new_transfer out out_cap n) in
            (case now env x of (t1, x) \<Rightarrow> case now env x of (t2, x) \<Rightarrow>
            (case get_loop env srv fn (t1 + ms_ticks env TFTP_OVERALL_MS) (t2 + ms_ticks env TFTP_RETX_MS) 0 x of
              None \<Rightarrow> None
            | Some x \<Rightarrow>
                Some (if x_done x \<and> \<not> x_error x then Ok (x_len x) else Err, Some (x_out x), udp_remove env (x_net x)))))
    | _ \<Rightarrow> Some (Err, outp, n))"


section \<open>Lemmas\<close>

definition space_left :: "'n transfer \<Rightarrow> nat" where
  "space_left x = unat (x_cap x) - unat (x_len x)"

lemma stored_amount:
  fixes dlen :: u16 and len cap :: u32
  defines "space \<equiv> if len < cap then cap - len else 0"
  shows "unat (if ucast dlen \<le> space then dlen else ucast space) = min (unat dlen) (unat cap - unat len)"
proof -
  have space: "unat space = unat cap - unat len"
    by (auto simp: space_def word_less_nat_alt word_le_nat_alt unat_sub_if')
  have "unat (ucast space :: u16) = unat space" if "unat space < unat dlen"
    using take_bit_nat_eq_self [of "unat space" 16] that less_trans [OF that unat_u16_lt [of dlen]]
    by (simp add: unsigned_ucast_eq)
  then show ?thesis by (auto simp: word_le_nat_alt space)
qed

lemma store_block_eq:
  assumes "unat (x_len x) \<le> unat (x_cap x)"
  shows "store_block p dlen x =
    (let k = min (unat dlen) (space_left x);
         x' = x\<lparr> x_out := put_bytes (x_out x) (unat (x_len x)) (take k (drop 4 p)), x_len := of_nat (unat (x_len x) + k) \<rparr> in
     if k < unat dlen then x'\<lparr> x_error := True, x_done := True \<rparr> else x')"
proof -
  define space where "space = (if x_len x < x_cap x then x_cap x - x_len x else 0)"
  define tk where "tk = (if ucast dlen \<le> space then dlen else ucast space)"
  have tk: "unat tk = min (unat dlen) (space_left x)"
    unfolding tk_def space_def space_left_def by (rule stored_amount)
  have len: "x_len x + ucast tk = of_nat (unat (x_len x) + unat tk)"
    by simp
  have "store_block p dlen x =
     (let x = (if tk \<noteq> 0
              then x\<lparr> x_out := put_bytes (x_out x) (unat (x_len x)) (take (unat tk) (drop 4 p)) \<rparr> else x);
         x = x\<lparr> x_len := x_len x + ucast tk \<rparr> in
      if tk < dlen then x\<lparr> x_error := True, x_done := True \<rparr> else x)"
    by (simp only: store_block_def Let_def space_def tk_def)
  then show ?thesis
    unfolding tk [symmetric] Let_def len [symmetric]
    by (cases "tk = 0") (simp_all add: word_less_nat_alt)
qed


text \<open>What the capacity guards: no byte at or past \<open>cap\<close> is touched.\<close>

definition within :: "bytes \<Rightarrow> u32 \<Rightarrow> 'n transfer \<Rightarrow> bool" where
  "within out cap x \<longleftrightarrow> x_cap x = cap \<and> x_len x \<le> cap \<and> length (x_out x) = length out
     \<and> drop (unat cap) (x_out x) = drop (unat cap) out"

lemma drop_put_bytes:
  "i + length ys \<le> c \<Longrightarrow> c \<le> length xs \<Longrightarrow> drop c (put_bytes xs i ys) = drop c xs"
  by (simp add: put_bytes_def)

lemma within_store:
  assumes "within out cap x" "unat cap \<le> length out"
  shows "within out cap (store_block p dlen x)"
proof -
  define k where "k = min (unat dlen) (space_left x)"
  have len: "unat (x_len x) \<le> unat (x_cap x)" and cap: "x_cap x = cap"
    using assms(1) by (simp_all add: within_def word_le_nat_alt)
  then have sum: "unat (x_len x) + k \<le> unat cap" by (simp add: space_left_def k_def)
  then have "of_nat (unat (x_len x) + k) \<le> cap"
    using unat_u32_lt [of cap] by (simp add: word_le_nat_alt unat_of_nat del: of_nat_add)
  moreover have room: "unat (x_len x) + length (take k (drop 4 p)) \<le> unat cap"
    using sum by simp
  ultimately show ?thesis
    using assms
    unfolding store_block_eq [OF len] within_def k_def [symmetric] Let_def
    by (cases "k < unat dlen") (simp_all add: drop_put_bytes del: of_nat_add)
qed

lemma within_keep [simp]:
  "within out cap (x\<lparr> x_net := n \<rparr>) = within out cap x"
  "within out cap (x\<lparr> x_error := b \<rparr>) = within out cap x"
  "within out cap (x\<lparr> x_done := b \<rparr>) = within out cap x"
  "within out cap (x\<lparr> x_progress := b \<rparr>) = within out cap x"
  "within out cap (x\<lparr> x_have_tid := b \<rparr>) = within out cap x"
  "within out cap (x\<lparr> x_srv_port := w \<rparr>) = within out cap x"
  "within out cap (x\<lparr> x_block := w \<rparr>) = within out cap x"
  by (simp_all add: within_def)

lemma within_rx_cb:
  "unat cap \<le> length out \<Longrightarrow> within out cap x \<Longrightarrow> within out cap (rx_cb env dg x)"
  by (simp add: rx_cb_def Let_def send_ack_def within_store)

text \<open>An invariant of the receive callback that does not speak of the network is one of the whole wait loop.\<close>

lemma get_loop_invariant:
  fixes I :: "'n transfer \<Rightarrow> bool"
  assumes net: "\<And>x n. I x \<Longrightarrow> I (x\<lparr> x_net := n \<rparr>)" and timer: "\<And>x. I x \<Longrightarrow> I (x\<lparr> x_progress := False \<rparr>)"
    and rx: "\<And>x n dg. dg \<in> set (fst (net_pump env n)) \<Longrightarrow> I x \<Longrightarrow> I (rx_cb env dg x)"
    and run: "get_loop env srv fn dl at k x = Some x'" and start: "I x"
  shows "I x'"
proof -
  have now: "I y" if "now env x = (t, y)" "I x" for x t y
    using that by (auto simp: now_def net split: prod.splits)
  have send: "I (send_rrq env srv fn x)" "I (send_ack env srv p b x)" if "I x" for x and p b
    using that by (simp_all add: send_rrq_def send_ack_def Let_def net)
  have fold: "set dgs \<subseteq> set (fst (net_pump env n)) \<Longrightarrow> I x \<Longrightarrow> I (fold (rx_cb env) dgs x)" for dgs n x
    by (induction dgs arbitrary: x) (auto intro: rx)
  have pump: "I (pump env x)" if "I x" for x
    using that fold [of _ "x_net x"] by (auto simp: pump_def net split: prod.splits)
  have "env = env \<longrightarrow> srv = srv \<longrightarrow> fn = fn \<longrightarrow> I x \<longrightarrow> I x'"
    apply (rule get_loop.raw_induct [where P = "\<lambda>env' srv' fn' _ _ _ x x'. env' = env \<longrightarrow> srv' = srv \<longrightarrow> fn' = fn \<longrightarrow> I x \<longrightarrow> I x'"
        and xa = "((((((env, srv), fn), dl), at), k), x)" and y = x', unfolded prod.case, OF _ run])
    apply (clarify, simp split: if_splits prod.splits)
    apply (blast intro: now pump)+
    apply (blast dest: now [OF _ pump [OF now]] now [OF _ timer] now [OF _ send(1)] now [OF _ send(2)])+
    done
  then show ?thesis using start by simp
qed


lemma get_returned:
  assumes "canboot_tftp_get env (Some srv) (Some fn) (Some out) cap n = Some (r, out', n')"
  obtains "r = Err" "out' = Some out"
  | n1 t1 t2 x1 x2 x where "x1 = snd (now env (send_rrq env srv fn (new_transfer out cap n1)))" "x2 = snd (now env x1)"
      "get_loop env srv fn t1 t2 0 x2 = Some x" "out' = Some (x_out x)"
      "r = (if x_done x \<and> \<not> x_error x then Ok (x_len x) else Err)"
  using assms
  by (auto simp: canboot_tftp_get_def Let_def split: if_splits prod.splits option.splits) (metis snd_conv)+

lemma start_invariant:
  assumes "\<And>x n. I x \<Longrightarrow> I (x\<lparr> x_net := n \<rparr>)" "\<And>n. I (new_transfer out cap n)"
  shows "I (snd (now env (snd (now env (send_rrq env srv fn (new_transfer out cap n))))))"
  using assms by (simp add: now_def send_rrq_def Let_def split: prod.splits)

section \<open>A file arrives\<close>

definition be16 :: "u16 \<Rightarrow> bytes" where
  "be16 v = [ucast (drop_bit 8 v), ucast v]"

text \<open>A file as a server sends it: blocks of 512 bytes, the last one shorter, and few enough for the 16-bit
  block number.\<close>

definition file_blocks :: "bytes list \<Rightarrow> bool" where
  "file_blocks bs \<longleftrightarrow> bs \<noteq> [] \<and> length bs < 65536 \<and> list_all (\<lambda>b. length b = 512) (butlast bs) \<and> length (last bs) < 512"

definition data_packet :: "bytes list \<Rightarrow> nat \<Rightarrow> bytes" where
  "data_packet bs i = [0, 3] @ be16 (of_nat (i + 1)) @ bs ! i"

text \<open>A datagram of an honest network: any block of the file, or something that is not DATA.\<close>

definition genuine :: "bytes list \<Rightarrow> 'a datagram \<Rightarrow> bool" where
  "genuine bs dg \<longleftrightarrow> list_ex (\<lambda>i. dg_data dg = data_packet bs i) [0 ..< length bs]
     \<or> length (dg_data dg) < 4 \<or> get_be16 (dg_data dg) 0 \<noteq> TFTP_OP_DATA"

definition received :: "bytes list \<Rightarrow> bytes \<Rightarrow> u32 \<Rightarrow> 'n transfer \<Rightarrow> bool" where
  "received bs out cap x \<longleftrightarrow> x_cap x = cap \<and> (x_error x \<or>
     (\<exists>j \<le> length bs. x_block x = of_nat j \<and> length (concat (take j bs)) \<le> unat cap
       \<and> x_len x = of_nat (length (concat (take j bs))) \<and> x_out x = put_bytes out 0 (concat (take j bs))
       \<and> (x_done x \<longrightarrow> j = length bs)))"

lemma received_keep [simp]:
  "received bs out cap (x\<lparr> x_net := n \<rparr>) = received bs out cap x"
  "received bs out cap (x\<lparr> x_progress := b \<rparr>) = received bs out cap x"
  "received bs out cap (x\<lparr> x_have_tid := b \<rparr>) = received bs out cap x"
  "received bs out cap (x\<lparr> x_srv_port := w \<rparr>) = received bs out cap x"
  "received bs out cap (x\<lparr> x_net := n, x_done := d \<rparr>) = received bs out cap (x\<lparr> x_done := d \<rparr>)"
  "received bs out cap (x\<lparr> x_progress := b, x_done := d \<rparr>) = received bs out cap (x\<lparr> x_done := d \<rparr>)"
  by (simp_all add: received_def)

lemma get_be16_data_packet:
  "get_be16 (data_packet bs i) 0 = TFTP_OP_DATA" "get_be16 (data_packet bs i) 2 = of_nat (i + 1)"
proof -
  show "get_be16 (data_packet bs i) 0 = TFTP_OP_DATA"
    by (simp add: get_be16_def data_packet_def byte_at_def TFTP_OP_DATA_def)
  have "push_bit 8 (ucast (ucast (drop_bit 8 v) :: u8)) OR ucast (ucast v :: u8) = v" for v :: u16
    by (rule bit_word_eqI) (auto simp: bit_simps)
  from this [of "of_nat (i + 1)"] show "get_be16 (data_packet bs i) 2 = of_nat (i + 1)"
    by (simp add: get_be16_def data_packet_def be16_def byte_at_def numeral_eq_Suc)
qed

lemma block_length:
  assumes "file_blocks bs" "i < length bs"
  shows "length (bs ! i) = 512 \<longleftrightarrow> i + 1 < length bs" "length (bs ! i) \<le> 512"
proof -
  have "length (bs ! i) = 512" if "i + 1 < length bs"
    using that assms by (auto simp: file_blocks_def list_all_length nth_butlast)
  moreover have "length (bs ! i) < 512" if "\<not> i + 1 < length bs"
  proof -
    have "i = length bs - 1" using that assms(2) by simp
    then show ?thesis using assms last_conv_nth [of bs] by (simp add: file_blocks_def)
  qed
  ultimately show "length (bs ! i) = 512 \<longleftrightarrow> i + 1 < length bs" "length (bs ! i) \<le> 512" by fastforce+
qed


definition data_len :: "bytes \<Rightarrow> u16" where
  "data_len p = (if 4 < (of_nat (length p) :: u16) then of_nat (length p) - 4 else 0)"

lemma data_len_packet:
  assumes "file_blocks bs" "i < length bs"
  shows "data_len (data_packet bs i) = of_nat (length (bs ! i))" "unat (data_len (data_packet bs i)) = length (bs ! i)"
proof -
  let ?l = "length (bs ! i)"
  have l: "?l \<le> 512" using block_length(2) [OF assms] .
  have "unat (of_nat (4 + ?l) :: u16) = 4 + ?l" using l by (simp add: unat_of_nat del: of_nat_add)
  then show eq: "data_len (data_packet bs i) = of_nat ?l"
    by (auto simp: data_len_def data_packet_def be16_def word_less_nat_alt)
  show "unat (data_len (data_packet bs i)) = ?l"
    unfolding eq using l by (simp add: unat_of_nat)
qed

lemma next_block_number:
  assumes "(of_nat (i + 1) :: u16) = of_nat j + 1" "i < 65535" "j < 65536"
  shows "i = j"
proof -
  have "(of_nat (i + 1) :: u16) = of_nat (j + 1)" using assms(1) by simp
  then have "(i + 1) mod 65536 = (j + 1) mod 65536"
    by (simp add: word_unat_eq_iff unat_of_nat del: of_nat_add of_nat_Suc)
  then show ?thesis using assms(2, 3) by (cases "j = 65535") auto
qed

text \<open>The next block in order is stored behind the blocks before it, or it does not fit.\<close>

lemma store_next:
  assumes bs: "file_blocks bs" and j: "j < length bs" and cap: "unat (x_cap x) \<le> length out"
    and len: "length (concat (take j bs)) \<le> unat (x_cap x)" "x_len x = of_nat (length (concat (take j bs)))"
    and out: "x_out x = put_bytes out 0 (concat (take j bs))"
  defines "x' \<equiv> store_block (data_packet bs j) (data_len (data_packet bs j)) x"
  shows "x_error x' \<or> length (concat (take (j + 1) bs)) \<le> unat (x_cap x)
      \<and> x' = x\<lparr> x_len := of_nat (length (concat (take (j + 1) bs))), x_out := put_bytes out 0 (concat (take (j + 1) bs)) \<rparr>"
proof -
  let ?a = "concat (take j bs)" and ?b = "bs ! j"
  have more: "concat (take (j + 1) bs) = ?a @ ?b"
    using j by (simp add: take_Suc_conv_app_nth)
  have l: "unat (x_len x) = length ?a"
    using len(2) le_less_trans [OF len(1) unat_u32_lt] by (simp add: unat_of_nat)
  have le: "unat (x_len x) \<le> unat (x_cap x)" using l len by simp
  have rest: "drop 4 (data_packet bs j) = ?b" by (simp add: data_packet_def be16_def)
  show ?thesis
  proof (cases "length ?b \<le> space_left x")
    case True
    then have fits: "length ?a + length ?b \<le> unat (x_cap x)"
      using l len by (simp add: space_left_def)
    have "put_bytes (put_bytes out 0 ?a) (length ?a) ?b = put_bytes out 0 (?a @ ?b)"
      using put_bytes_append [of 0 ?a ?b out] fits cap by simp
    then show ?thesis
      using True fits unfolding x'_def store_block_eq [OF le] data_len_packet(2) [OF bs j] rest more out l
      by (simp add: Let_def min_absorb1)
  next
    case False
    then show ?thesis
      unfolding x'_def store_block_eq [OF le] data_len_packet(2) [OF bs j] by (simp add: Let_def)
  qed
qed


text \<open>Once the duplicate, foreign and stray datagrams are dealt with, the callback keeps \<open>received\<close>.\<close>

lemma rx_cb_packet:
  assumes "dg_data dg = data_packet bs i"
  shows "rx_cb env dg x =
    (if x_have_tid x \<and> dg_port dg \<noteq> x_srv_port x then x
     else
       let x = (if \<not> x_have_tid x then x\<lparr> x_srv_port := dg_port dg, x_have_tid := True \<rparr> else x);
           p = data_packet bs i in
       if of_nat (i + 1) = x_block x + 1 then
         let x = send_ack env (dg_from dg) (dg_port dg) (x_block x + 1)
               ((if data_len p \<noteq> 0 then store_block p (data_len p) x else x)\<lparr> x_block := x_block x + 1, x_progress := True \<rparr>) in
         if \<not> x_error x \<and> data_len p < TFTP_BLOCK then x\<lparr> x_done := True \<rparr> else x
       else send_ack env (dg_from dg) (dg_port dg) (x_block x) x)"
proof -
  have "\<not> length (data_packet bs i) < 4" by (simp add: data_packet_def be16_def)
  moreover have "TFTP_OP_DATA \<noteq> TFTP_OP_ERROR" by (simp add: TFTP_OP_DATA_def TFTP_OP_ERROR_def)
  ultimately show ?thesis
    unfolding rx_cb_def assms get_be16_data_packet data_len_def Let_def by (simp only: if_False simp_thms)
qed


lemma store_block_keeps [simp]:
  "x_cap (store_block p d x) = x_cap x" "x_error x \<Longrightarrow> x_error (store_block p d x)"
  by (simp_all add: store_block_def Let_def)

lemma received_next:
  assumes bs: "file_blocks bs" and i: "i < length bs" and cap: "unat cap \<le> length out"
    and rec: "received bs out cap x" and expected: "of_nat (i + 1) = x_block x + 1"
  defines "y \<equiv> (if data_len (data_packet bs i) \<noteq> 0 then store_block (data_packet bs i) (data_len (data_packet bs i)) x
      else x)\<lparr> x_block := x_block x + 1 \<rparr>"
  shows "received bs out cap (if \<not> x_error y \<and> data_len (data_packet bs i) < TFTP_BLOCK then y\<lparr> x_done := True \<rparr> else y)"
proof (cases "x_error y")
  case True
  then show ?thesis using rec by (simp add: received_def y_def split: if_splits)
next
  case ok: False
  let ?p = "data_packet bs i"
  have "\<not> x_error x" using ok by (auto simp: y_def split: if_splits)
  then obtain j where j: "j \<le> length bs" "x_block x = of_nat j" "length (concat (take j bs)) \<le> unat (x_cap x)"
      "x_len x = of_nat (length (concat (take j bs)))" "x_out x = put_bytes out 0 (concat (take j bs))"
      "x_done x \<longrightarrow> j = length bs" and cap': "x_cap x = cap"
    using rec by (auto simp: received_def)
  have ij: "i = j"
    using next_block_number [of i j] expected i j(1, 2) bs by (auto simp: file_blocks_def)
  then have last: "data_len ?p < TFTP_BLOCK \<longleftrightarrow> j + 1 = length bs" and empty: "data_len ?p = 0 \<longleftrightarrow> bs ! j = []"
    using block_length [OF bs i] data_len_packet(2) [OF bs i] i
    by (auto simp: TFTP_BLOCK_def word_less_nat_alt unat_eq_0 [symmetric])
  have "length (concat (take (j + 1) bs)) \<le> unat cap \<and> y = x\<lparr> x_len := of_nat (length (concat (take (j + 1) bs))),
      x_out := put_bytes out 0 (concat (take (j + 1) bs)), x_block := of_nat (j + 1) \<rparr>"
  proof (cases "data_len ?p = 0")
    case True
    then have "concat (take (j + 1) bs) = concat (take j bs)"
      using empty i ij by (simp add: take_Suc_conv_app_nth)
    then show ?thesis using True j cap' by (simp add: y_def)
  next
    case False
    then show ?thesis
      using store_next [OF bs i [unfolded ij], of x out] ok j cap cap' ij by (auto simp: y_def)
  qed
  then have y: "length (concat (take (j + 1) bs)) \<le> unat cap" "x_len y = of_nat (length (concat (take (j + 1) bs)))"
      "x_out y = put_bytes out 0 (concat (take (j + 1) bs))" "x_block y = of_nat (j + 1)" "x_done y = x_done x" "x_cap y = cap"
    using cap' by simp_all
  have "x_done (if data_len ?p < TFTP_BLOCK then y\<lparr> x_done := True \<rparr> else y) \<longrightarrow> j + 1 = length bs"
    using last j(6) i ij y(5) by auto
  then show ?thesis
    unfolding received_def using i ij y(1-4, 6) ok
    by (intro conjI disjI2 exI [of _ "j + 1"]) (simp_all del: of_nat_add of_nat_Suc)
qed

lemma received_rx_cb:
  assumes bs: "file_blocks bs" and cap: "unat cap \<le> length out" and "genuine bs dg" and rec: "received bs out cap x"
  shows "received bs out cap (rx_cb env dg x)"
proof (cases "\<exists>i < length bs. dg_data dg = data_packet bs i")
  case False
  then have "length (dg_data dg) < 4 \<or> get_be16 (dg_data dg) 0 \<noteq> TFTP_OP_DATA"
    using assms(3) by (auto simp: genuine_def list_ex_iff)
  then show ?thesis using rec by (auto simp: rx_cb_def Let_def received_def)
next
  case True
  then obtain i where i: "i < length bs" "dg_data dg = data_packet bs i" by blast
  define y where "y = (if \<not> x_have_tid x then x\<lparr> x_srv_port := dg_port dg, x_have_tid := True \<rparr> else x)"
  have y: "received bs out cap y" using rec by (simp add: y_def)
  define z where "z = (if data_len (data_packet bs i) \<noteq> 0
      then store_block (data_packet bs i) (data_len (data_packet bs i)) y else y)"
  show ?thesis
  proof (cases "of_nat (i + 1) = x_block y + 1")
    case True
    show ?thesis
      using received_next [OF bs i(1) cap y True] rec True
      unfolding rx_cb_packet [OF i(2)] Let_def y_def [symmetric] z_def [symmetric] send_ack_def
      by (auto split: if_splits)
  next
    case False
    then show ?thesis
      using rec y unfolding rx_cb_packet [OF i(2)] Let_def y_def [symmetric] send_ack_def by simp
  qed
qed


section \<open>The call returns\<close>

text \<open>A time stamp counter that does not wrap: every reading is later than all before, until it is all ones.
  \<open>T\<close> is the last reading; the calls into the network do not turn it back.\<close>

definition steady_clock :: "('n \<Rightarrow> u64) \<Rightarrow> ('a, 'n) net_env \<Rightarrow> bool" where
  "steady_clock T env \<longleftrightarrow>
     (\<forall>n. T (snd (arch_now env n)) = fst (arch_now env n) \<and> (T n < fst (arch_now env n) \<or> fst (arch_now env n) = - 1))
   \<and> (\<forall>n. T n \<le> T (snd (net_pump env n))) \<and> (\<forall>a p d n. T n \<le> T (udp_sendto env a p d n))"

lemma steady_rx_cb: "steady_clock T env \<Longrightarrow> T (x_net x) \<le> T (x_net (rx_cb env dg x))"
  by (simp add: steady_clock_def rx_cb_def Let_def send_ack_def store_block_def)

lemma steady_pump:
  assumes "steady_clock T env"
  shows "T (x_net x) \<le> T (x_net (pump env x))"
proof -
  have "T (x_net x) \<le> T (x_net (fold (rx_cb env) dgs x))" for dgs x
    by (induction dgs arbitrary: x) (auto intro: order_trans [OF steady_rx_cb [OF assms]])
  from this [of "x\<lparr> x_net := snd (net_pump env (x_net x)) \<rparr>"] show ?thesis
    using assms by (auto simp: pump_def steady_clock_def split: prod.splits intro: order_trans)
qed

lemma steady_now:
  assumes "steady_clock T env" "now env x = (t, y)"
  shows "T (x_net y) = t" "T (x_net x) < t \<or> t = - 1"
  using assms by (auto simp: now_def steady_clock_def split: prod.splits) (metis fst_conv snd_conv)+

lemma get_loop_returns:
  assumes clock: "steady_clock T env"
  shows "\<exists>x'. get_loop env srv fn dl at k x = Some x'"
proof (induction "2 ^ 64 - unat (T (x_net x))" arbitrary: at k x rule: less_induct)
  case less
  obtain t1 x1 where n1: "now env x = (t1, x1)" by fastforce
  obtain t2 x2 where n2: "now env (pump env x1) = (t2, x2)" by fastforce
  have T1: "T (x_net x1) = t1" "T (x_net x) < t1 \<or> t1 = - 1" using steady_now [OF clock n1] .
  show ?case
  proof (cases "dl \<le> t1")
    case True
    then show ?thesis by (subst get_loop.simps) (simp add: n1)
  next
    case False
    then have "t1 \<noteq> - 1" by auto
    then have "T (x_net x) < t1" using T1 by simp
    moreover have bound: "unat (T (x_net x)) < 2 ^ 64"
      using unsigned_less [of "T (x_net x)"] by simp
    ultimately have again: "\<exists>x'. get_loop env srv fn dl at k y = Some x'" if "t1 \<le> T (x_net y)" for at k y
      using less.hyps [of y at k] that bound by (simp add: word_less_nat_alt word_le_nat_alt)
    have T2: "t1 \<le> T (x_net x2)"
      using steady_pump [OF clock, of x1] steady_now [OF clock n2] T1 by auto
    have T3: "t1 \<le> T (x_net y)" if "now env z = (t, y)" "t1 \<le> T (x_net z)" for z t y
      using steady_now [OF clock that(1)] that(2) by auto
    have send: "t1 \<le> T (x_net (send_rrq env srv fn x2))" "t1 \<le> T (x_net (send_ack env srv p b x2))" for p b
      using T2 clock by (auto simp: send_rrq_def send_ack_def steady_clock_def Let_def intro: order_trans)
    show ?thesis
      using again [OF T2] T2
      by (subst get_loop.simps) (auto simp: n1 n2 split: prod.splits intro!: again intro: T3 send)
  qed
qed

section \<open>Properties\<close>

text \<open>A network for the examples: every pump delivers the file \<open>demo_file\<close> with its blocks out of order, once too
  often and with a stray datagram among them; the network state is the clock, which stops at all ones.\<close>

definition demo_file :: "bytes list" where
  "demo_file = [replicate 512 7, [1, 2, 3]]"

definition demo_datagram :: "bytes \<Rightarrow> nat datagram" where
  "demo_datagram p = \<lparr> dg_from = 0, dg_port = 2000, dg_data = p \<rparr>"

definition demo_env :: "(nat, u64) net_env" where
  "demo_env = \<lparr> udp_new = Pair True, udp_sendto = (\<lambda>_ _ _ n. n), udp_remove = (\<lambda>n. n),
     net_pump = Pair (map demo_datagram [data_packet demo_file 1, [9], data_packet demo_file 0, data_packet demo_file 0,
       data_packet demo_file 1]),
     arch_now = (\<lambda>n. if n = - 1 then (- 1, - 1) else (n + 1, n + 1)), tsc_hz = 1000 \<rparr>"

lemma demo_genuine: "list_all (genuine demo_file) (fst (net_pump demo_env n))"
  by (simp add: demo_env_def genuine_def demo_datagram_def demo_file_def)

lemma demo_steady: "steady_clock (\<lambda>n. n) demo_env"
proof -
  have "n < n + 1" if "n \<noteq> - 1" for n :: u64
  proof -
    have "unat n \<noteq> 2 ^ 64 - 1" using that by (simp add: word_unat_eq_iff unsigned_minus_1_eq_mask mask_eq_exp_minus_1)
    moreover have "unat n < 2 ^ 64" using unsigned_less [of n] by simp
    ultimately show ?thesis by (simp add: word_less_nat_alt unat_word_ariths)
  qed
  then show ?thesis by (auto simp: steady_clock_def demo_env_def)
qed

lemma demo_pump: "pump demo_env (new_transfer (replicate 600 0) 520 3) =
    (new_transfer (replicate 512 7 @ [1, 2, 3] @ replicate 85 0) 520 3)\<lparr> x_len := 515, x_block := 2, x_srv_port := 2000,
      x_have_tid := True, x_progress := True, x_done := True \<rparr>"
  by code_simp

lemma demo_run: "canboot_tftp_get demo_env (Some 8) (Some [104]) (Some (replicate 600 0)) 520 0
    = Some (Ok 515, Some (replicate 512 7 @ [1, 2, 3] @ replicate 85 0), 4)"
proof -
  have send: "send_rrq demo_env 8 [104] x = x" for x by (simp add: send_rrq_def demo_env_def)
  have now: "now demo_env x = (if x_net x = - 1 then (- 1, x) else (x_net x + 1, x\<lparr> x_net := x_net x + 1 \<rparr>))" for x
    by (auto simp: now_def demo_env_def)
  have fields: "udp_new demo_env n = (True, n)" "udp_remove demo_env n = n" "ms_ticks demo_env TFTP_OVERALL_MS = 10000"
    "ms_ticks demo_env TFTP_RETX_MS = 1000" for n
    by (simp_all add: demo_env_def ms_ticks_def TFTP_OVERALL_MS_def TFTP_RETX_MS_def)
  have net: "(new_transfer out c n)\<lparr> x_net := m \<rparr> = new_transfer out c m" "x_net (new_transfer out c n) = n"
    "\<not> x_done (new_transfer out c n)" for out c and n m :: u64
    by (simp_all add: new_transfer_def)
  define x where "x = (new_transfer (replicate 512 7 @ [1, 2, 3] @ replicate 85 0) 520 (3 :: u64))\<lparr> x_len := 515, x_block := 2,
    x_srv_port := 2000, x_have_tid := True, x_progress := True, x_done := True \<rparr>"
  have x: "x_net x = 3" "x_done x" "\<not> x_error x" "x_len x = 515"
    "x_out x = replicate 512 7 @ [1, 2, 3] @ replicate 85 0"
    by (simp_all add: x_def new_transfer_def)
  have pump: "pump demo_env (new_transfer (replicate 600 0) 520 3) = x"
    by (simp only: demo_pump x_def)
  have stop: "get_loop demo_env 8 [104] dl at k (x\<lparr> x_net := n \<rparr>) = Some (x\<lparr> x_net := n \<rparr>)" for dl at k n
    by (subst get_loop.simps) (simp add: x)
  have "get_loop demo_env 8 [104] 10001 1002 0 (new_transfer (replicate 600 0) 520 2) = Some (x\<lparr> x_net := 4 \<rparr>)"
    by (subst get_loop.simps) (simp add: now net pump x stop)
  then show ?thesis
    by (simp add: canboot_tftp_get_def send now net x fields)
qed

text \<open>C14: with an honest network, whatever is lost, repeated or reordered, a successful transfer has put
  exactly the file into the caller's buffer and reports its length.\<close>

theorem tftp_get_delivers_file:
  assumes "file_blocks bs" and "unat cap \<le> length out"
    and net: "\<And>n. list_all (genuine bs) (fst (net_pump env n))"
    and run: "canboot_tftp_get env (Some srv) (Some fn) (Some out) cap n = Some (Ok len, out', n')"
  shows "unat len = length (concat bs) \<and> out' = Some (put_bytes out 0 (concat bs))"
  using run
proof (cases rule: get_returned)
  case (2 n1 t1 t2 x1 x2 x)
  have "received bs out cap x2"
    unfolding 2 by (rule start_invariant) (auto simp: received_def new_transfer_def intro: exI [of _ 0])
  moreover have "received bs out cap (rx_cb env dg x)"
    if "dg \<in> set (fst (net_pump env n))" "received bs out cap x" for dg n x
    using received_rx_cb [OF assms(1, 2) _ that(2), of dg env] net [of n] that(1) by (auto simp: list_all_iff)
  ultimately have "received bs out cap x"
    using get_loop_invariant [where I = "received bs out cap", OF _ _ _ 2(3)] by simp
  moreover have "x_done x" "\<not> x_error x" "len = x_len x" "out' = Some (x_out x)"
    using 2 by (simp_all split: if_splits)
  ultimately have "length (concat bs) \<le> unat cap" "len = of_nat (length (concat bs))" "out' = Some (put_bytes out 0 (concat bs))"
    by (auto simp: received_def)
  then show ?thesis using le_less_trans [OF _ unat_u32_lt [of cap]] by (simp add: unat_of_nat)
qed simp

theorem tftp_get_delivers_file_witness:
  "(515 :: nat) = length (concat demo_file)
    \<and> Some (replicate 512 7 @ [1, 2, 3] @ replicate 85 0) = Some (put_bytes (replicate 600 0) 0 (concat demo_file))"
  using tftp_get_delivers_file [OF _ _ demo_genuine demo_run] by (simp add: file_blocks_def demo_file_def)

text \<open>C21: with a steady clock the call returns, whatever the network delivers or loses.\<close>

theorem tftp_get_returns:
  assumes "steady_clock T env"
  shows "\<exists>r. canboot_tftp_get env srv fn out cap n = Some r"
  using get_loop_returns [OF assms]
  by (auto simp: canboot_tftp_get_def Let_def split: option.splits prod.splits) (metis option.distinct(1))

theorem tftp_get_returns_witness:
  "\<exists>r. canboot_tftp_get demo_env (Some 8) (Some [104]) (Some [0, 0]) 2 5 = Some r"
  by (rule tftp_get_returns [OF demo_steady])

text \<open>C23: whatever the network delivers, the client writes only into the first \<open>cap\<close> bytes of the caller's
  buffer, and a length it reports is at most \<open>cap\<close>.\<close>

theorem tftp_get_within_capacity:
  assumes "unat cap \<le> length out"
    and "canboot_tftp_get env (Some srv) (Some fn) (Some out) cap n = Some (r, out', n')"
  shows "\<exists>bs. out' = Some bs \<and> length bs = length out \<and> drop (unat cap) bs = drop (unat cap) out
    \<and> (case r of Ok len \<Rightarrow> len \<le> cap | Err \<Rightarrow> True)"
  using assms(2)
proof (cases rule: get_returned)
  case (2 n1 t1 t2 x1 x2 x)
  have "within out cap x2"
    unfolding 2 by (rule start_invariant) (simp_all add: within_def new_transfer_def)
  then have "within out cap x"
    by (rule get_loop_invariant [where I = "within out cap", OF _ _ _ 2(3), rotated 3])
      (simp_all add: within_rx_cb [OF assms(1)])
  then show ?thesis using 2 by (simp add: within_def)
qed simp

theorem tftp_get_within_capacity_witness:
  "\<exists>bs. Some (replicate 512 7 @ [1, 2, 3] @ replicate 85 0) = Some bs \<and> length bs = 600
    \<and> drop 520 bs = drop 520 (replicate 600 0) \<and> (515 :: u32) \<le> 520"
  using tftp_get_within_capacity [OF _ demo_run] by simp

end
