(* ===== verification/Spec2Isabelle.thy ===== *)
theory Spec2Isabelle
  imports Fat32_Properties Gpt_Properties Sched_Properties Display_Properties Encoding Input_Properties Vfs_Properties
    Inet Iso9660_Properties Rtc Tftp
begin

text \<open>
  A verification development of CanBoot, a bare-metal boot environment in C.

  \<^bold>\<open>The program.\<close> CanBoot boots a machine without an operating system and runs scripts on it. Drivers
  under \<open>src/hal\<close> offer disks, a frame buffer, input devices and network cards; \<open>src/fs\<close> has partition
  tables, FAT32, ISO 9660 and a POSIX file surface on top of the disks; \<open>src/rt\<close> has a thread
  scheduler for several CPUs with a pthread interface; \<open>src/net\<close> fetches files over TFTP and parses
  addresses; \<open>src/cando_port\<close> binds all of this to the script interpreter, whose virtual machine is
  protected by one global lock, the GIL of the scheduler.

  \<^bold>\<open>Conventions.\<close> Fixed-width integers are words and wrap; an \<open>int32_t\<close> computation whose overflow
  matters is \<open>s32\<close> of an integer. Packed structs are records with functions to and from bytes. A
  function that may fail and that changes a device state \<open>'s\<close> is a \<open>('s, 'a) prog\<close>: \<open>None\<close> when it does
  not return (an endless loop, a division by zero, an access outside a buffer), else \<open>Ok\<close> of its
  result or \<open>Err\<close>, and the new state. A pointer that may be null is an option. A loop that may run for
  ever is a \<open>partial_function\<close> over options, so there is no fuel anywhere: a theorem about such a loop
  states that its value is \<open>Some\<close>. A loop with a bound in the C code is a recursion with that bound.
  Definitions carry the C names; where a C loop is a definition of its own its name ends in \<open>_loop\<close>.

  \<^bold>\<open>Theories and what they show.\<close>
  \<^item> \<open>Canboot_Prelude\<close>: words, buffers, \<open>prog\<close>, the judgements \<open>runs\<close> and \<open>fails\<close> (total correctness and
    total failure) and their rules.
  \<^item> \<open>Disk\<close> (\<open>hal/include/hal/disk.h\<close>, \<open>hal/disk/disk.c\<close>): \<open>struct canboot_disk\<close> with its read and write
    pointers, the registry, and the locale \<open>block_device\<close>: what the file systems assume of a disk.
  \<^item> \<open>Usb_Storage\<close> (\<open>hal/disk/usb_storage.c\<close>): command and status blocks, \<open>bot_xfer\<close>, \<open>rw10\<close> with its
    bounce buffer, probing. The bulk transfer of xHCI is a parameter, the locale \<open>bot_device\<close> says how
    a conforming device answers, and in it the driver is a \<open>block_device\<close> for requests of any size
    below 2^32 blocks. The simulated stick of 128 blocks of 512 bytes interprets it, and all the
    contracts above a disk are interpreted on this driver over this stick.
  \<^item> \<open>Fat32\<close>, \<open>Fat32_Path\<close> (\<open>fs/fat32.c\<close>): mounting, FAT entries, clusters, 8.3 names, chains, root
    directory operations; the path engine and mkfs. \<open>Fat32_Volume\<close> sees a volume as a table of FAT
    entries and a table of clusters (locale \<open>fat_volume\<close>, which extends \<open>block_device\<close>);
    \<open>Fat32_Chains\<close>, \<open>Fat32_Dirs\<close>, \<open>Fat32_Files\<close> and \<open>Fat32_Tree\<close> show what each operation does to these
    tables; \<open>Fat32_Stick\<close> interprets the contract; \<open>Fat32_Properties\<close> has the results: a written file is
    read back, nothing else changes, allocation, freeing and mirroring of the FAT, unlink and mkdir,
    and that a circular directory makes a lookup hang. Files have at most 256 clusters, as in the
    code (\<open>FAT32_MAX_CHAIN\<close>).
  \<^item> \<open>Partition\<close> (\<open>fs/partition.c\<close>): MBR and GPT, all operations. \<open>Crc32\<close> shows that the table-driven
    checksum is the CRC of IEEE 802.3, defined by division of polynomials, and that it detects a
    changed byte. \<open>Gpt\<close> and \<open>Gpt_Ops\<close> have headers, tables and the locale \<open>gpt_disk\<close>; \<open>Gpt_Properties\<close>
    says what init, create, delete and list do. Create is shown correct for ranges that lie in the
    usable blocks and overlap no partition: the code does not check this itself.
  \<^item> \<open>Iso9660\<close> (\<open>fs/iso9660.c\<close>) and \<open>Iso9660_Properties\<close> (locale \<open>iso_volume\<close>): lookup against directory
    sectors as ECMA-119 lays them out, reading of extents, and the wrong offset of the root record.
  \<^item> \<open>Vfs\<close> (\<open>fs/vfs.c\<close>) and \<open>Vfs_Properties\<close>: mounting of the primary volume, path resolution, dispatch to
    FAT32 or to the library wrappers (fields of a parameter record), directory streams; what
    \<open>normalize\<close> computes, and the paths for which it leaves its buffer.
  \<^item> \<open>Sched\<close> (\<open>rt/sched/sched.c\<close>, \<open>rt/pthread_stub/pthread.c\<close> and their headers): threads, queues, lock,
    GIL, preemption, mutexes, condition variables and once, as the step relation \<open>step\<close> over up to
    eight CPUs; its grain is the critical section of the scheduler lock. \<open>Sched_Queues\<close> shows that
    the intrusive lists are queues, \<open>Sched_Inv\<close>, \<open>Sched_Steps\<close>, \<open>Sched_Acts\<close> and \<open>Sched_Safety\<close> have the
    invariant and that every step keeps it, \<open>Sched_Properties\<close> draws the conclusions: threads are in one
    place, the GIL excludes, the lock holder masks interrupts, critical sections end, thread-local
    storage of pool threads is private, and what happens to the GIL of a thread that exits with it.
  \<^item> \<open>Display\<close> (\<open>hal/display/display.c\<close>) and \<open>Display_Properties\<close>: the drawing primitives over an
    address space, and which words of it fill, copy and line change. Coordinates are below 2^30, end
    points of lines below 2^28, so that the 32-bit sums and the error term of the line do not overflow.
  \<^item> \<open>Input\<close> (\<open>hal/input/input_queue.c\<close>, \<open>ps2.c\<close>, \<open>virtio_input.c\<close>) and \<open>Input_Properties\<close>: the event ring is
    a bounded queue (locale \<open>bounded_fifo\<close>), characters come as \<open>docs/api/input.md\<close> says, the two
    keyboard drivers agree, and mouse packets stay in their buffer.
  \<^item> \<open>Rtc\<close> (\<open>arch/x86_64/rtc.c\<close>): reading the clock over port accesses that are parameters; the day count
    is compared with stepping through the Gregorian calendar day by day.
  \<^item> \<open>Tftp\<close> (\<open>net/tftp.c\<close>): the transfer over a network that is a parameter; what a successful transfer
    has stored, that the client returns, and that it stays within the buffer.
  \<^item> \<open>Inet\<close> (\<open>net/mbedtls_port/inet_pton.c\<close>, \<open>cando_port/lib/url.c\<close>): addresses and URLs.
  \<^item> \<open>Encoding\<close> (\<open>cando_port/lib/encoding.c\<close>): hex and base64 and their round trips.

  \<^bold>\<open>Parameters.\<close> The xHCI bulk transfer, port input and output, the UDP layer and its clock, the
  lwext4 and libntfs-3g wrappers and the drivers' pumps are arguments of the definitions that call
  them. What the proofs need of them are hypotheses or locale assumptions, each with an instance.

  \<^bold>\<open>Not modelled.\<close> Boot loaders, assembly, interrupt controllers and the other drivers are register
  and DMA accesses. The script bindings, the crypto and TLS ports and the JIT depend on an interpreter
  and libraries outside the repository; scripts are in a language defined there. The NTFS reader
  \<open>fs/ntfs.c\<close>, the parsers of boot information (\<open>mb2_parse.c\<close>, \<open>fdt.c\<close>, \<open>env.c\<close>) and the C library port
  (\<open>syscalls.c\<close>) are left out of this development. Threads interleave at critical sections; the effect of weak memory
  order on the scheduler's variables is not modelled, since the spinlock orders all of its accesses.
\<close>

end
